(* ===== verification/Prelude.thy ===== *)
theory Prelude
  imports Main "HOL-Library.Word"
begin

text \<open>
  Shared vocabulary of the development.

  \<^item> Bytes and strings: a C++ \<open>char\<close> and a byte of a \<open>QByteArray\<close> are HOL's 8-bit \<open>char\<close>; a
    \<open>QChar\<close> is a 16-bit word (one UTF-16 code unit) and a \<open>QString\<close> a list of them.
  \<^item> Qt's character tables, number parser and codecs are not code of this repository. They are the
    fields of the record \<open>qt\<close>, an argument of every definition that calls them. What the code
    relies on is the predicate \<open>qt_laws\<close>: the documented behaviour on ASCII and on decimal
    numerals. \<open>ascii_qt\<close> is one concrete implementation, for the witnesses.
  \<^item> Abnormal ends of the process (\<open>qFatal\<close>, a signed overflow, an escaping exception) are the left
    side of a sum.
\<close>

named_theorems char_class \<open>classification of concrete and printable bytes\<close>
named_theorems transit \<open>field accessors of a parser configuration after a transition\<close>

section \<open>Outcomes\<close>

datatype fatal =
    QFatal string        \<comment> \<open>\<open>qFatal\<close>: logs the message and aborts the process\<close>
  | SignedOverflow       \<comment> \<open>arithmetic on \<open>int\<close> out of range: undefined behaviour\<close>
  | DomainError          \<comment> \<open>\<open>std::domain_error\<close> thrown by \<open>hex_value\<close>\<close>
  | Deadlock             \<comment> \<open>a thread locks a \<open>std::mutex\<close> it already holds\<close>
  | AssertFailed string  \<comment> \<open>a failed \<open>assert\<close>\<close>
  | BadAlloc             \<comment> \<open>\<open>std::bad_alloc\<close>, which nothing catches\<close>

type_synonym 'a outcome = "fatal + 'a"

definition int32 :: "int \<Rightarrow> int outcome" where
  "int32 i = (if - (2 ^ 31) \<le> i \<and> i < 2 ^ 31 then Inr i else Inl SignedOverflow)"

lemma int32_Inr [simp]: "0 \<le> i \<Longrightarrow> i < 2147483648 \<Longrightarrow> int32 i = Inr i"
  by (simp add: int32_def)

lemma int32_eq_Inl: "int32 i = Inl e \<Longrightarrow> e = SignedOverflow"
  by (simp add: int32_def split: if_splits)

section \<open>Bytes\<close>

type_synonym bytes = string

text \<open>
  A plain \<open>char\<close> promoted to \<open>int\<close>, on the platforms the project builds for (x86-64 and Apple
  arm64), where \<open>char\<close> is signed: a byte from 128 on is negative.
\<close>

definition char_int :: "char \<Rightarrow> int" where
  "char_int c = (if (of_char c :: nat) < 128 then int (of_char c) else int (of_char c) - 256)"

abbreviation CR :: char where "CR \<equiv> CHR 0x0D"
abbreviation LF :: char where "LF \<equiv> CHR 0x0A"
abbreviation SP :: char where "SP \<equiv> CHR 0x20"
abbreviation HT :: char where "HT \<equiv> CHR 0x09"

definition ascii :: "char \<Rightarrow> bool" where
  "ascii c \<longleftrightarrow> (of_char c :: nat) < 128"

definition ascii_digit :: "char \<Rightarrow> bool" where
  "ascii_digit c \<longleftrightarrow> 48 \<le> (of_char c :: nat) \<and> (of_char c :: nat) \<le> 57"

definition ascii_upper_letter :: "char \<Rightarrow> bool" where
  "ascii_upper_letter c \<longleftrightarrow> 65 \<le> (of_char c :: nat) \<and> (of_char c :: nat) \<le> 90"

definition ascii_lower_letter :: "char \<Rightarrow> bool" where
  "ascii_lower_letter c \<longleftrightarrow> 97 \<le> (of_char c :: nat) \<and> (of_char c :: nat) \<le> 122"

definition ascii_letter :: "char \<Rightarrow> bool" where
  "ascii_letter c \<longleftrightarrow> ascii_upper_letter c \<or> ascii_lower_letter c"

definition ascii_space :: "char \<Rightarrow> bool" where
  "ascii_space c \<longleftrightarrow> c = SP \<or> (9 \<le> (of_char c :: nat) \<and> (of_char c :: nat) \<le> 13)"

definition ascii_upper :: "char \<Rightarrow> char" where
  "ascii_upper c = (if ascii_lower_letter c then char_of ((of_char c :: nat) - 32) else c)"

definition ascii_lower :: "char \<Rightarrow> char" where
  "ascii_lower c = (if ascii_upper_letter c then char_of ((of_char c :: nat) + 32) else c)"

lemma of_char_lt: "(of_char c :: nat) < 256"
  using of_char_mod_256 [of c, where ?'a = nat] by (metis mod_less_divisor zero_less_numeral)

lemma of_char_of_small [simp]: "n < 256 \<Longrightarrow> (of_char (char_of n) :: nat) = n"
  by simp

lemma char_of_of_nat_char [simp]: "char_of (of_char c :: nat) = c"
  by simp

lemma ascii_upper_ascii [simp]: "ascii (ascii_upper c) = ascii c"
  by (auto simp: ascii_upper_def ascii_def ascii_lower_letter_def)

lemma ascii_lower_ascii [simp]: "ascii (ascii_lower c) = ascii c"
  by (auto simp: ascii_lower_def ascii_def ascii_upper_letter_def)

lemma ascii_letter_case [simp]:
  "ascii_letter (ascii_upper c) = ascii_letter c"
  "ascii_letter (ascii_lower c) = ascii_letter c"
  by (auto simp: ascii_upper_def ascii_lower_def ascii_letter_def ascii_upper_letter_def
      ascii_lower_letter_def)

lemma ascii_case_idem [simp]:
  "ascii_upper (ascii_upper c) = ascii_upper c"
  "ascii_lower (ascii_lower c) = ascii_lower c"
  by (auto simp: ascii_upper_def ascii_lower_def ascii_upper_letter_def ascii_lower_letter_def)

lemma char_eqI: "(of_char c :: nat) = of_char d \<Longrightarrow> c = d"
  by (metis char_of_of_nat_char)

lemma ascii_case_hyphen [simp]:
  "(ascii_upper c = CHR ''-'') = (c = CHR ''-'')"
  "(ascii_lower c = CHR ''-'') = (c = CHR ''-'')"
  by (auto simp: ascii_upper_def ascii_lower_def ascii_lower_letter_def ascii_upper_letter_def
      dest!: arg_cong [where f = "of_char :: char \<Rightarrow> nat"])

section \<open>Qt strings\<close>

type_synonym qchar = "16 word"
type_synonym qstring = "qchar list"

text \<open>\<open>QChar(char)\<close> and \<open>QString::fromLatin1\<close>: every byte is its own code point.\<close>

definition qch :: "char \<Rightarrow> qchar" where
  "qch c = of_nat (of_char c)"

definition latin1 :: "bytes \<Rightarrow> qstring" where
  "latin1 bs = map qch bs"

lemma unat_qch [simp]: "unat (qch c) = of_char c"
proof -
  have "(of_char c :: nat) mod 2 ^ 16 = of_char c"
    using of_char_lt [of c] by (intro mod_less) (rule less_trans, assumption, simp)
  then show ?thesis by (simp add: qch_def unat_of_nat)
qed

lemma qch_inject [simp]: "(qch c = qch d) = (c = d)"
  by (metis unat_qch char_eqI)

lemma latin1_inject [simp]: "(latin1 xs = latin1 ys) = (xs = ys)"
  unfolding latin1_def by (rule inj_map_eq_map) (auto intro: injI)

lemma latin1_simps [simp]:
  "latin1 [] = []"
  "latin1 (c # cs) = qch c # latin1 cs"
  "latin1 (xs @ ys) = latin1 xs @ latin1 ys"
  "length (latin1 xs) = length xs"
  by (simp_all add: latin1_def)

lemma latin1_eq_Nil [simp]: "(latin1 bs = []) = (bs = [])"
  by (cases bs) simp_all

text \<open>
  The parts of Qt the core depends on: the Unicode tables behind \<open>QChar\<close>, the number parser
  \<open>QString::toULongLong\<close> (\<open>None\<close> where it clears \<open>ok\<close>), the codecs \<open>QString::fromUtf8\<close> and
  \<open>QString::toStdString\<close> (UTF-8), what \<open>QString::toLatin1\<close> writes for a code unit outside Latin-1, whether
  \<open>QByteArray::reserve\<close> gets the memory it is asked for (it throws \<open>std::bad_alloc\<close> if not), and the cells, by
  row and column, that a table view reads again when its model emits a signal. An index into the model is its row
  and its column.
\<close>

datatype ModelSignal =
    RowsInserted nat nat
  | DataChanged "nat \<times> int" "nat \<times> int"
  | LayoutChanged "(nat \<times> int) list"

record qt =
  isLetter :: "qchar \<Rightarrow> bool"
  toUpper :: "qchar \<Rightarrow> qchar"
  toLower :: "qchar \<Rightarrow> qchar"
  isSpace :: "qchar \<Rightarrow> bool"
  toULongLong :: "qstring \<Rightarrow> 64 word option"
  fromUtf8 :: "bytes \<Rightarrow> qstring"
  nonLatin1 :: "qchar \<Rightarrow> bytes"
  toStdString :: "qstring \<Rightarrow> bytes"
  canReserve :: "nat \<Rightarrow> bool"
  viewReads :: "ModelSignal \<Rightarrow> nat \<Rightarrow> int \<Rightarrow> bool"

definition toLatin1 :: "qt \<Rightarrow> qstring \<Rightarrow> bytes" where
  "toLatin1 Q s = concat (map (\<lambda>c. if unat c < 256 then [char_of (unat c)] else nonLatin1 Q c) s)"

lemma toLatin1_simps [simp]:
  "toLatin1 Q [] = []"
  "toLatin1 Q (xs @ ys) = toLatin1 Q xs @ toLatin1 Q ys"
  by (simp_all add: toLatin1_def)

lemma toLatin1_Cons [simp]: "toLatin1 Q (qch c # s) = c # toLatin1 Q s"
  by (simp add: toLatin1_def)

lemma toLatin1_latin1 [simp]: "toLatin1 Q (latin1 bs) = bs"
  by (induction bs) simp_all

section \<open>Decimal numerals\<close>

fun dec_nat :: "nat \<Rightarrow> string" where
  "dec_nat n = (if n < 10 then [char_of (48 + n)] else dec_nat (n div 10) @ [char_of (48 + n mod 10)])"

declare dec_nat.simps [simp del]

definition dec_int :: "int \<Rightarrow> string" where
  "dec_int i = (if i < 0 then CHR ''-'' # dec_nat (nat (- i)) else dec_nat (nat i))"

definition digit_value :: "char \<Rightarrow> nat" where
  "digit_value c = of_char c - 48"

definition dec_value :: "nat \<Rightarrow> string \<Rightarrow> nat" where
  "dec_value = foldl (\<lambda>a c. a * 10 + digit_value c)"

lemma dec_value_simps [simp]:
  "dec_value a [] = a"
  "dec_value a (c # cs) = dec_value (a * 10 + digit_value c) cs"
  "dec_value a (xs @ ys) = dec_value (dec_value a xs) ys"
  by (simp_all add: dec_value_def)

lemma digit_char [simp]:
  "n < 10 \<Longrightarrow> ascii_digit (char_of (48 + n))"
  "n < 10 \<Longrightarrow> digit_value (char_of (48 + n)) = n"
  by (simp_all add: ascii_digit_def digit_value_def)

lemma dec_nat_digits: "list_all ascii_digit (dec_nat n)"
  by (induction n rule: dec_nat.induct) (simp add: dec_nat.simps [of n for n])

lemma dec_nat_value [simp]: "dec_value 0 (dec_nat n) = n"
proof (induction n rule: dec_nat.induct)
  case (1 n)
  then show ?case
    by (cases "n < 10") (simp_all add: dec_nat.simps [of n])
qed

lemma dec_nat_not_Nil [simp]: "dec_nat n \<noteq> []"
  by (subst dec_nat.simps) simp

lemma ascii_digit_ascii: "ascii_digit c \<Longrightarrow> ascii c"
  by (simp add: ascii_digit_def ascii_def)

lemma dec_nat_ascii: "list_all ascii (dec_nat n)"
  using dec_nat_digits by (rule list.pred_mono_strong) (rule ascii_digit_ascii)

section \<open>Splitting and trimming\<close>

text \<open>\<open>QStringView::split(sep)\<close> with the default \<open>Qt::KeepEmptyParts\<close>.\<close>

fun split_on :: "'a \<Rightarrow> 'a list \<Rightarrow> 'a list list" where
  "split_on d [] = [[]]"
| "split_on d (x # xs) =
     (if x = d then [] # split_on d xs
      else case split_on d xs of [] \<Rightarrow> [[x]] | p # ps \<Rightarrow> (x # p) # ps)"

lemma split_on_not_Nil [simp]: "split_on d xs \<noteq> []"
  by (induction xs) (auto split: list.splits)

lemma split_on_no_sep: "d \<notin> set xs \<Longrightarrow> split_on d xs = [xs]"
  by (induction xs) auto

lemma split_on_append_sep:
  "d \<notin> set xs \<Longrightarrow> split_on d (xs @ d # ys) = xs # split_on d ys"
  by (induction xs) auto

text \<open>\<open>trimmed()\<close>: white space is dropped at both ends.\<close>

definition trimmed :: "qt \<Rightarrow> qstring \<Rightarrow> qstring" where
  "trimmed Q s = rev (dropWhile (isSpace Q) (rev (dropWhile (isSpace Q) s)))"

lemma trimmed_no_space: "\<not> list_ex (isSpace Q) s \<Longrightarrow> trimmed Q s = s"
proof -
  assume "\<not> list_ex (isSpace Q) s"
  then have "c \<in> set s \<Longrightarrow> \<not> isSpace Q c" for c by (auto simp: list_ex_iff)
  then have "dropWhile (isSpace Q) s = s" and "dropWhile (isSpace Q) (rev s) = rev s"
    by (auto simp: dropWhile_eq_self_iff hd_rev)
  then show ?thesis by (simp add: trimmed_def)
qed

section \<open>The documented behaviour of Qt\<close>

definition qt_laws :: "qt \<Rightarrow> bool" where
  "qt_laws Q \<longleftrightarrow>
     (\<forall>c. ascii c \<longrightarrow> isLetter Q (qch c) = ascii_letter c)
   \<and> (\<forall>c. ascii c \<longrightarrow> toUpper Q (qch c) = qch (ascii_upper c))
   \<and> (\<forall>c. ascii c \<longrightarrow> toLower Q (qch c) = qch (ascii_lower c))
   \<and> (\<forall>c. ascii c \<longrightarrow> isSpace Q (qch c) = ascii_space c)
   \<and> (\<forall>n. n < 2 ^ 64 \<longrightarrow> toULongLong Q (latin1 (dec_nat n)) = Some (of_nat n))
   \<and> (\<forall>bs. list_all ascii bs \<longrightarrow> fromUtf8 Q bs = latin1 bs)
   \<and> (\<forall>bs. list_all ascii bs \<longrightarrow> toStdString Q (latin1 bs) = bs)"

lemma qt_lawsD:
  assumes "qt_laws Q"
  shows qt_isLetter: "ascii c \<Longrightarrow> isLetter Q (qch c) = ascii_letter c"
    and qt_toUpper: "ascii c \<Longrightarrow> toUpper Q (qch c) = qch (ascii_upper c)"
    and qt_toLower: "ascii c \<Longrightarrow> toLower Q (qch c) = qch (ascii_lower c)"
    and qt_isSpace: "ascii c \<Longrightarrow> isSpace Q (qch c) = ascii_space c"
    and qt_toULongLong: "n < 2 ^ 64 \<Longrightarrow> toULongLong Q (latin1 (dec_nat n)) = Some (of_nat n)"
    and qt_fromUtf8: "list_all ascii bs \<Longrightarrow> fromUtf8 Q bs = latin1 bs"
    and qt_toStdString: "list_all ascii bs \<Longrightarrow> toStdString Q (latin1 bs) = bs"
  using assms by (simp_all add: qt_laws_def)

text \<open>
  What the table relies on in its view: inserted rows are read, the cells between the corners of \<open>dataChanged\<close> are read
  again, and \<open>layoutChanged\<close> lays the table out anew, for which every cell is read.
\<close>

definition view_laws :: "qt \<Rightarrow> bool" where
  "view_laws Q \<longleftrightarrow>
     (\<forall>a b i j. a \<le> i \<and> i \<le> b \<longrightarrow> viewReads Q (RowsInserted a b) i j)
   \<and> (\<forall>a b i j. fst a \<le> i \<and> i \<le> fst b \<and> snd a \<le> j \<and> j \<le> snd b \<longrightarrow> viewReads Q (DataChanged a b) i j)
   \<and> (\<forall>ps i j. viewReads Q (LayoutChanged ps) i j)"

text \<open>A concrete Qt restricted to ASCII, on which the witnesses run; it has memory for a gigabyte.\<close>

definition qbyte :: "qchar \<Rightarrow> char" where
  "qbyte c = char_of (unat c)"

definition gigabyte :: "nat \<Rightarrow> bool" where
  "gigabyte n \<longleftrightarrow> int n \<le> 1073741824"

fun table_view :: "ModelSignal \<Rightarrow> nat \<Rightarrow> int \<Rightarrow> bool" where
  "table_view (RowsInserted a b) i j \<longleftrightarrow> a \<le> i \<and> i \<le> b"
| "table_view (DataChanged a b) i j \<longleftrightarrow> fst a \<le> i \<and> i \<le> fst b \<and> snd a \<le> j \<and> j \<le> snd b"
| "table_view (LayoutChanged ps) i j \<longleftrightarrow> True"

definition ascii_qt :: qt where
  "ascii_qt = \<lparr>
     isLetter = (\<lambda>c. unat c < 128 \<and> ascii_letter (qbyte c)),
     toUpper = (\<lambda>c. if unat c < 128 then qch (ascii_upper (qbyte c)) else c),
     toLower = (\<lambda>c. if unat c < 128 then qch (ascii_lower (qbyte c)) else c),
     isSpace = (\<lambda>c. unat c < 128 \<and> ascii_space (qbyte c)),
     toULongLong = (\<lambda>s. let ds = map qbyte s in
        if ds \<noteq> [] \<and> list_all (\<lambda>c. unat c < 128) s \<and> list_all ascii_digit ds \<and> int (dec_value 0 ds) < 2 ^ 64
        then Some (of_nat (dec_value 0 ds)) else None),
     fromUtf8 = latin1,
     nonLatin1 = (\<lambda>_. ''?''),
     toStdString = map qbyte,
     canReserve = gigabyte,
     viewReads = table_view\<rparr>"

lemma ascii_qt_view: "view_laws ascii_qt"
  by (simp add: view_laws_def ascii_qt_def)

lemma ascii_qt_canReserve [simp]: "canReserve ascii_qt n \<longleftrightarrow> n \<le> 1073741824"
  by (simp add: ascii_qt_def gigabyte_def)

lemma qbyte_qch [simp]: "qbyte (qch c) = c"
  by (simp add: qbyte_def)

lemma map_qbyte_latin1 [simp]: "map qbyte (latin1 bs) = bs"
  by (induction bs) simp_all

lemma ascii_qt_laws: "qt_laws ascii_qt"
proof -
  have "list_all (\<lambda>c. unat c < 128) (latin1 bs)" if "list_all ascii bs" for bs
    using that by (induction bs) (simp_all add: ascii_def)
  then show ?thesis
    by (auto simp: qt_laws_def ascii_qt_def ascii_def dec_nat_digits dec_nat_ascii)
qed

end
