(* ===== verification/Headers.thy ===== *)
theory Headers
  imports Prelude
begin

text \<open>
  \<open>core/src/Headers.cpp\<close>: the header collection of a message, a \<open>QMultiHash\<close> from canonical names to
  values together with the list of canonical names in the order they first appeared.

  The \<open>QMultiHash\<close> is the list of its (key, value) items, most recently inserted first: that is the
  order in which \<open>QMultiHash::values(key)\<close> is documented to return the values of one key. Only the
  operations the code uses (\<open>insert\<close>, \<open>contains\<close>, \<open>values\<close>, \<open>size\<close>, \<open>empty\<close>) are modelled; none of
  them depends on the order of items with different keys.

  The locale \<open>header_store\<close> is the contract the parser, the request formatter and the transaction
  rely on; it is interpreted on the definitions of this file.
\<close>

section \<open>The contract of a header store\<close>

locale header_store =
  fixes canon :: "'k \<Rightarrow> 'k"
    and new :: "'h"
    and ins :: "'k \<Rightarrow> 'v \<Rightarrow> 'h \<Rightarrow> 'h"
    and find :: "'h \<Rightarrow> 'k \<Rightarrow> 'v list"
    and names_of :: "'h \<Rightarrow> 'k list"
    and size_of :: "'h \<Rightarrow> nat"
    and inv :: "'h \<Rightarrow> bool"
  assumes inv_new: "inv new"
    and inv_ins: "inv h \<Longrightarrow> inv (ins n v h)"
    and find_new: "find new m = []"
    and find_ins: "inv h \<Longrightarrow>
      find (ins n v h) m = (if canon m = canon n then v # find h m else find h m)"
    and names_new: "names_of new = []"
    and names_ins: "inv h \<Longrightarrow>
      names_of (ins n v h) = (if canon n \<in> set (names_of h) then names_of h else names_of h @ [canon n])"
    and names_distinct: "inv h \<Longrightarrow> distinct (names_of h)"
    and names_find: "inv h \<Longrightarrow> canon n \<in> set (names_of h) \<longleftrightarrow> find h n \<noteq> []"
    and size_new: "size_of new = 0"
    and size_ins: "inv h \<Longrightarrow> size_of (ins n v h) = Suc (size_of h)"
begin

lemma inv_fold: "inv h \<Longrightarrow> inv (fold (\<lambda>(n, v). ins n v) kvs h)"
  by (induction kvs arbitrary: h) (auto intro: inv_ins)

lemma find_fold:
  "inv h \<Longrightarrow> find (fold (\<lambda>(n, v). ins n v) kvs h) m =
     rev (map snd (filter (\<lambda>(n, v). canon n = canon m) kvs)) @ find h m"
proof (induction kvs arbitrary: h)
  case (Cons kv kvs)
  then show ?case
    by (cases kv) (auto simp: find_ins inv_ins)
qed simp

lemma size_fold: "inv h \<Longrightarrow> size_of (fold (\<lambda>(n, v). ins n v) kvs h) = size_of h + length kvs"
proof (induction kvs arbitrary: h)
  case (Cons kv kvs)
  then show ?case
    by (cases kv) (simp add: size_ins inv_ins)
qed simp

lemma names_fold:
  "inv h \<Longrightarrow> set (names_of (fold (\<lambda>(n, v). ins n v) kvs h)) =
     set (names_of h) \<union> (canon \<circ> fst) ` set kvs"
proof (induction kvs arbitrary: h)
  case (Cons kv kvs)
  then show ?case
    by (cases kv) (auto simp: names_ins inv_ins)
qed simp

lemma names_fold_fresh:
  "inv h \<Longrightarrow> distinct (map (canon \<circ> fst) kvs) \<Longrightarrow>
   (canon \<circ> fst) ` set kvs \<inter> set (names_of h) = {} \<Longrightarrow>
   names_of (fold (\<lambda>(n, v). ins n v) kvs h) = names_of h @ map (canon \<circ> fst) kvs"
proof (induction kvs arbitrary: h)
  case (Cons kv kvs)
  then show ?case
    by (cases kv) (auto simp: names_ins inv_ins)
qed simp

lemma find_fold_fresh:
  "inv h \<Longrightarrow> distinct (map (canon \<circ> fst) kvs) \<Longrightarrow> (n, v) \<in> set kvs \<Longrightarrow> find h n = [] \<Longrightarrow>
   find (fold (\<lambda>(n, v). ins n v) kvs h) n = [v]"
proof -
  assume *: "inv h" "distinct (map (canon \<circ> fst) kvs)" "(n, v) \<in> set kvs" "find h n = []"
  from *(2,3) have "filter (\<lambda>(m, w). canon m = canon n) kvs = [(n, v)]"
    by (induction kvs) (auto simp: filter_empty_conv image_iff rev_image_eqI)
  with * show ?thesis by (simp add: find_fold)
qed

lemma find_iff_names: "inv h \<Longrightarrow> find h n = [] \<longleftrightarrow> canon n \<notin> set (names_of h)"
  using names_find by blast

end

section \<open>The class Headers\<close>

record Headers =
  hdr_values :: "(qstring \<times> qstring) list"
  insertion_order :: "qstring list"

definition Headers_new :: Headers where
  "Headers_new = \<lparr>hdr_values = [], insertion_order = []\<rparr>"

definition Headers_empty :: "Headers \<Rightarrow> bool" where
  "Headers_empty h \<longleftrightarrow> hdr_values h = []"

definition Headers_size :: "Headers \<Rightarrow> nat" where
  "Headers_size h = length (hdr_values h)"

text \<open>The loop of \<open>canonicalize\<close>, from the current position on, with its flag \<open>first\<close>.\<close>

fun canonicalize_from :: "qt \<Rightarrow> bool \<Rightarrow> qstring \<Rightarrow> qstring" where
  "canonicalize_from Q first [] = []"
| "canonicalize_from Q first (c # cs) =
     (if isLetter Q c then
        (if first then toUpper Q c # canonicalize_from Q False cs
         else toLower Q c # canonicalize_from Q first cs)
      else if c = qch (CHR ''-'') then c # canonicalize_from Q True cs
      else c # canonicalize_from Q first cs)"

definition canonicalize :: "qt \<Rightarrow> qstring \<Rightarrow> qstring" where
  "canonicalize Q name = canonicalize_from Q True name"

text \<open>\<open>QMultiHash::contains\<close> and \<open>QMultiHash::values\<close>.\<close>

definition hash_contains :: "(qstring \<times> qstring) list \<Rightarrow> qstring \<Rightarrow> bool" where
  "hash_contains vs k = list_ex (\<lambda>(k', v). k' = k) vs"

definition hash_values :: "(qstring \<times> qstring) list \<Rightarrow> qstring \<Rightarrow> qstring list" where
  "hash_values vs k = map snd (filter (\<lambda>(k', v). k' = k) vs)"

definition insert :: "qt \<Rightarrow> qstring \<Rightarrow> qstring \<Rightarrow> Headers \<Rightarrow> Headers" where
  "insert Q name value h =
     (let canon = canonicalize Q name;
          h = (if \<not> hash_contains (hdr_values h) canon
               then h\<lparr>insertion_order := insertion_order h @ [canon]\<rparr> else h)
      in h\<lparr>hdr_values := (canon, value) # hdr_values h\<rparr>)"

definition find_by_name :: "qt \<Rightarrow> Headers \<Rightarrow> qstring \<Rightarrow> qstring list" where
  "find_by_name Q h name = hash_values (hdr_values h) (canonicalize Q name)"

definition names :: "Headers \<Rightarrow> qstring list" where
  "names h = insertion_order h"

section \<open>Well-formed header collections\<close>

definition headers_wf :: "Headers \<Rightarrow> bool" where
  "headers_wf h \<longleftrightarrow> distinct (insertion_order h) \<and> set (insertion_order h) = fst ` set (hdr_values h)"

lemma hash_contains_iff: "hash_contains vs k \<longleftrightarrow> k \<in> fst ` set vs"
  by (force simp: hash_contains_def list_ex_iff)

lemma hash_values_eq_Nil: "hash_values vs k = [] \<longleftrightarrow> k \<notin> fst ` set vs"
  by (force simp: hash_values_def filter_empty_conv)

lemma headers_wf_insert: "headers_wf h \<Longrightarrow> headers_wf (insert Q n v h)"
  by (auto simp: headers_wf_def insert_def Let_def hash_contains_iff)

interpretation hdr: header_store "canonicalize Q" Headers_new "insert Q" "find_by_name Q" names
  Headers_size headers_wf for Q
proof (unfold_locales, goal_cases)
  case (2 h n v)
  then show ?case
    by (rule headers_wf_insert)
next
  case (4 h n v m)
  then show ?case
    by (auto simp: find_by_name_def insert_def hash_values_def Let_def)
next
  case (6 h n v)
  then show ?case
    by (auto simp: names_def insert_def Let_def hash_contains_iff headers_wf_def)
next
  case (8 h n)
  then show ?case
    by (simp add: names_def find_by_name_def hash_values_eq_Nil headers_wf_def)
qed (simp_all add: headers_wf_def Headers_new_def find_by_name_def hash_values_def names_def
      Headers_size_def insert_def Let_def)

section \<open>Canonical names\<close>

text \<open>The reference on ASCII: upper case at the start and after each hyphen, lower case elsewhere.\<close>

fun canon_ascii :: "bool \<Rightarrow> string \<Rightarrow> string" where
  "canon_ascii first [] = []"
| "canon_ascii first (c # cs) =
     (if ascii_letter c then
        (if first then ascii_upper c else ascii_lower c) # canon_ascii False cs
      else c # canon_ascii (first \<or> c = CHR ''-'') cs)"

lemma canonicalize_from_latin1:
  "qt_laws Q \<Longrightarrow> list_all ascii n \<Longrightarrow> canonicalize_from Q first (latin1 n) = latin1 (canon_ascii first n)"
  by (induction n arbitrary: first) (auto simp: qt_lawsD)

lemma canonicalize_latin1 [simp]:
  "qt_laws Q \<Longrightarrow> list_all ascii n \<Longrightarrow> canonicalize Q (latin1 n) = latin1 (canon_ascii True n)"
  by (simp add: canonicalize_def canonicalize_from_latin1)

lemma canon_ascii_ascii [simp]: "list_all ascii (canon_ascii first n) = list_all ascii n"
  by (induction n arbitrary: first) auto

lemma canon_ascii_idem [simp]: "canon_ascii first (canon_ascii first n) = canon_ascii first n"
  by (induction n arbitrary: first) auto

lemma canon_ascii_length [simp]: "length (canon_ascii first n) = length n"
  by (induction n arbitrary: first) auto

lemma ascii_lower_upper [simp]: "ascii_lower (ascii_upper c) = ascii_lower c"
  by (auto simp: ascii_lower_def ascii_upper_def ascii_upper_letter_def ascii_lower_letter_def)

lemma map_lower_canon_ascii: "map ascii_lower (canon_ascii first n) = map ascii_lower n"
  by (induction n arbitrary: first) auto

lemma ascii_lower_eqD:
  "ascii_lower c = ascii_lower d \<Longrightarrow>
   ascii_letter c = ascii_letter d \<and> ascii_upper c = ascii_upper d \<and>
   (\<not> ascii_letter c \<longrightarrow> c = d)"
proof -
  assume eq: "ascii_lower c = ascii_lower d"
  have letter: "ascii_letter c = ascii_letter d"
    using ascii_letter_case(2) [of c] ascii_letter_case(2) [of d] by (simp add: eq)
  have ul: "ascii_upper (ascii_lower x) = ascii_upper x" for x
    by (auto simp: ascii_lower_def ascii_upper_def ascii_upper_letter_def ascii_lower_letter_def)
  have up: "ascii_upper c = ascii_upper d"
    using ul [of c] ul [of d] by (simp add: eq)
  have low: "ascii_lower x = x" if "\<not> ascii_letter x" for x
    using that by (simp add: ascii_lower_def ascii_letter_def)
  have "c = d" if "\<not> ascii_letter c"
    using low [of c] low [of d] that eq letter by simp
  with letter up show ?thesis by blast
qed

lemma canon_ascii_cong:
  "map ascii_lower n = map ascii_lower m \<Longrightarrow> canon_ascii first n = canon_ascii first m"
proof (induction n arbitrary: first m)
  case (Cons c cs)
  from Cons.prems obtain d ds where m: "m = d # ds"
    and eq: "ascii_lower c = ascii_lower d" "map ascii_lower cs = map ascii_lower ds"
    by (cases m) auto
  note L = ascii_lower_eqD [OF eq(1)]
  show ?case
  proof (cases "ascii_letter c")
    case True
    moreover from True L have "ascii_letter d" "ascii_upper c = ascii_upper d" by auto
    ultimately show ?thesis by (simp add: m eq(1) Cons.IH [OF eq(2)])
  next
    case False
    moreover from False L have "\<not> ascii_letter d" "c = d" by auto
    ultimately show ?thesis by (simp add: m Cons.IH [OF eq(2)])
  qed
qed simp

lemma canon_ascii_eq_iff:
  "canon_ascii first n = canon_ascii first m \<longleftrightarrow> map ascii_lower n = map ascii_lower m"
  by (metis canon_ascii_cong map_lower_canon_ascii)

end
