(* ===== verification/HttpMessage.thy ===== *)
theory HttpMessage
  imports Headers
begin

text \<open>
  \<open>core/src/HttpMessage.cpp\<close>, \<open>core/src/Request.cpp\<close> and \<open>core/include/core/Response.h\<close>: the value type
  that the parser fills and the two classes that wrap it. A \<open>Request\<close> and a \<open>Response\<close> are one
  \<open>HttpMessage\<close> each, so both are that type here and their accessors are definitions.

  \<open>Request_format\<close> is \<open>Request::format\<close>, the text the transaction sends to the remote host. The stream
  writes a \<open>QByteArray\<close> by decoding it as UTF-8, and the result is encoded as Latin-1 at the end: the
  body of a request passes through both codecs.
\<close>

section \<open>HttpMessage\<close>

record HttpMessage =
  msg_method :: qstring
  msg_uri :: qstring
  msg_status_code :: int
  msg_status_message :: qstring
  msg_major_version :: int
  msg_minor_version :: int
  msg_headers :: Headers
  msg_body :: bytes

definition HttpMessage_new :: HttpMessage where
  "HttpMessage_new = \<lparr>msg_method = [], msg_uri = [], msg_status_code = 0, msg_status_message = [],
     msg_major_version = 0, msg_minor_version = 0, msg_headers = Headers_new, msg_body = []\<rparr>"

definition set_method :: "qstring \<Rightarrow> HttpMessage \<Rightarrow> HttpMessage" where
  "set_method v m = m\<lparr>msg_method := v\<rparr>"

definition set_uri :: "qstring \<Rightarrow> HttpMessage \<Rightarrow> HttpMessage" where
  "set_uri v m = m\<lparr>msg_uri := v\<rparr>"

definition set_major_version :: "int \<Rightarrow> HttpMessage \<Rightarrow> HttpMessage" where
  "set_major_version v m = m\<lparr>msg_major_version := v\<rparr>"

definition set_minor_version :: "int \<Rightarrow> HttpMessage \<Rightarrow> HttpMessage" where
  "set_minor_version v m = m\<lparr>msg_minor_version := v\<rparr>"

definition set_body :: "bytes \<Rightarrow> HttpMessage \<Rightarrow> HttpMessage" where
  "set_body v m = m\<lparr>msg_body := v\<rparr>"

definition set_status_code :: "int \<Rightarrow> HttpMessage \<Rightarrow> HttpMessage" where
  "set_status_code v m = m\<lparr>msg_status_code := v\<rparr>"

definition set_status_message :: "qstring \<Rightarrow> HttpMessage \<Rightarrow> HttpMessage" where
  "set_status_message v m = m\<lparr>msg_status_message := v\<rparr>"

definition add_header :: "qt \<Rightarrow> qstring \<Rightarrow> qstring \<Rightarrow> HttpMessage \<Rightarrow> HttpMessage" where
  "add_header Q name value m = m\<lparr>msg_headers := insert Q name value (msg_headers m)\<rparr>"

lemmas setter_defs = set_method_def set_uri_def set_major_version_def set_minor_version_def
  set_body_def set_status_code_def set_status_message_def add_header_def

section \<open>Request\<close>

type_synonym Request = HttpMessage

text \<open>The inner loop of \<open>format\<close> over the values of one name, with its flag \<open>first\<close>.\<close>

fun format_values :: "bool \<Rightarrow> qstring list \<Rightarrow> qstring" where
  "format_values first [] = []"
| "format_values first (value # vs) =
     (if \<not> first then latin1 '', '' else []) @ value @ format_values False vs"

definition format_header :: "qt \<Rightarrow> Headers \<Rightarrow> qstring \<Rightarrow> qstring" where
  "format_header Q hds name =
     name @ latin1 '': '' @ format_values True (find_by_name Q hds name) @ latin1 [CR, LF]"

definition Request_format :: "qt \<Rightarrow> Request \<Rightarrow> bytes" where
  "Request_format Q r = toLatin1 Q
     (msg_method r @ latin1 '' '' @ msg_uri r @ latin1 '' HTTP/''
      @ latin1 (dec_int (msg_major_version r)) @ latin1 ''.'' @ latin1 (dec_int (msg_minor_version r))
      @ latin1 [CR, LF]
      @ concat (map (format_header Q (msg_headers r)) (names (msg_headers r)))
      @ latin1 [CR, LF]
      @ (if length (msg_body r) > 0 then fromUtf8 Q (msg_body r) else []))"

definition can_persist :: "qt \<Rightarrow> Request \<Rightarrow> bool" where
  "can_persist Q r =
     (if msg_major_version r = 1 \<and> msg_minor_version r = 0 then False
      else if latin1 ''close'' \<in> set (find_by_name Q (msg_headers r) (latin1 ''Connection'')) then False
      else True)"

section \<open>Response\<close>

type_synonym Response = HttpMessage

definition Response_major_version :: "Response \<Rightarrow> int" where
  "Response_major_version r = msg_major_version r"

text \<open>As the header file has it: the accessor of the minor version reads the major version.\<close>

definition Response_minor_version :: "Response \<Rightarrow> int" where
  "Response_minor_version r = msg_major_version r"

end
