(* ===== verification/HttpMessageParser.thy ===== *)
theory HttpMessageParser
  imports HttpMessage
begin

text \<open>
  \<open>core/include/core/HttpMessageParser.h\<close> and \<open>core/src/HttpMessageParser.cpp\<close>: the incremental parser,
  a state machine that consumes one byte at a time and may pause where the parse phase changes.

  The \<open>switch\<close> of \<open>consume\<close> is split where the source separates its groups of states: request line,
  response status line, headers, the blank line after them, and entities. A configuration is the
  parser, the message it fills and the phase the caller passed (\<open>None\<close> for the null pointer).
\<close>

section \<open>Character classes\<close>

definition is_char :: "int \<Rightarrow> bool" where
  "is_char input \<longleftrightarrow> input \<ge> 0 \<and> input \<le> 127"

definition is_ctl :: "int \<Rightarrow> bool" where
  "is_ctl input \<longleftrightarrow> (input \<ge> 0 \<and> input \<le> 31) \<or> input = 127"

definition is_tspecial :: "int \<Rightarrow> bool" where
  "is_tspecial input \<longleftrightarrow> input \<in> set (map char_int
     [CHR ''('', CHR '')'', CHR ''<'', CHR ''@'', CHR '','', CHR '';'', CHR '':'', CHR 0x5C, CHR 0x22,
      CHR ''/'', CHR ''['', CHR '']'', CHR ''?'', CHR ''='', CHR ''{'', CHR ''}'', SP, HT])"

definition is_digit :: "int \<Rightarrow> bool" where
  "is_digit input \<longleftrightarrow> input \<ge> char_int (CHR ''0'') \<and> input \<le> char_int (CHR ''9'')"

definition is_hex :: "int \<Rightarrow> bool" where
  "is_hex input \<longleftrightarrow> is_digit input
     \<or> (input \<ge> char_int (CHR ''a'') \<and> input \<le> char_int (CHR ''f''))
     \<or> (input \<ge> char_int (CHR ''A'') \<and> input \<le> char_int (CHR ''F''))"

text \<open>\<open>hex_value\<close> throws \<open>std::domain_error\<close> (here \<open>None\<close>) for anything else.\<close>

definition hex_value :: "char \<Rightarrow> int option" where
  "hex_value c =
     (if is_digit (char_int c) then Some (char_int c - char_int (CHR ''0''))
      else if char_int c \<ge> char_int (CHR ''a'') \<and> char_int c \<le> char_int (CHR ''f'')
        then Some (char_int c - char_int (CHR ''a'') + 10)
      else if char_int c \<ge> char_int (CHR ''A'') \<and> char_int c \<le> char_int (CHR ''F'')
        then Some (char_int c - char_int (CHR ''A'') + 10)
      else None)"

section \<open>States\<close>

datatype ParsePhase = Start | ReceivedMessageLine | ReceivedHeaders | ReceivedBody | ReceivedFullMessage

datatype State = Incomplete | Valid | Invalid

datatype ParserState =
    method_start | s_method | s_uri
  | http_version_h | http_version_t1 | http_version_t2 | http_version_p | http_version_slash
  | http_version_major_start | http_version_major | http_version_minor_start | http_version_minor
  | newline_1
  | response_start | response_http_t1 | response_http_t2 | response_http_p | response_http_slash
  | response_major_version_start | response_major_version
  | response_minor_version_start | response_minor_version
  | response_status_code_start | response_status_code
  | response_status_message_start | response_status_message | response_newline
  | header_line_start | header_lws | header_name | header_space | header_value | newline_2 | newline_3
  | chunk_length_start | chunk_length | chunk_extension | chunk_length_newline
  | s_chunk | chunk_trailing_newline
  | chunk_trailing_header_line_start | chunk_trailing_header_lws | chunk_trailing_header_name
  | chunk_trailing_header_space | chunk_trailing_header_value | chunk_terminating_newline
  | fixed_length_entity

text \<open>The groups the enumeration is commented into.\<close>

datatype state_group = RequestLineGroup | StatusLineGroup | HeaderGroup | BlankLineGroup | EntityGroup

fun group_of :: "ParserState \<Rightarrow> state_group" where
  "group_of method_start = RequestLineGroup"
| "group_of s_method = RequestLineGroup"
| "group_of s_uri = RequestLineGroup"
| "group_of http_version_h = RequestLineGroup"
| "group_of http_version_t1 = RequestLineGroup"
| "group_of http_version_t2 = RequestLineGroup"
| "group_of http_version_p = RequestLineGroup"
| "group_of http_version_slash = RequestLineGroup"
| "group_of http_version_major_start = RequestLineGroup"
| "group_of http_version_major = RequestLineGroup"
| "group_of http_version_minor_start = RequestLineGroup"
| "group_of http_version_minor = RequestLineGroup"
| "group_of newline_1 = RequestLineGroup"
| "group_of response_start = StatusLineGroup"
| "group_of response_http_t1 = StatusLineGroup"
| "group_of response_http_t2 = StatusLineGroup"
| "group_of response_http_p = StatusLineGroup"
| "group_of response_http_slash = StatusLineGroup"
| "group_of response_major_version_start = StatusLineGroup"
| "group_of response_major_version = StatusLineGroup"
| "group_of response_minor_version_start = StatusLineGroup"
| "group_of response_minor_version = StatusLineGroup"
| "group_of response_status_code_start = StatusLineGroup"
| "group_of response_status_code = StatusLineGroup"
| "group_of response_status_message_start = StatusLineGroup"
| "group_of response_status_message = StatusLineGroup"
| "group_of response_newline = StatusLineGroup"
| "group_of header_line_start = HeaderGroup"
| "group_of header_lws = HeaderGroup"
| "group_of header_name = HeaderGroup"
| "group_of header_space = HeaderGroup"
| "group_of header_value = HeaderGroup"
| "group_of newline_2 = HeaderGroup"
| "group_of newline_3 = BlankLineGroup"
| "group_of _ = EntityGroup"

record HttpMessageParser =
  p_state :: ParserState
  p_remaining :: "64 word"
  p_buffer :: bytes
  p_value_buffer :: bytes

definition HttpMessageParser_new :: HttpMessageParser where
  "HttpMessageParser_new =
     \<lparr>p_state = method_start, p_remaining = 0, p_buffer = [], p_value_buffer = []\<rparr>"

definition resetForRequest :: "HttpMessageParser \<Rightarrow> HttpMessageParser" where
  "resetForRequest p = p\<lparr>p_state := method_start, p_remaining := 0, p_buffer := [], p_value_buffer := []\<rparr>"

definition resetForResponse :: "HttpMessageParser \<Rightarrow> HttpMessageParser" where
  "resetForResponse p = p\<lparr>p_state := response_start, p_remaining := 0, p_buffer := [], p_value_buffer := []\<rparr>"

definition transition_to_state :: "ParserState \<Rightarrow> HttpMessageParser \<Rightarrow> HttpMessageParser" where
  "transition_to_state newState p = p\<lparr>p_state := newState\<rparr>"

definition get_phase_for_state_transition :: "ParsePhase \<Rightarrow> ParserState \<Rightarrow> ParserState \<Rightarrow> ParsePhase" where
  "get_phase_for_state_transition currentPhase oldState newState =
     (if oldState = newState then currentPhase
      else if newState = header_line_start \<and> currentPhase = Start then ReceivedMessageLine
      else if newState \<in> {chunk_length_start, fixed_length_entity} \<and> currentPhase = ReceivedMessageLine
        then ReceivedHeaders
      else currentPhase)"

section \<open>consume\<close>

record cfg =
  parser :: HttpMessageParser
  message :: HttpMessage
  phase :: "ParsePhase option"

type_synonym verdict = "(State \<times> cfg) outcome"

lemma is_hex_hex_value: "is_hex (char_int c) \<Longrightarrow> \<exists>d. hex_value c = Some d \<and> 0 \<le> d \<and> d < 16"
  by (auto simp: is_hex_def hex_value_def is_digit_def char_int_def)

text \<open>The macro \<open>TRANSIT\<close>: the phase is computed from the state being left.\<close>

definition TRANSIT :: "ParserState \<Rightarrow> cfg \<Rightarrow> cfg" where
  "TRANSIT x k = k\<lparr>
     phase := map_option (\<lambda>ph. get_phase_for_state_transition ph (p_state (parser k)) x) (phase k),
     parser := transition_to_state x (parser k)\<rparr>"

abbreviation invalid :: "cfg \<Rightarrow> verdict" where
  "invalid k \<equiv> Inr (Invalid, k)"

abbreviation incomplete :: "cfg \<Rightarrow> verdict" where
  "incomplete k \<equiv> Inr (Incomplete, k)"

definition bad_token :: "char \<Rightarrow> bool" where
  "bad_token c \<longleftrightarrow> \<not> is_char (char_int c) \<or> is_ctl (char_int c) \<or> is_tspecial (char_int c)"

definition digit :: "char \<Rightarrow> int" where
  "digit c = char_int c - char_int (CHR ''0'')"

text \<open>A state that expects one byte and moves on.\<close>

definition expect :: "char \<Rightarrow> ParserState \<Rightarrow> cfg \<Rightarrow> char \<Rightarrow> verdict" where
  "expect c x k input = (if input = c then incomplete (TRANSIT x k) else invalid k)"

text \<open>One more digit of a version or status number held in an \<open>int\<close>.\<close>

definition more_digits :: "int \<Rightarrow> (int \<Rightarrow> cfg \<Rightarrow> cfg) \<Rightarrow> cfg \<Rightarrow> char \<Rightarrow> verdict" where
  "more_digits v store k input =
     (case int32 (v * 10 + digit input) of Inl e \<Rightarrow> Inl e | Inr v' \<Rightarrow> incomplete (store v' k))"

abbreviation store_major :: "int \<Rightarrow> cfg \<Rightarrow> cfg" where
  "store_major v \<equiv> message_update (msg_major_version_update (\<lambda>_. v))"

abbreviation store_minor :: "int \<Rightarrow> cfg \<Rightarrow> cfg" where
  "store_minor v \<equiv> message_update (msg_minor_version_update (\<lambda>_. v))"

abbreviation store_status :: "int \<Rightarrow> cfg \<Rightarrow> cfg" where
  "store_status v \<equiv> message_update (msg_status_code_update (\<lambda>_. v))"

abbreviation push_buffer :: "char \<Rightarrow> cfg \<Rightarrow> cfg" where
  "push_buffer c \<equiv> parser_update (p_buffer_update (\<lambda>b. b @ [c]))"

abbreviation clear_buffer :: "cfg \<Rightarrow> cfg" where
  "clear_buffer \<equiv> parser_update (p_buffer_update (\<lambda>_. []))"

abbreviation push_value_buffer :: "char \<Rightarrow> cfg \<Rightarrow> cfg" where
  "push_value_buffer c \<equiv> parser_update (p_value_buffer_update (\<lambda>b. b @ [c]))"

abbreviation clear_value_buffer :: "cfg \<Rightarrow> cfg" where
  "clear_value_buffer \<equiv> parser_update (p_value_buffer_update (\<lambda>_. []))"

abbreviation push_body :: "char \<Rightarrow> cfg \<Rightarrow> cfg" where
  "push_body c \<equiv> message_update (msg_body_update (\<lambda>b. b @ [c]))"

abbreviation clear_body :: "cfg \<Rightarrow> cfg" where
  "clear_body \<equiv> message_update (msg_body_update (\<lambda>_. []))"

abbreviation set_remaining :: "64 word \<Rightarrow> cfg \<Rightarrow> cfg" where
  "set_remaining n \<equiv> parser_update (p_remaining_update (\<lambda>_. n))"

fun consume_request_line :: "ParserState \<Rightarrow> cfg \<Rightarrow> char \<Rightarrow> verdict" where
  "consume_request_line method_start k input =
     (if bad_token input then invalid k
      else incomplete (message_update (msg_method_update (\<lambda>s. s @ [qch input])) (TRANSIT s_method k)))"
| "consume_request_line s_method k input =
     (if input = SP then incomplete (TRANSIT s_uri k)
      else if bad_token input then invalid k
      else incomplete (message_update (msg_method_update (\<lambda>s. s @ [qch input])) k))"
| "consume_request_line s_uri k input =
     (if input = SP then incomplete (TRANSIT http_version_h k)
      else if is_ctl (char_int input) then invalid k
      else incomplete (message_update (msg_uri_update (\<lambda>s. s @ [qch input])) k))"
| "consume_request_line http_version_h k input = expect (CHR ''H'') http_version_t1 k input"
| "consume_request_line http_version_t1 k input = expect (CHR ''T'') http_version_t2 k input"
| "consume_request_line http_version_t2 k input = expect (CHR ''T'') http_version_p k input"
| "consume_request_line http_version_p k input = expect (CHR ''P'') http_version_slash k input"
| "consume_request_line http_version_slash k input =
     (if input = CHR ''/'' then
        incomplete (store_minor 0 (store_major 0 (TRANSIT http_version_major_start k)))
      else invalid k)"
| "consume_request_line http_version_major_start k input =
     (if is_digit (char_int input) then
        incomplete (store_major (digit input) (TRANSIT http_version_major k))
      else invalid k)"
| "consume_request_line http_version_major k input =
     (if input = CHR ''.'' then incomplete (TRANSIT http_version_minor_start k)
      else if is_digit (char_int input) then
        more_digits (msg_major_version (message k)) store_major k input
      else invalid k)"
| "consume_request_line http_version_minor_start k input =
     (if is_digit (char_int input) then
        incomplete (store_minor (digit input) (TRANSIT http_version_minor k))
      else invalid k)"
| "consume_request_line http_version_minor k input =
     (if input = CR then incomplete (TRANSIT newline_1 k)
      else if is_digit (char_int input) then
        more_digits (msg_minor_version (message k)) store_minor k input
      else invalid k)"
| "consume_request_line newline_1 k input = expect LF header_line_start k input"
| "consume_request_line _ k input = invalid k"

fun consume_status_line :: "qt \<Rightarrow> ParserState \<Rightarrow> cfg \<Rightarrow> char \<Rightarrow> verdict" where
  "consume_status_line Q response_start k input = expect (CHR ''H'') response_http_t1 k input"
| "consume_status_line Q response_http_t1 k input = expect (CHR ''T'') response_http_t2 k input"
| "consume_status_line Q response_http_t2 k input = expect (CHR ''T'') response_http_p k input"
| "consume_status_line Q response_http_p k input = expect (CHR ''P'') response_http_slash k input"
| "consume_status_line Q response_http_slash k input =
     expect (CHR ''/'') response_major_version_start k input"
| "consume_status_line Q response_major_version_start k input =
     (if is_digit (char_int input) then
        incomplete (store_major (digit input) (TRANSIT response_major_version k))
      else invalid k)"
| "consume_status_line Q response_major_version k input =
     (if input = CHR ''.'' then incomplete (TRANSIT response_minor_version_start k)
      else if is_digit (char_int input) then
        more_digits (msg_major_version (message k)) store_major k input
      else invalid k)"
| "consume_status_line Q response_minor_version_start k input =
     (if is_digit (char_int input) then
        incomplete (store_minor (digit input) (TRANSIT response_minor_version k))
      else invalid k)"
| "consume_status_line Q response_minor_version k input =
     (if input = SP then incomplete (TRANSIT response_status_code_start k)
      else if is_digit (char_int input) then
        more_digits (msg_minor_version (message k)) store_minor k input
      else invalid k)"
| "consume_status_line Q response_status_code_start k input =
     (if is_digit (char_int input) then
        incomplete (store_status (digit input) (TRANSIT response_status_code k))
      else invalid k)"
| "consume_status_line Q response_status_code k input =
     (if input = SP then incomplete (TRANSIT response_status_message_start k)
      else if is_digit (char_int input) then
        more_digits (msg_status_code (message k)) store_status k input
      else invalid k)"
| "consume_status_line Q response_status_message_start k input =
     (if is_char (char_int input) then
        incomplete (push_buffer input (clear_buffer (TRANSIT response_status_message k)))
      else invalid k)"
| "consume_status_line Q response_status_message k input =
     (if input = CR then
        incomplete (message_update (msg_status_message_update (\<lambda>_. fromUtf8 Q (p_buffer (parser k))))
          (TRANSIT response_newline k))
      else if is_char (char_int input) \<or> input = SP then incomplete (push_buffer input k)
      else invalid k)"
| "consume_status_line Q response_newline k input = expect LF header_line_start k input"
| "consume_status_line Q _ k input = invalid k"

fun consume_header :: "qt \<Rightarrow> ParserState \<Rightarrow> cfg \<Rightarrow> char \<Rightarrow> verdict" where
  "consume_header Q header_line_start k input =
     (if input = CR then incomplete (TRANSIT newline_3 k)
      else if \<not> Headers_empty (msg_headers (message k)) \<and> (input = SP \<or> input = HT) then
        incomplete (TRANSIT header_lws k)
      else if bad_token input then invalid k
      else incomplete (push_buffer input (clear_buffer (TRANSIT header_name k))))"
| "consume_header Q header_lws k input =
     (if input = CR then incomplete (TRANSIT newline_2 k)
      else if input = SP \<or> input = HT then incomplete k
      else if is_ctl (char_int input) then invalid k
      else incomplete (TRANSIT header_value k))"
| "consume_header Q header_name k input =
     (if input = CHR '':'' then incomplete (TRANSIT header_space k)
      else if bad_token input then invalid k
      else incomplete (push_buffer input k))"
| "consume_header Q header_space k input =
     (if input = SP then incomplete (clear_value_buffer (TRANSIT header_value k)) else invalid k)"
| "consume_header Q header_value k input =
     (if input = CR then
        (let k = TRANSIT newline_2 k;
             name = latin1 (p_buffer (parser k));
             value = latin1 (p_value_buffer (parser k))
         in incomplete (clear_value_buffer (clear_buffer
              (message_update (msg_headers_update (insert Q name value)) k))))
      else if \<not> is_ctl (char_int input) then incomplete (push_value_buffer input k)
      else invalid k)"
| "consume_header Q newline_2 k input = expect LF header_line_start k input"
| "consume_header Q _ k input = invalid k"

text \<open>
  The end of the headers: the framing of the entity. A transfer coding list that names \<open>chunked\<close>
  wins; otherwise the first value of \<open>Content-Length\<close> that \<open>find_by_name\<close> returns decides; otherwise
  there is no entity. Memory for an entity of known length is reserved at once, and a reservation that
  fails throws: \<open>parse\<close> has no handler, nor has the thread that runs it.
\<close>

definition is_chunked :: "qt \<Rightarrow> qstring \<Rightarrow> bool" where
  "is_chunked Q value =
     list_ex (\<lambda>token. trimmed Q token = latin1 ''chunked'') (split_on (qch (CHR '','')) value)"

definition consume_blank_line :: "qt \<Rightarrow> cfg \<Rightarrow> char \<Rightarrow> verdict" where
  "consume_blank_line Q k input =
     (if input = LF then
        (if list_ex (is_chunked Q) (find_by_name Q (msg_headers (message k)) (latin1 ''Transfer-Encoding''))
         then incomplete (clear_body (TRANSIT chunk_length_start k))
         else case find_by_name Q (msg_headers (message k)) (latin1 ''Content-Length'') of
             [] \<Rightarrow> Inr (Valid, k)
           | value # _ \<Rightarrow>
               (case toULongLong Q value of
                  None \<Rightarrow> invalid k
                | Some len \<Rightarrow>
                    if len = 0 then Inr (Valid, k)
                    else if \<not> canReserve Q (unat len) then Inl BadAlloc
                    else incomplete (clear_body (set_remaining len (TRANSIT fixed_length_entity k)))))
      else invalid k)"

fun consume_entity :: "ParserState \<Rightarrow> cfg \<Rightarrow> char \<Rightarrow> verdict" where
  "consume_entity chunk_length_start k input =
     (if is_hex (char_int input) then
        (case hex_value input of
           None \<Rightarrow> Inl DomainError
         | Some d \<Rightarrow> incomplete (set_remaining (of_int d) (TRANSIT chunk_length k)))
      else invalid k)"
| "consume_entity chunk_length k input =
     (if input = CR then incomplete (TRANSIT chunk_length_newline k)
      else if is_hex (char_int input) then
        (case hex_value input of
           None \<Rightarrow> Inl DomainError
         | Some d \<Rightarrow> incomplete (set_remaining (p_remaining (parser k) * 16 + of_int d) k))
      else if input = CHR '';'' then Inl (QFatal ''extensions not implemented'')
      else invalid k)"
| "consume_entity chunk_length_newline k input =
     (if input = LF then
        (if p_remaining (parser k) > 0 then incomplete (TRANSIT s_chunk k)
         else incomplete (TRANSIT chunk_trailing_header_line_start k))
      else invalid k)"
| "consume_entity s_chunk k input =
     (if p_remaining (parser k) = 0 then
        (if input = CR then incomplete (TRANSIT chunk_trailing_newline k) else invalid k)
      else incomplete (set_remaining (p_remaining (parser k) - 1) (push_body input k)))"
| "consume_entity chunk_trailing_newline k input = expect LF chunk_length_start k input"
| "consume_entity chunk_trailing_header_line_start k input =
     (if input = CR then incomplete (TRANSIT chunk_terminating_newline k)
      else Inl (QFatal ''Trailing headers not implemented''))"
| "consume_entity chunk_terminating_newline k input =
     (if input = LF then Inr (Valid, k) else invalid k)"
| "consume_entity fixed_length_entity k input =
     (let k = set_remaining (p_remaining (parser k) - 1) (push_body input k)
      in if p_remaining (parser k) = 0 then Inr (Valid, k) else incomplete k)"
| "consume_entity _ k input = Inl (QFatal ''Unimplemented state'')"

definition consume :: "qt \<Rightarrow> cfg \<Rightarrow> char \<Rightarrow> verdict" where
  "consume Q k input =
     (case group_of (p_state (parser k)) of
        RequestLineGroup \<Rightarrow> consume_request_line (p_state (parser k)) k input
      | StatusLineGroup \<Rightarrow> consume_status_line Q (p_state (parser k)) k input
      | HeaderGroup \<Rightarrow> consume_header Q (p_state (parser k)) k input
      | BlankLineGroup \<Rightarrow> consume_blank_line Q k input
      | EntityGroup \<Rightarrow> consume_entity (p_state (parser k)) k input)"

section \<open>parse\<close>

text \<open>
  The loop of \<open>parse\<close>: it stops at the first byte that completes or invalidates the message, and
  pauses after a byte that moved the phase away from \<open>startingPhase\<close>. The third component is the
  input from the caller's iterator \<open>begin\<close> on.
\<close>

fun parse_loop :: "qt \<Rightarrow> ParsePhase \<Rightarrow> cfg \<Rightarrow> bytes \<Rightarrow> (State \<times> cfg \<times> bytes) outcome" where
  "parse_loop Q startingPhase k [] = Inr (Incomplete, k, [])"
| "parse_loop Q startingPhase k (c # cs) =
     (case consume Q k c of
        Inl e \<Rightarrow> Inl e
      | Inr (state, k') \<Rightarrow>
          if state \<noteq> Incomplete then
            (if state = Valid \<and> phase k' \<noteq> None
             then Inr (state, k'\<lparr>phase := Some ReceivedFullMessage\<rparr>, cs)
             else Inr (state, k', cs))
          else if phase k' \<noteq> None \<and> phase k' \<noteq> Some startingPhase then Inr (Incomplete, k', cs)
          else parse_loop Q startingPhase k' cs)"

definition parse :: "qt \<Rightarrow> cfg \<Rightarrow> bytes \<Rightarrow> (State \<times> cfg \<times> bytes) outcome" where
  "parse Q k input = parse_loop Q (case phase k of None \<Rightarrow> Start | Some ph \<Rightarrow> ph) k input"

end
