(* ===== verification/ParserLemmas.thy ===== *)
theory ParserLemmas
  imports HttpMessageParser
begin

text \<open>
  What holds of the parser for every input: the phase is an observer (erasing it does not change what
  is parsed), input may be split anywhere, pausing consumes input, the states that have no case in
  the switch are never entered, and the only abnormal ends are the ones the source names.
\<close>

section \<open>The phase is only observed\<close>

definition erase :: "cfg \<Rightarrow> cfg" where
  "erase k = k\<lparr>phase := None\<rparr>"

definition erase_verdict :: "verdict \<Rightarrow> verdict" where
  "erase_verdict = map_sum id (map_prod id erase)"

lemma erase_simps [transit]:
  "parser (erase k) = parser k"
  "message (erase k) = message k"
  "phase (erase k) = None"
  "erase (erase k) = erase k"
  "erase (TRANSIT x k) = TRANSIT x (erase k)"
  "erase (message_update f k) = message_update f (erase k)"
  "erase (parser_update g k) = parser_update g (erase k)"
  "erase (k\<lparr>phase := p\<rparr>) = erase k"
  by (simp_all add: erase_def TRANSIT_def)

lemma TRANSIT_simps [transit]:
  "p_state (parser (TRANSIT x k)) = x"
  "p_remaining (parser (TRANSIT x k)) = p_remaining (parser k)"
  "p_buffer (parser (TRANSIT x k)) = p_buffer (parser k)"
  "p_value_buffer (parser (TRANSIT x k)) = p_value_buffer (parser k)"
  "message (TRANSIT x k) = message k"
  "(phase (TRANSIT x k) = None) = (phase k = None)"
  by (simp_all add: TRANSIT_def transition_to_state_def)

lemma erase_verdict_simps [simp]:
  "erase_verdict (Inl e) = Inl e"
  "erase_verdict (Inr (s, k)) = Inr (s, erase k)"
  by (simp_all add: erase_verdict_def)

lemma erase_expect: "expect c x (erase k) i = erase_verdict (expect c x k i)"
  by (simp add: expect_def transit)

lemma erase_more_digits:
  "(\<And>v k. erase (store v k) = store v (erase k)) \<Longrightarrow>
   more_digits v store (erase k) i = erase_verdict (more_digits v store k i)"
  by (simp add: more_digits_def split: sum.splits)

lemmas erase_rules = transit erase_expect erase_more_digits

lemma erase_request_line: "consume_request_line s (erase k) i = erase_verdict (consume_request_line s k i)"
  by (cases s) (simp_all add: erase_rules)

lemma erase_status_line: "consume_status_line Q s (erase k) i = erase_verdict (consume_status_line Q s k i)"
  by (cases s) (simp_all add: erase_rules)

lemma erase_header: "consume_header Q s (erase k) i = erase_verdict (consume_header Q s k i)"
  by (cases s) (simp_all add: erase_rules Let_def)

lemma erase_blank_line: "consume_blank_line Q (erase k) i = erase_verdict (consume_blank_line Q k i)"
  by (simp add: consume_blank_line_def erase_rules split: list.split option.split)

lemma erase_entity: "consume_entity s (erase k) i = erase_verdict (consume_entity s k i)"
  by (cases s) (simp_all add: erase_rules Let_def split: option.split)

lemma consume_erase: "consume Q (erase k) i = erase_verdict (consume Q k i)"
  by (simp add: consume_def transit erase_request_line erase_status_line erase_header
      erase_blank_line erase_entity split: state_group.split)

text \<open>How one byte may move the phase: not at all, or to its successor at the two reporting points.\<close>

definition phase_step :: "ParsePhase option \<Rightarrow> ParsePhase option \<Rightarrow> bool" where
  "phase_step p q \<longleftrightarrow> q = p \<or> (p = Some Start \<and> q = Some ReceivedMessageLine)
     \<or> (p = Some ReceivedMessageLine \<and> q = Some ReceivedHeaders)"

lemma phase_step_refl [simp]: "phase_step p p"
  by (simp add: phase_step_def)

lemma phase_step_None [simp]: "phase_step None q = (q = None)"
  by (auto simp: phase_step_def)

lemma phase_step_TRANSIT [simp]: "phase_step (phase k) (phase (TRANSIT x k))"
  by (cases "phase k") (auto simp: phase_step_def TRANSIT_def get_phase_for_state_transition_def)

lemma phase_updates [simp]:
  "phase (message_update f k) = phase k"
  "phase (parser_update g k) = phase k"
  by simp_all

lemma step_expect: "expect c x k i = Inr (s, k') \<Longrightarrow> phase_step (phase k) (phase k')"
  by (auto simp: expect_def split: if_splits)

lemma step_more_digits:
  "(\<And>v k. phase (store v k) = phase k) \<Longrightarrow>
   more_digits v store k i = Inr (s, k') \<Longrightarrow> phase_step (phase k) (phase k')"
  by (auto simp: more_digits_def split: sum.splits)

lemmas step_rules = step_expect step_more_digits

lemma step_request_line:
  "consume_request_line s k i = Inr (st, k') \<Longrightarrow> phase_step (phase k) (phase k')"
  by (cases s) (auto dest: step_expect elim!: step_more_digits [rotated] split: if_splits)

lemma step_status_line:
  "consume_status_line Q s k i = Inr (st, k') \<Longrightarrow> phase_step (phase k) (phase k')"
  by (cases s) (auto dest: step_expect elim!: step_more_digits [rotated] split: if_splits)

lemma step_header:
  "consume_header Q s k i = Inr (st, k') \<Longrightarrow> phase_step (phase k) (phase k')"
  by (cases s) (auto dest: step_expect simp: Let_def split: if_splits)

lemma step_blank_line:
  "consume_blank_line Q k i = Inr (st, k') \<Longrightarrow> phase_step (phase k) (phase k')"
  by (auto simp: consume_blank_line_def split: if_splits list.splits option.splits)

lemma step_entity:
  "consume_entity s k i = Inr (st, k') \<Longrightarrow> phase_step (phase k) (phase k')"
  by (cases s) (auto dest: step_expect simp: Let_def split: if_splits option.splits)

lemma consume_phase: "consume Q k i = Inr (st, k') \<Longrightarrow> phase_step (phase k) (phase k')"
  by (auto simp: consume_def split: state_group.splits
      dest: step_request_line step_status_line step_header step_blank_line step_entity)

section \<open>Unpaused parsing\<close>

text \<open>\<open>parse\<close> with the null pointer: no phase, no pause.\<close>

lemma parse_loop_erase_cong:
  "phase k = None \<Longrightarrow> parse_loop Q ph k input = parse_loop Q ph' k input"
proof (induction input arbitrary: k)
  case (Cons c cs)
  then show ?case
    by (auto split: sum.splits prod.splits dest!: consume_phase)
qed simp

definition feed :: "qt \<Rightarrow> cfg \<Rightarrow> bytes \<Rightarrow> (State \<times> cfg \<times> bytes) outcome" where
  "feed Q k input = parse Q (erase k) input"

lemma feed_loop: "feed Q k input = parse_loop Q ph (erase k) input"
  unfolding feed_def parse_def by (rule parse_loop_erase_cong) (simp add: transit)

lemma feed_Nil [simp]: "feed Q k [] = Inr (Incomplete, erase k, [])"
  by (simp add: feed_loop [where ph = Start])

lemma consume_erased_phase: "consume Q (erase k) c = Inr (st, k') \<Longrightarrow> erase k' = k'"
  using consume_phase [of Q "erase k" c st k'] by (cases k') (simp add: erase_def)

lemma feed_Cons:
  "feed Q k (c # cs) =
     (case consume Q k c of
        Inl e \<Rightarrow> Inl e
      | Inr (st, k') \<Rightarrow> if st \<noteq> Incomplete then Inr (st, erase k', cs) else feed Q k' cs)"
proof -
  have *: "consume Q (erase k) c = erase_verdict (consume Q k c)"
    by (rule consume_erase)
  show ?thesis
    by (cases "consume Q k c") (auto simp: feed_loop [where ph = Start] * transit)
qed

lemma feed_erase [simp]: "feed Q (erase k) input = feed Q k input"
  by (simp add: feed_def transit)

text \<open>Input may be split anywhere.\<close>

lemma feed_append:
  "feed Q k (xs @ ys) =
     (case feed Q k xs of
        Inl e \<Rightarrow> Inl e
      | Inr (st, k', rest) \<Rightarrow> if st = Incomplete then feed Q k' ys else Inr (st, k', rest @ ys))"
proof (induction xs arbitrary: k)
  case (Cons c cs)
  then show ?case
    by (auto simp: feed_Cons split: sum.splits)
qed simp

lemma feed_incomplete_rest: "feed Q k xs = Inr (Incomplete, k', rest) \<Longrightarrow> rest = []"
  by (induction xs arbitrary: k) (auto simp: feed_Cons split: sum.splits if_splits)

lemma feed_rest_suffix: "feed Q k xs = Inr (st, k', rest) \<Longrightarrow> \<exists>used. xs = used @ rest"
proof (induction xs arbitrary: k)
  case (Cons c cs)
  then show ?case
    by (fastforce simp: feed_Cons Cons_eq_append_conv split: sum.splits if_splits)
qed simp

lemma feed_erased: "feed Q k xs = Inr (st, k', rest) \<Longrightarrow> erase k' = k'"
  by (induction xs arbitrary: k) (auto simp: feed_Cons transit split: sum.splits if_splits)

section \<open>Paused parsing\<close>

text \<open>
  One paused call, in terms of the unpaused one: either it stops where the unpaused run stops, or it
  stops earlier, at a byte that moved the phase, and the unpaused run goes on from there.
\<close>

lemma parse_loop_paused:
  "parse_loop Q ph k input = Inr (st, k', rest) \<Longrightarrow>
   (st \<noteq> Incomplete \<or> rest = [] \<longrightarrow> feed Q k input = Inr (st, erase k', rest)) \<and>
   (st = Incomplete \<longrightarrow> feed Q k input = feed Q k' rest) \<and>
   (\<exists>used. input = used @ rest) \<and>
   (st = Incomplete \<and> rest \<noteq> [] \<longrightarrow> phase k' \<noteq> Some ph \<and> phase k' \<noteq> None)"
proof (induction input arbitrary: k)
  case (Cons c cs)
  from Cons.prems obtain s j where c: "consume Q k c = Inr (s, j)"
    by (auto split: sum.splits)
  show ?case
  proof (cases "s = Incomplete")
    case False
    with Cons.prems c show ?thesis
      by (auto simp: feed_Cons transit split: if_splits)
  next
    case inc: True
    show ?thesis
    proof (cases "phase j \<noteq> None \<and> phase j \<noteq> Some ph")
      case True
      with Cons.prems c inc show ?thesis
        by (auto simp: feed_Cons transit)
    next
      case False
      with Cons.prems c inc have "parse_loop Q ph j cs = Inr (st, k', rest)"
        by (auto split: if_splits)
      from Cons.IH [OF this] c inc show ?thesis
        by (auto simp: feed_Cons intro: exI [of _ "c # u" for u])
    qed
  qed
qed auto

lemma parse_loop_Inl: "parse_loop Q ph k input = Inl e \<Longrightarrow> feed Q k input = Inl e"
  by (induction input arbitrary: k) (auto simp: feed_Cons split: sum.splits if_splits)

lemma parse_loop_consumes:
  "parse_loop Q ph k input = Inr (Incomplete, k', rest) \<Longrightarrow> phase k' \<noteq> phase k \<Longrightarrow>
   length rest < length input"
proof (induction input arbitrary: k)
  case (Cons c cs)
  then obtain j where c: "consume Q k c = Inr (Incomplete, j)"
    by (auto split: sum.splits if_splits)
  show ?case
  proof (cases "phase j \<noteq> None \<and> phase j \<noteq> Some ph")
    case False
    with Cons.prems c have loop: "parse_loop Q ph j cs = Inr (Incomplete, k', rest)"
      by (auto split: if_splits)
    from parse_loop_paused [OF this] show ?thesis by auto
  qed (use Cons.prems c in auto)
qed simp

lemma parse_consumes:
  "parse Q k input = Inr (Incomplete, k', rest) \<Longrightarrow> phase k' \<noteq> phase k \<Longrightarrow> length rest < length input"
  unfolding parse_def by (rule parse_loop_consumes)

lemma parse_stops:
  "parse Q k input = Inr (st, k', rest) \<Longrightarrow> st \<noteq> Incomplete \<or> phase k' = phase k \<Longrightarrow>
   feed Q k input = Inr (st, erase k', rest)"
proof -
  assume p: "parse Q k input = Inr (st, k', rest)" and s: "st \<noteq> Incomplete \<or> phase k' = phase k"
  note paused = parse_loop_paused [OF p [unfolded parse_def]]
  show ?thesis
  proof (cases "st \<noteq> Incomplete \<or> rest = []")
    case False
    with s paused have "phase k' = phase k" "phase k' \<noteq> None"
      and "phase k' \<noteq> Some (case phase k of None \<Rightarrow> Start | Some ph \<Rightarrow> ph)" by auto
    then show ?thesis by (auto split: option.splits)
  qed (use paused in blast)
qed

lemma parse_resumes:
  "parse Q k input = Inr (Incomplete, k', rest) \<Longrightarrow> feed Q k input = feed Q k' rest"
  unfolding parse_def using parse_loop_paused by blast

lemma parse_Inl: "parse Q k input = Inl e \<Longrightarrow> feed Q k input = Inl e"
  unfolding parse_def by (rule parse_loop_Inl)

section \<open>States that are never entered, and the abnormal ends\<close>

definition has_case :: "ParserState \<Rightarrow> bool" where
  "has_case s \<longleftrightarrow> s \<notin> {chunk_extension, chunk_trailing_header_lws, chunk_trailing_header_name,
     chunk_trailing_header_space, chunk_trailing_header_value}"

definition parser_inv :: "cfg \<Rightarrow> bool" where
  "parser_inv k \<longleftrightarrow> has_case (p_state (parser k)) \<and>
     (p_state (parser k) = fixed_length_entity \<longrightarrow> p_remaining (parser k) \<noteq> 0)"

lemma is_char_ascii: "is_char (char_int c) \<longleftrightarrow> ascii c"
  using of_char_lt [of c]
  by (auto simp: is_char_def char_int_def ascii_def simp del: nat_of_char_less_256 split: if_splits)

text \<open>A body is announced that there is no memory for.\<close>

definition too_long :: "qt \<Rightarrow> Headers \<Rightarrow> bool" where
  "too_long Q h \<longleftrightarrow> \<not> list_ex (is_chunked Q) (find_by_name Q h (latin1 ''Transfer-Encoding'')) \<and>
     (\<exists>value vs len. find_by_name Q h (latin1 ''Content-Length'') = value # vs \<and> toULongLong Q value = Some len \<and>
        len \<noteq> 0 \<and> \<not> canReserve Q (unat len))"

text \<open>The one-byte outcomes the source admits, by the state, the headers read so far and the byte.\<close>

definition expected_fatal :: "qt \<Rightarrow> ParserState \<Rightarrow> Headers \<Rightarrow> char \<Rightarrow> fatal \<Rightarrow> bool" where
  "expected_fatal Q s h c e \<longleftrightarrow>
     (e = BadAlloc \<and> s = newline_3 \<and> c = LF \<and> too_long Q h) \<or>
     (e = QFatal ''extensions not implemented'' \<and> s = chunk_length \<and> c = CHR '';'') \<or>
     (e = QFatal ''Trailing headers not implemented'' \<and> s = chunk_trailing_header_line_start \<and> c \<noteq> CR) \<or>
     (e = SignedOverflow \<and> is_digit (char_int c) \<and>
      s \<in> {http_version_major, http_version_minor, response_major_version, response_minor_version,
           response_status_code})"

lemma more_digits_Inl: "more_digits v store k i = Inl e \<Longrightarrow> e = SignedOverflow"
  by (auto simp: more_digits_def dest: int32_eq_Inl split: sum.splits)

lemma expect_not_Inl [simp]: "expect c x k i \<noteq> Inl e"
  by (simp add: expect_def)

lemma fatal_request_line: "consume_request_line s k i = Inl e \<Longrightarrow> expected_fatal Q s h i e"
  by (cases s) (auto simp: expected_fatal_def dest: more_digits_Inl split: if_splits)

lemma fatal_status_line: "consume_status_line Q s k i = Inl e \<Longrightarrow> expected_fatal Q s h i e"
  by (cases s) (auto simp: expected_fatal_def dest: more_digits_Inl split: if_splits)

lemma fatal_header: "consume_header Q s k i \<noteq> Inl e"
  by (cases s) (auto simp: Let_def)

lemma fatal_blank_line:
  "consume_blank_line Q k i = Inl e \<Longrightarrow> group_of s = BlankLineGroup \<Longrightarrow> expected_fatal Q s (msg_headers (message k)) i e"
  by (cases s) (auto simp: consume_blank_line_def expected_fatal_def too_long_def split: if_splits list.splits option.splits)

lemma fatal_entity:
  "consume_entity s k i = Inl e \<Longrightarrow> group_of s = EntityGroup \<Longrightarrow> has_case s \<Longrightarrow> expected_fatal Q s h i e"
  using is_hex_hex_value [of i]
  by (cases s) (auto simp: expected_fatal_def has_case_def Let_def split: if_splits option.splits)

lemma consume_fatal:
  "parser_inv k \<Longrightarrow> consume Q k c = Inl e \<Longrightarrow> expected_fatal Q (p_state (parser k)) (msg_headers (message k)) c e"
  by (auto simp: consume_def parser_inv_def fatal_header split: state_group.splits
      dest: fatal_request_line fatal_status_line fatal_entity fatal_blank_line)

lemma inv_TRANSIT [simp]:
  "parser_inv (TRANSIT x k) = (has_case x \<and> (x = fixed_length_entity \<longrightarrow> p_remaining (parser k) \<noteq> 0))"
  by (simp add: parser_inv_def transit)

lemma inv_updates [simp]:
  "parser_inv (message_update f k) = parser_inv k"
  "parser_inv (parser_update (p_buffer_update g) k) = parser_inv k"
  "parser_inv (parser_update (p_value_buffer_update g) k) = parser_inv k"
  "parser_inv (parser_update (p_buffer_update g \<circ> p_buffer_update h) k) = parser_inv k"
  "parser_inv (parser_update (p_value_buffer_update g \<circ> p_buffer_update h) k) = parser_inv k"
  by (simp_all add: parser_inv_def)

lemma inv_erase [simp]: "parser_inv (erase k) = parser_inv k"
  by (simp add: parser_inv_def transit)

lemma inv_expect: "expect c x k i = Inr (Incomplete, k') \<Longrightarrow> has_case x \<Longrightarrow> x \<noteq> fixed_length_entity \<Longrightarrow> parser_inv k'"
  by (auto simp: expect_def split: if_splits)

lemma inv_more_digits:
  "more_digits v store k i = Inr (st, k') \<Longrightarrow> (\<And>v. parser_inv (store v k)) \<Longrightarrow> parser_inv k'"
  by (auto simp: more_digits_def split: sum.splits)

lemma has_case_simps [simp]:
  "has_case s = (s \<noteq> chunk_extension \<and> s \<noteq> chunk_trailing_header_lws \<and> s \<noteq> chunk_trailing_header_name \<and>
     s \<noteq> chunk_trailing_header_space \<and> s \<noteq> chunk_trailing_header_value)"
  by (simp add: has_case_def)

lemma inv_request_line:
  "consume_request_line s k i = Inr (Incomplete, k') \<Longrightarrow> parser_inv k \<Longrightarrow> parser_inv k'"
  by (cases s) (auto dest: inv_expect inv_more_digits split: if_splits)

lemma inv_status_line:
  "consume_status_line Q s k i = Inr (Incomplete, k') \<Longrightarrow> parser_inv k \<Longrightarrow> parser_inv k'"
  by (cases s) (auto dest: inv_expect inv_more_digits split: if_splits)

lemma inv_header:
  "consume_header Q s k i = Inr (Incomplete, k') \<Longrightarrow> parser_inv k \<Longrightarrow> parser_inv k'"
  by (cases s) (auto dest: inv_expect simp: Let_def split: if_splits)

lemma inv_blank_line:
  "consume_blank_line Q k i = Inr (Incomplete, k') \<Longrightarrow> parser_inv k'"
  by (auto simp: consume_blank_line_def parser_inv_def transit split: if_splits list.splits option.splits)

lemma inv_entity:
  "consume_entity s k i = Inr (Incomplete, k') \<Longrightarrow> s = p_state (parser k) \<Longrightarrow> parser_inv k \<Longrightarrow> parser_inv k'"
  by (cases s) (auto dest: inv_expect simp: Let_def parser_inv_def transit split: if_splits option.splits)

lemma consume_inv: "consume Q k c = Inr (Incomplete, k') \<Longrightarrow> parser_inv k \<Longrightarrow> parser_inv k'"
  by (auto simp: consume_def split: state_group.splits
      dest: inv_request_line inv_status_line inv_header inv_blank_line inv_entity)

lemma feed_fatal:
  "feed Q k input = Inl e \<Longrightarrow> parser_inv k \<Longrightarrow>
   \<exists>used c rest j. input = used @ c # rest \<and> feed Q k used = Inr (Incomplete, j, []) \<and>
     expected_fatal Q (p_state (parser j)) (msg_headers (message j)) c e"
proof (induction input arbitrary: k)
  case (Cons c cs)
  show ?case
  proof (cases "consume Q k c")
    case (Inl e')
    with Cons.prems have "expected_fatal Q (p_state (parser (erase k))) (msg_headers (message (erase k))) c e"
      using consume_fatal by (auto simp: feed_Cons transit)
    then show ?thesis
      by (intro exI [of _ "[]"] exI [of _ c] exI [of _ cs] exI [of _ "erase k"]) simp
  next
    case (Inr r)
    with Cons.prems(1) obtain j where j: "consume Q k c = Inr (Incomplete, j)" "feed Q j cs = Inl e"
      by (cases r) (auto simp: feed_Cons split: if_splits)
    from Cons.IH [OF j(2) consume_inv [OF j(1) Cons.prems(2)]] obtain used d rest l where
      "cs = used @ d # rest" "feed Q j used = Inr (Incomplete, l, [])" "expected_fatal Q (p_state (parser l)) (msg_headers (message l)) d e"
      by blast
    with j(1) show ?thesis
      by (intro exI [of _ "c # used"] exI [of _ d] exI [of _ rest] exI [of _ l]) (simp add: feed_Cons)
  qed
qed simp

lemma feed_inv: "feed Q k input = Inr (Incomplete, k', rest) \<Longrightarrow> parser_inv k \<Longrightarrow> parser_inv k'"
proof (induction input arbitrary: k)
  case (Cons c cs)
  from Cons.prems(1) obtain j where j: "consume Q k c = Inr (Incomplete, j)" "feed Q j cs = Inr (Incomplete, k', rest)"
    by (auto simp: feed_Cons split: sum.splits if_splits)
  from Cons.IH [OF j(2) consume_inv [OF j(1) Cons.prems(2)]] show ?case .
qed auto

end
