(* ===== verification/ReadLoop.thy ===== *)
theory ReadLoop
  imports ParserLemmas
begin

text \<open>
  The loop around \<open>parse\<close> in \<open>Transaction::read_client_request\<close> and
  \<open>Transaction::read_remote_response\<close>: the parser is called again on the rest of the buffer as long
  as it reports \<open>Incomplete\<close> because the phase changed, and each new phase is passed to
  \<open>notify_phase_change\<close>. The loop returns those phases in order, with the last verdict.
\<close>

function (sequential) read_loop ::
  "qt \<Rightarrow> cfg \<Rightarrow> bytes \<Rightarrow> (ParsePhase option list \<times> State \<times> cfg \<times> bytes) outcome" where
  "read_loop Q k input =
     (case parse Q k input of
        Inl e \<Rightarrow> Inl e
      | Inr (state, k', rest) \<Rightarrow>
          if state = Incomplete \<and> phase k' \<noteq> phase k then
            (case read_loop Q k' rest of
               Inl e \<Rightarrow> Inl e
             | Inr (phs, r) \<Rightarrow> Inr (phase k' # phs, r))
          else Inr ([], state, k', rest))"
  by pat_completeness auto
termination
  by (relation "measure (\<lambda>(Q, k, input). length input)") (auto dest: parse_consumes)

declare read_loop.simps [simp del]

text \<open>The loop reads what one unpaused call reads.\<close>

lemma read_loop_feed:
  "(case read_loop Q k input of Inl e \<Rightarrow> Inl e | Inr (phs, st, k', rest) \<Rightarrow> Inr (st, erase k', rest)) =
   feed Q k input"
proof (induction Q k input rule: read_loop.induct)
  case (1 Q k input)
  show ?case
  proof (cases "parse Q k input")
    case (Inl e)
    then show ?thesis by (simp add: read_loop.simps [of Q k input] parse_Inl)
  next
    case (Inr r)
    obtain st k' rest where r: "r = (st, k', rest)" by (cases r)
    with Inr have p: "parse Q k input = Inr (st, k', rest)" by simp
    show ?thesis
    proof (cases "st = Incomplete \<and> phase k' \<noteq> phase k")
      case True
      with "1.IH" [OF p, of st "(k', rest)" k' rest] have
        "(case read_loop Q k' rest of Inl e \<Rightarrow> Inl e | Inr (phs, st, k', rest) \<Rightarrow> Inr (st, erase k', rest)) =
         feed Q k' rest" by simp
      moreover from True p have "feed Q k input = feed Q k' rest" by (blast intro: parse_resumes)
      ultimately show ?thesis using True p
        by (auto simp: read_loop.simps [of Q k input] split: sum.splits)
    next
      case False
      with p have "feed Q k input = Inr (st, erase k', rest)" by (blast intro: parse_stops)
      with False p show ?thesis by (auto simp: read_loop.simps [of Q k input])
    qed
  qed
qed

lemma read_loop_rest:
  "read_loop Q k input = Inr (phs, Incomplete, k', rest) \<Longrightarrow> rest = []"
  using read_loop_feed [of Q k input] by (auto dest: feed_incomplete_rest [OF sym])

section \<open>The phases reported\<close>

text \<open>Phases in the order they are reported, each one an advance on the one before.\<close>

fun phase_chain :: "ParsePhase option \<Rightarrow> ParsePhase option list \<Rightarrow> bool" where
  "phase_chain p [] = True"
| "phase_chain p (q # qs) = (q \<noteq> p \<and> phase_step p q \<and> phase_chain q qs)"

lemma parse_loop_phase:
  "parse_loop Q ph k input = Inr (st, k', rest) \<Longrightarrow> st \<noteq> Valid \<Longrightarrow> phase k = Some ph \<or> phase k = None \<Longrightarrow>
   phase_step (phase k) (phase k')"
proof (induction input arbitrary: k)
  case (Cons c cs)
  then obtain s j where c: "consume Q k c = Inr (s, j)" by (auto split: sum.splits)
  from consume_phase [OF c] have step: "phase_step (phase k) (phase j)" .
  show ?case
  proof (cases "s = Incomplete \<and> \<not> (phase j \<noteq> None \<and> phase j \<noteq> Some ph)")
    case True
    with Cons.prems c have loop: "parse_loop Q ph j cs = Inr (st, k', rest)" by auto
    have "phase j = Some ph \<or> phase j = None" using True by auto
    from Cons.IH [OF loop Cons.prems(2) this] True step Cons.prems(3) show ?thesis
      by (auto simp: phase_step_def)
  qed (use Cons.prems c step in \<open>auto split: if_splits\<close>)
qed simp

lemma parse_phase:
  "parse Q k input = Inr (st, k', rest) \<Longrightarrow> st \<noteq> Valid \<Longrightarrow> phase_step (phase k) (phase k')"
  unfolding parse_def by (rule parse_loop_phase) (auto split: option.splits)

lemma read_loop_phases:
  "read_loop Q k input = Inr (phs, st, k', rest) \<Longrightarrow> phase_chain (phase k) phs"
proof (induction Q k input arbitrary: phs st k' rest rule: read_loop.induct)
  case (1 Q k input)
  from "1.prems" obtain s j more where p: "parse Q k input = Inr (s, j, more)"
    by (auto simp: read_loop.simps [of Q k input] split: sum.splits)
  show ?case
  proof (cases "s = Incomplete \<and> phase j \<noteq> phase k")
    case True
    with "1.prems" p obtain phs' r where rec: "read_loop Q j more = Inr (phs', r)" "phs = phase j # phs'"
      by (auto simp: read_loop.simps [of Q k input] split: sum.splits)
    obtain s' k'' rest' where r: "r = (s', k'', rest')" by (cases r)
    from "1.IH" [OF p, of s "(j, more)" j more] True rec r have "phase_chain (phase j) phs'" by simp
    moreover from True p have "phase_step (phase k) (phase j)" by (auto dest: parse_phase)
    ultimately show ?thesis using True rec by simp
  next
    case False
    with "1.prems" p show ?thesis by (auto simp: read_loop.simps [of Q k input])
  qed
qed

end
