(* ===== verification/Accessors.thy ===== *)
theory Accessors
  imports ReadLoop
begin

text \<open>
  The public faces of the classes around a message: the getters of \<open>HttpMessage\<close>, the wrappers
  \<open>Request\<close> (\<open>core/include/core/Request.h\<close>) and \<open>Response\<close> (\<open>core/include/core/Response.h\<close>), and the overloads of
  \<open>HttpMessageParser::parse\<close> that the rest of the program calls.
\<close>

section \<open>Getters\<close>

definition HttpMessage_method :: "HttpMessage \<Rightarrow> qstring" where
  "HttpMessage_method m = msg_method m"

definition HttpMessage_uri :: "HttpMessage \<Rightarrow> qstring" where
  "HttpMessage_uri m = msg_uri m"

definition HttpMessage_status_code :: "HttpMessage \<Rightarrow> int" where
  "HttpMessage_status_code m = msg_status_code m"

definition HttpMessage_status_message :: "HttpMessage \<Rightarrow> qstring" where
  "HttpMessage_status_message m = msg_status_message m"

definition HttpMessage_major_version :: "HttpMessage \<Rightarrow> int" where
  "HttpMessage_major_version m = msg_major_version m"

definition HttpMessage_minor_version :: "HttpMessage \<Rightarrow> int" where
  "HttpMessage_minor_version m = msg_minor_version m"

definition HttpMessage_headers :: "HttpMessage \<Rightarrow> Headers" where
  "HttpMessage_headers m = msg_headers m"

definition HttpMessage_body :: "HttpMessage \<Rightarrow> bytes" where
  "HttpMessage_body m = msg_body m"

lemmas getter_defs = HttpMessage_method_def HttpMessage_uri_def HttpMessage_status_code_def HttpMessage_status_message_def
  HttpMessage_major_version_def HttpMessage_minor_version_def HttpMessage_headers_def HttpMessage_body_def

section \<open>Request and Response\<close>

text \<open>Both hold one message, which their members pass on to. The constructors of \<open>Request\<close> copy or move a message in;
  \<open>set_body\<close> of a string stores its local 8-bit form, a function of Qt.\<close>

definition Request_of :: "HttpMessage \<Rightarrow> Request" where
  "Request_of m = m"

definition Request_set_major_version :: "int \<Rightarrow> Request \<Rightarrow> Request" where
  "Request_set_major_version v r = set_major_version v r"

definition Request_set_minor_version :: "int \<Rightarrow> Request \<Rightarrow> Request" where
  "Request_set_minor_version v r = set_minor_version v r"

definition Request_major_version :: "Request \<Rightarrow> int" where
  "Request_major_version r = HttpMessage_major_version r"

definition Request_minor_version :: "Request \<Rightarrow> int" where
  "Request_minor_version r = HttpMessage_minor_version r"

definition Request_method :: "Request \<Rightarrow> qstring" where
  "Request_method r = HttpMessage_method r"

definition Request_set_method :: "qstring \<Rightarrow> Request \<Rightarrow> Request" where
  "Request_set_method v r = set_method v r"

definition Request_uri :: "Request \<Rightarrow> qstring" where
  "Request_uri r = HttpMessage_uri r"

definition Request_set_uri :: "qstring \<Rightarrow> Request \<Rightarrow> Request" where
  "Request_set_uri v r = set_uri v r"

definition Request_headers :: "Request \<Rightarrow> Headers" where
  "Request_headers r = HttpMessage_headers r"

definition Request_body :: "Request \<Rightarrow> bytes" where
  "Request_body r = HttpMessage_body r"

definition Request_set_body :: "bytes \<Rightarrow> Request \<Rightarrow> Request" where
  "Request_set_body v r = set_body v r"

definition Request_set_body_string :: "(qstring \<Rightarrow> bytes) \<Rightarrow> qstring \<Rightarrow> Request \<Rightarrow> Request" where
  "Request_set_body_string toLocal8Bit v r = set_body (toLocal8Bit v) r"

definition Response_headers :: "Response \<Rightarrow> Headers" where
  "Response_headers r = HttpMessage_headers r"

definition Response_status_code :: "Response \<Rightarrow> int" where
  "Response_status_code r = HttpMessage_status_code r"

definition Response_status_message :: "Response \<Rightarrow> qstring" where
  "Response_status_message r = HttpMessage_status_message r"

definition Response_body :: "Response \<Rightarrow> bytes" where
  "Response_body r = HttpMessage_body r"

lemmas request_defs = Request_of_def Request_set_major_version_def Request_set_minor_version_def Request_major_version_def
  Request_minor_version_def Request_method_def Request_set_method_def Request_uri_def Request_set_uri_def
  Request_headers_def Request_body_def Request_set_body_def Request_set_body_string_def

text \<open>What a pair of a getter and a setter promises.\<close>

locale property =
  fixes get :: "'m \<Rightarrow> 'v" and set :: "'v \<Rightarrow> 'm \<Rightarrow> 'm"
  assumes get_set: "get (set v m) = v" and set_get: "set (get m) m = m" and set_set: "set v (set w m) = set v m"
begin

lemma set_inject: "set v m = set w m \<longleftrightarrow> v = w"
  using get_set by metis

lemma changed_iff: "set v m = m \<longleftrightarrow> get m = v"
  using get_set set_get by metis

end

interpretation request_method: property Request_method Request_set_method
  by unfold_locales (simp_all add: request_defs getter_defs setter_defs)

interpretation request_uri: property Request_uri Request_set_uri
  by unfold_locales (simp_all add: request_defs getter_defs setter_defs)

interpretation request_major: property Request_major_version Request_set_major_version
  by unfold_locales (simp_all add: request_defs getter_defs setter_defs)

interpretation request_minor: property Request_minor_version Request_set_minor_version
  by unfold_locales (simp_all add: request_defs getter_defs setter_defs)

interpretation request_body: property Request_body Request_set_body
  by unfold_locales (simp_all add: request_defs getter_defs setter_defs)

interpretation status_code: property HttpMessage_status_code set_status_code
  by unfold_locales (simp_all add: getter_defs setter_defs)

interpretation status_message: property HttpMessage_status_message set_status_message
  by unfold_locales (simp_all add: getter_defs setter_defs)

section \<open>The overloads of parse\<close>

text \<open>Without a phase the private \<open>parse\<close> gets a null pointer; with one it gets its address, and the parser, the message and the
  phase are updated in place.\<close>

definition parse_message :: "qt \<Rightarrow> HttpMessageParser \<Rightarrow> HttpMessage \<Rightarrow> bytes \<Rightarrow>
    (State \<times> HttpMessageParser \<times> HttpMessage \<times> bytes) outcome" where
  "parse_message Q p m input =
     (case parse Q \<lparr>parser = p, message = m, phase = None\<rparr> input of
        Inl e \<Rightarrow> Inl e
      | Inr (st, k, rest) \<Rightarrow> Inr (st, parser k, message k, rest))"

definition parse_message_phase :: "qt \<Rightarrow> HttpMessageParser \<Rightarrow> HttpMessage \<Rightarrow> ParsePhase \<Rightarrow> bytes \<Rightarrow>
    (State \<times> HttpMessageParser \<times> HttpMessage \<times> ParsePhase \<times> bytes) outcome" where
  "parse_message_phase Q p m ph input =
     (case parse Q \<lparr>parser = p, message = m, phase = Some ph\<rparr> input of
        Inl e \<Rightarrow> Inl e
      | Inr (st, k, rest) \<Rightarrow> Inr (st, parser k, message k, the (phase k), rest))"

definition parse_request :: "qt \<Rightarrow> HttpMessageParser \<Rightarrow> Request \<Rightarrow> bytes \<Rightarrow>
    (State \<times> HttpMessageParser \<times> Request \<times> bytes) outcome" where
  "parse_request Q p r input = parse_message Q p r input"

definition parse_request_phase :: "qt \<Rightarrow> HttpMessageParser \<Rightarrow> Request \<Rightarrow> ParsePhase \<Rightarrow> bytes \<Rightarrow>
    (State \<times> HttpMessageParser \<times> Request \<times> ParsePhase \<times> bytes) outcome" where
  "parse_request_phase Q p r ph input = parse_message_phase Q p r ph input"

definition parse_response :: "qt \<Rightarrow> HttpMessageParser \<Rightarrow> Response \<Rightarrow> bytes \<Rightarrow>
    (State \<times> HttpMessageParser \<times> Response \<times> bytes) outcome" where
  "parse_response Q p r input = parse_message Q p r input"

definition parse_response_phase :: "qt \<Rightarrow> HttpMessageParser \<Rightarrow> Response \<Rightarrow> ParsePhase \<Rightarrow> bytes \<Rightarrow>
    (State \<times> HttpMessageParser \<times> Response \<times> ParsePhase \<times> bytes) outcome" where
  "parse_response_phase Q p r ph input = parse_message_phase Q p r ph input"

text \<open>A caller that repeats the call with a phase until it neither pauses nor asks for more, as the read callbacks of a
  transaction do, gets what one call without a phase returns.\<close>

function parse_until :: "qt \<Rightarrow> HttpMessageParser \<Rightarrow> HttpMessage \<Rightarrow> ParsePhase \<Rightarrow> bytes \<Rightarrow>
    (State \<times> HttpMessageParser \<times> HttpMessage \<times> bytes) outcome" where
  "parse_until Q p m ph input =
     (case parse_message_phase Q p m ph input of
        Inl e \<Rightarrow> Inl e
      | Inr (state, p', m', ph', rest) \<Rightarrow>
          if state = Incomplete \<and> ph' \<noteq> ph then parse_until Q p' m' ph' rest else Inr (state, p', m', rest))"
  by pat_completeness auto
termination
proof (relation "measure (\<lambda>(Q, p, m, ph, input). length input)")
  fix Q p m ph input x state y p' z m' u ph' rest
  assume *: "parse_message_phase Q p m ph input = Inr x" "(state, y) = x" "(p', z) = y" "(m', u) = z" "(ph', rest) = u"
    "state = Incomplete \<and> ph' \<noteq> ph"
  let ?k = "\<lparr>parser = p, message = m, phase = Some ph\<rparr>"
  from * obtain k where k: "parse Q ?k input = Inr (Incomplete, k, rest)" "ph' = the (phase k)"
    by (auto simp: parse_message_phase_def split: sum.splits)
  with * have "phase k \<noteq> phase ?k" by auto
  with parse_consumes k(1) show "((Q, p', m', ph', rest), Q, p, m, ph, input) \<in> measure (\<lambda>(Q, p, m, ph, input). length input)"
    by fastforce
qed simp

declare parse_until.simps [simp del]

lemma parse_message_feed:
  "parse_message Q p m input =
     (case feed Q \<lparr>parser = p, message = m, phase = ph\<rparr> input of Inl e \<Rightarrow> Inl e | Inr (st, k, rest) \<Rightarrow> Inr (st, parser k, message k, rest))"
  by (simp add: parse_message_def feed_def erase_def)

lemma parse_phased: "parse Q k input = Inr (st, k', rest) \<Longrightarrow> phase k \<noteq> None \<Longrightarrow> phase k' \<noteq> None"
proof -
  have "parse_loop Q ph k input = Inr (st, k', rest) \<Longrightarrow> phase k \<noteq> None \<Longrightarrow> phase k' \<noteq> None" for ph
    by (induction Q ph k input rule: parse_loop.induct)
      (fastforce split: sum.splits if_splits dest: consume_phase simp: phase_step_def)+
  then show "parse Q k input = Inr (st, k', rest) \<Longrightarrow> phase k \<noteq> None \<Longrightarrow> phase k' \<noteq> None" by (auto simp: parse_def)
qed

theorem parse_until_message: "parse_until Q p m ph input = parse_message Q p m input"
proof (induction Q p m ph input rule: parse_until.induct)
  case (1 Q p m ph input)
  let ?k = "\<lparr>parser = p, message = m, phase = Some ph\<rparr>"
  show ?case
  proof (cases "parse Q ?k input")
    case (Inl e)
    with parse_Inl [OF Inl] show ?thesis
      by (simp add: parse_until.simps [of Q p m ph input] parse_message_phase_def parse_message_feed [where ph = "Some ph"])
  next
    case (Inr x)
    obtain st k rest where "x = (st, k, rest)" by (cases x)
    with Inr have k: "parse Q ?k input = Inr (st, k, rest)" by simp
    then have phase: "phase k \<noteq> None" by (rule parse_phased) simp
    then have k': "k = \<lparr>parser = parser k, message = message k, phase = Some (the (phase k))\<rparr>" by (cases k) auto
    show ?thesis
    proof (cases "st = Incomplete \<and> the (phase k) \<noteq> ph")
      case True
      with k have "feed Q ?k input = feed Q k rest" by (auto intro: parse_resumes)
      then have "parse_message Q p m input = parse_message Q (parser k) (message k) rest"
        unfolding parse_message_feed [of Q p m input "Some ph"]
          parse_message_feed [of Q "parser k" "message k" rest "Some (the (phase k))"] k' [symmetric] by simp
      with 1 True k show ?thesis
        by (simp add: parse_until.simps [of Q p m ph input] parse_message_phase_def)
    next
      case False
      with phase have "st \<noteq> Incomplete \<or> phase k = phase ?k" by auto
      with k have "feed Q ?k input = Inr (st, erase k, rest)" by (rule parse_stops)
      with False k show ?thesis
        by (auto simp: parse_until.simps [of Q p m ph input] parse_message_phase_def parse_message_feed [where ph = "Some ph"] erase_simps)
    qed
  qed
qed

end
