(* ===== verification/ParserRuns.thy ===== *)
theory ParserRuns
  imports ParserLemmas
begin

text \<open>
  Runs of the parser over the segments of a message: tokens, numbers, header lines, chunks and
  fixed-length entities. A run is \<open>reads Q k xs k'\<close>: all of \<open>xs\<close> is consumed and the parser wants more.
  Configurations are written \<open>conf s r b v m\<close> (state, remaining, buffer, value buffer, message).
\<close>

section \<open>Configurations and runs\<close>

definition conf :: "ParserState \<Rightarrow> 64 word \<Rightarrow> bytes \<Rightarrow> bytes \<Rightarrow> HttpMessage \<Rightarrow> cfg" where
  "conf s r b v m = \<lparr>parser = \<lparr>p_state = s, p_remaining = r, p_buffer = b, p_value_buffer = v\<rparr>,
     message = m, phase = None\<rparr>"

lemma conf_simps [simp]:
  "p_state (parser (conf s r b v m)) = s"
  "p_remaining (parser (conf s r b v m)) = r"
  "p_buffer (parser (conf s r b v m)) = b"
  "p_value_buffer (parser (conf s r b v m)) = v"
  "message (conf s r b v m) = m"
  "phase (conf s r b v m) = None"
  "erase (conf s r b v m) = conf s r b v m"
  "TRANSIT x (conf s r b v m) = conf x r b v m"
  "message_update f (conf s r b v m) = conf s r b v (f m)"
  "parser_update (p_buffer_update g) (conf s r b v m) = conf s r (g b) v m"
  "parser_update (p_value_buffer_update g) (conf s r b v m) = conf s r b (g v) m"
  "parser_update (p_remaining_update h) (conf s r b v m) = conf s (h r) b v m"
  "parser_update (p_buffer_update g \<circ> p_buffer_update g') (conf s r b v m) = conf s r (g (g' b)) v m"
  "parser_update (p_value_buffer_update g \<circ> p_buffer_update g') (conf s r b v m) = conf s r (g' b) (g v) m"
  by (simp_all add: conf_def erase_def TRANSIT_def transition_to_state_def)

lemma conf_cfg: "erase k = conf (p_state (parser k)) (p_remaining (parser k)) (p_buffer (parser k))
   (p_value_buffer (parser k)) (message k)"
  by (simp add: conf_def erase_def)

definition reads :: "qt \<Rightarrow> cfg \<Rightarrow> bytes \<Rightarrow> cfg \<Rightarrow> bool" where
  "reads Q k xs k' \<longleftrightarrow> feed Q k xs = Inr (Incomplete, k', [])"

lemma reads_Nil [simp, intro]: "reads Q (conf s r b v m) [] (conf s r b v m)"
  by (simp add: reads_def)

lemma reads_Cons:
  "consume Q k c = Inr (Incomplete, j) \<Longrightarrow> reads Q j cs k' \<Longrightarrow> reads Q k (c # cs) k'"
  by (simp add: reads_def feed_Cons)

lemma reads_one: "consume Q k c = Inr (Incomplete, conf s r b v m) \<Longrightarrow> reads Q k [c] (conf s r b v m)"
  by (rule reads_Cons) auto

lemma reads_append: "reads Q k xs j \<Longrightarrow> reads Q j ys k' \<Longrightarrow> reads Q k (xs @ ys) k'"
  by (simp add: reads_def feed_append)

lemma reads_then: "reads Q k xs j \<Longrightarrow> feed Q k (xs @ ys) = feed Q j ys"
  by (simp add: reads_def feed_append)

section \<open>Byte classes\<close>

definition token_char :: "char \<Rightarrow> bool" where
  "token_char c \<longleftrightarrow> \<not> bad_token c"

definition text_char :: "char \<Rightarrow> bool" where
  "text_char c \<longleftrightarrow> \<not> is_ctl (char_int c)"

lemma char_class_facts [char_class]:
  "bad_token SP" "bad_token (CHR '':'')" "bad_token CR" "bad_token LF" "bad_token HT"
  "is_ctl (char_int CR)" "is_ctl (char_int LF)" "\<not> is_ctl (char_int SP)"
  "\<not> is_digit (char_int (CHR ''.''))" "\<not> is_digit (char_int CR)" "\<not> is_digit (char_int SP)"
  by (simp_all add: bad_token_def is_char_def is_ctl_def is_tspecial_def is_digit_def char_int_def)

lemma token_char_neq [char_class]:
  "token_char c \<Longrightarrow> c \<noteq> SP" "token_char c \<Longrightarrow> c \<noteq> CHR '':''" "token_char c \<Longrightarrow> c \<noteq> CR"
  "token_char c \<Longrightarrow> c \<noteq> LF" "token_char c \<Longrightarrow> c \<noteq> HT"
  using char_class_facts by (auto simp: token_char_def)

lemma text_char_neq [char_class]: "text_char c \<Longrightarrow> c \<noteq> CR"
  using char_class_facts by (auto simp: text_char_def)

lemma token_char_ascii: "token_char c \<Longrightarrow> ascii c"
  using of_char_lt [of c]
  by (auto simp: token_char_def bad_token_def is_char_def char_int_def ascii_def
      simp del: nat_of_char_less_256 split: if_splits)

lemma ascii_digit_iff: "is_digit (char_int c) \<longleftrightarrow> ascii_digit c"
  using of_char_lt [of c]
  by (auto simp: is_digit_def char_int_def ascii_digit_def simp del: nat_of_char_less_256
      split: if_splits)

lemma digit_digit_value: "ascii_digit c \<Longrightarrow> digit c = int (digit_value c)"
  by (auto simp: digit_def char_int_def ascii_digit_def digit_value_def)

section \<open>The request line\<close>

lemma reads_method_tail:
  "list_all token_char cs \<Longrightarrow>
   reads Q (conf s_method r b v m) cs
     (conf s_method r b v (m\<lparr>msg_method := msg_method m @ latin1 cs\<rparr>))"
proof (induction cs arbitrary: m)
  case (Cons c cs)
  then have "consume Q (conf s_method r b v m) c =
      Inr (Incomplete, conf s_method r b v (m\<lparr>msg_method := msg_method m @ [qch c]\<rparr>))"
    by (simp add: consume_def char_class token_char_def)
  from reads_Cons [OF this Cons.IH] Cons.prems show ?case by simp
qed simp

lemma reads_method:
  "list_all token_char (c # cs) \<Longrightarrow>
   reads Q (conf method_start r b v m) ((c # cs) @ [SP])
     (conf s_uri r b v (m\<lparr>msg_method := msg_method m @ latin1 (c # cs)\<rparr>))"
proof -
  assume ok: "list_all token_char (c # cs)"
  let ?m = "m\<lparr>msg_method := msg_method m @ [qch c]\<rparr>"
  from ok have "consume Q (conf method_start r b v m) c = Inr (Incomplete, conf s_method r b v ?m)"
    by (simp add: consume_def token_char_def)
  moreover from ok have "reads Q (conf s_method r b v ?m) cs
      (conf s_method r b v (?m\<lparr>msg_method := msg_method ?m @ latin1 cs\<rparr>))"
    by (intro reads_method_tail) simp
  moreover have "reads Q (conf s_method r b v m') [SP] (conf s_uri r b v m')" for m'
    by (rule reads_one) (simp add: consume_def)
  ultimately show ?thesis
    by simp (rule reads_Cons, assumption, rule reads_append)
qed

lemma reads_uri:
  "list_all (\<lambda>c. text_char c \<and> c \<noteq> SP) cs \<Longrightarrow>
   reads Q (conf s_uri r b v m) (cs @ [SP])
     (conf http_version_h r b v (m\<lparr>msg_uri := msg_uri m @ latin1 cs\<rparr>))"
proof (induction cs arbitrary: m)
  case Nil
  show ?case by simp (rule reads_one, simp add: consume_def)
next
  case (Cons c cs)
  then have "consume Q (conf s_uri r b v m) c =
      Inr (Incomplete, conf s_uri r b v (m\<lparr>msg_uri := msg_uri m @ [qch c]\<rparr>))"
    by (simp add: consume_def text_char_def)
  from reads_Cons [OF this Cons.IH] Cons.prems show ?case by simp
qed

lemma reads_http_slash:
  "reads Q (conf http_version_h r b v m) ''HTTP/''
     (conf http_version_major_start r b v (m\<lparr>msg_major_version := 0, msg_minor_version := 0\<rparr>))"
  by (intro reads_Cons) (auto simp: consume_def expect_def)

text \<open>A number is read digit by digit; it must fit an \<open>int\<close>.\<close>

lemma dec_value_mono: "a \<le> dec_value a ds"
proof (induction ds arbitrary: a)
  case (Cons d ds)
  have "a \<le> a * 10 + digit_value d" by simp
  also have "\<dots> \<le> dec_value (a * 10 + digit_value d) ds" by (rule Cons.IH)
  finally show ?case by simp
qed simp

lemma more_digits_ok:
  "ascii_digit c \<Longrightarrow> a * 10 + digit_value c < 2 ^ 31 \<Longrightarrow>
   more_digits (int a) store k c = Inr (Incomplete, store (int (a * 10 + digit_value c)) k)"
proof -
  assume c: "ascii_digit c" and lt: "a * 10 + digit_value c < 2 ^ 31"
  have "int a * 10 + digit c = int (a * 10 + digit_value c)"
    by (simp add: digit_digit_value c)
  moreover have "int32 (int (a * 10 + digit_value c)) = Inr (int (a * 10 + digit_value c))"
    using lt by (intro int32_Inr) simp_all
  ultimately show ?thesis by (simp add: more_digits_def)
qed

text \<open>
  The contract shared by the five numbers the parser reads into an \<open>int\<close> field: a start state takes
  the first digit, a second state takes the others.
\<close>

locale number_field =
  fixes Q :: qt
    and s0 s :: ParserState
    and get :: "HttpMessage \<Rightarrow> int"
    and put :: "int \<Rightarrow> HttpMessage \<Rightarrow> HttpMessage"
  assumes first_digit: "ascii_digit c \<Longrightarrow>
      consume Q (conf s0 r b v m) c = Inr (Incomplete, conf s r b v (put (digit c) m))"
    and next_digit: "ascii_digit c \<Longrightarrow>
      consume Q (conf s r b v m) c = more_digits (get m) (\<lambda>x. message_update (put x)) (conf s r b v m) c"
    and get_put: "get (put x m) = x"
    and put_put: "put x (put y m) = put x m"
    and put_get: "put (get m) m = m"
begin

lemma reads_digits:
  "list_all ascii_digit ds \<Longrightarrow> get m = int a \<Longrightarrow> dec_value a ds < 2 ^ 31 \<Longrightarrow>
    reads Q (conf s r b v m) ds (conf s r b v (put (int (dec_value a ds)) m))"
proof (induction ds arbitrary: a m)
  case Nil
  then show ?case using put_get [of m] by simp
next
  case (Cons d ds)
  let ?a = "a * 10 + digit_value d"
  have "?a \<le> dec_value ?a ds" by (rule dec_value_mono)
  with Cons.prems have "?a < 2 ^ 31" by simp
  with Cons.prems have "consume Q (conf s r b v m) d = Inr (Incomplete, conf s r b v (put (int ?a) m))"
    by (simp add: next_digit more_digits_ok del: of_nat_add of_nat_mult)
  moreover have "reads Q (conf s r b v (put (int ?a) m)) ds
      (conf s r b v (put (int (dec_value ?a ds)) (put (int ?a) m)))"
    using Cons.prems by (intro Cons.IH) (simp_all add: get_put)
  ultimately show ?case
    by (auto intro: reads_Cons simp: put_put)
qed

lemma reads_number:
  assumes n: "n < 2 ^ 31"
  shows "reads Q (conf s0 r b v m) (dec_nat n) (conf s r b v (put (int n) m))"
proof -
  obtain d ds where dec: "dec_nat n = d # ds" by (cases "dec_nat n") auto
  with dec_nat_digits [of n] have digits: "ascii_digit d" "list_all ascii_digit ds" by simp_all
  from dec dec_nat_value [of n] have val: "dec_value (digit_value d) ds = n" by simp
  have "consume Q (conf s0 r b v m) d = Inr (Incomplete, conf s r b v (put (int (digit_value d)) m))"
    by (simp add: first_digit digits digit_digit_value)
  moreover have "reads Q (conf s r b v (put (int (digit_value d)) m)) ds
      (conf s r b v (put (int n) (put (int (digit_value d)) m)))"
    using reads_digits [OF digits(2), where a = "digit_value d"] n by (simp add: get_put val)
  ultimately show ?thesis
    unfolding dec by (auto intro: reads_Cons simp: put_put)
qed

end

lemmas number_simps = consume_def ascii_digit_iff [symmetric] char_class more_digits_def

lemma digit_not_sep: "is_digit (char_int c) \<Longrightarrow> c \<noteq> CHR ''.'' \<and> c \<noteq> CR \<and> c \<noteq> SP"
  using char_class_facts by auto

interpretation req_major: number_field Q http_version_major_start http_version_major
    msg_major_version "\<lambda>x. msg_major_version_update (\<lambda>_. x)" for Q
  by unfold_locales (auto simp: number_simps dest: digit_not_sep)

interpretation req_minor: number_field Q http_version_minor_start http_version_minor
    msg_minor_version "\<lambda>x. msg_minor_version_update (\<lambda>_. x)" for Q
  by unfold_locales (auto simp: number_simps dest: digit_not_sep)

interpretation resp_major: number_field Q response_major_version_start response_major_version
    msg_major_version "\<lambda>x. msg_major_version_update (\<lambda>_. x)" for Q
  by unfold_locales (auto simp: number_simps dest: digit_not_sep)

interpretation resp_minor: number_field Q response_minor_version_start response_minor_version
    msg_minor_version "\<lambda>x. msg_minor_version_update (\<lambda>_. x)" for Q
  by unfold_locales (auto simp: number_simps dest: digit_not_sep)

interpretation resp_status: number_field Q response_status_code_start response_status_code
    msg_status_code "\<lambda>x. msg_status_code_update (\<lambda>_. x)" for Q
  by unfold_locales (auto simp: number_simps dest: digit_not_sep)

lemma reads_request_line:
  assumes meth: "meth \<noteq> []" "list_all token_char meth"
    and uri: "list_all (\<lambda>c. text_char c \<and> c \<noteq> SP) ur"
    and ver: "maj < 2 ^ 31" "mnr < 2 ^ 31"
  shows "reads Q (conf method_start r b v m)
     (meth @ [SP] @ ur @ [SP] @ ''HTTP/'' @ dec_nat maj @ ''.'' @ dec_nat mnr @ [CR, LF])
     (conf header_line_start r b v (m\<lparr>msg_method := msg_method m @ latin1 meth,
        msg_uri := msg_uri m @ latin1 ur, msg_major_version := int maj, msg_minor_version := int mnr\<rparr>))"
proof -
  from meth obtain c cs where c: "meth = c # cs" by (cases meth) auto
  have dot: "reads Q (conf http_version_major r b v m') ''.'' (conf http_version_minor_start r b v m')" for m'
    by (rule reads_one) (simp add: consume_def)
  have crlf: "reads Q (conf http_version_minor r b v m') [CR, LF] (conf header_line_start r b v m')" for m'
    by (intro reads_Cons) (auto simp: consume_def expect_def)
  have uri_run: "reads Q (conf s_uri r b v (m\<lparr>msg_method := x\<rparr>)) (ur @ [SP])
      (conf http_version_h r b v (m\<lparr>msg_method := x, msg_uri := msg_uri m @ latin1 ur\<rparr>))" for x
    using reads_uri [OF uri, of Q r b v "m\<lparr>msg_method := x\<rparr>"] by simp
  have "reads Q (conf method_start r b v m)
     (((c # cs) @ [SP]) @ (ur @ [SP]) @ ''HTTP/'' @ dec_nat maj @ ''.'' @ dec_nat mnr @ [CR, LF])
     (conf header_line_start r b v
        (((((m\<lparr>msg_method := msg_method m @ latin1 (c # cs)\<rparr>)\<lparr>msg_uri := msg_uri m @ latin1 ur\<rparr>)
           \<lparr>msg_major_version := 0, msg_minor_version := 0\<rparr>)
           \<lparr>msg_major_version := int maj\<rparr>)\<lparr>msg_minor_version := int mnr\<rparr>))"
    using meth ver unfolding c
    by (intro reads_append [OF reads_method] reads_append [OF uri_run]
        reads_append [OF reads_http_slash] reads_append [OF req_major.reads_number]
        reads_append [OF dot] reads_append [OF req_minor.reads_number] crlf)
  then show ?thesis by (simp add: c)
qed

section \<open>The status line\<close>

lemma reads_status_message:
  "list_all (\<lambda>c. ascii c \<and> c \<noteq> CR) cs \<Longrightarrow>
   reads Q (conf response_status_message r b v m) cs (conf response_status_message r (b @ cs) v m)"
proof (induction cs arbitrary: b)
  case (Cons c cs)
  then have "is_char (char_int c)" by (simp add: is_char_def char_int_def ascii_def)
  with Cons.prems have "consume Q (conf response_status_message r b v m) c =
      Inr (Incomplete, conf response_status_message r (b @ [c]) v m)"
    by (simp add: consume_def)
  from reads_Cons [OF this Cons.IH] Cons.prems show ?case by simp
qed simp

lemma reads_status_line:
  assumes Q: "qt_laws Q" and ver: "maj < 2 ^ 31" "mnr < 2 ^ 31" "code < 2 ^ 31"
    and reason: "reason \<noteq> []" "list_all (\<lambda>c. ascii c \<and> c \<noteq> CR) reason"
  shows "reads Q (conf response_start r b v m)
     (''HTTP/'' @ dec_nat maj @ ''.'' @ dec_nat mnr @ [SP] @ dec_nat code @ [SP] @ reason @ [CR, LF])
     (conf header_line_start r reason v (m\<lparr>msg_major_version := int maj, msg_minor_version := int mnr,
        msg_status_code := int code, msg_status_message := latin1 reason\<rparr>))"
proof -
  from reason obtain c cs where c: "reason = c # cs" by (cases reason) auto
  have http: "reads Q (conf response_start r b v m') ''HTTP/'' (conf response_major_version_start r b v m')" for m'
    by (intro reads_Cons) (auto simp: consume_def expect_def)
  have dot: "reads Q (conf response_major_version r b v m') ''.'' (conf response_minor_version_start r b v m')" for m'
    by (rule reads_one) (simp add: consume_def)
  have sp1: "reads Q (conf response_minor_version r b v m') [SP] (conf response_status_code_start r b v m')" for m'
    by (rule reads_one) (simp add: consume_def)
  have sp2: "reads Q (conf response_status_code r b v m') [SP] (conf response_status_message_start r b v m')" for m'
    by (rule reads_one) (simp add: consume_def)
  have first: "reads Q (conf response_status_message_start r b v m') [c] (conf response_status_message r [c] v m')" for m'
    using reason c by (intro reads_one) (simp add: consume_def is_char_def char_int_def ascii_def)
  have tail: "reads Q (conf response_status_message r [c] v m') cs (conf response_status_message r reason v m')" for m'
    using reads_status_message [of cs Q r "[c]" v m'] reason c by simp
  have ascii: "list_all ascii reason" using reason by (auto elim: list.pred_mono_strong)
  have crlf: "reads Q (conf response_status_message r reason v m') [CR, LF]
      (conf header_line_start r reason v (m'\<lparr>msg_status_message := latin1 reason\<rparr>))" for m'
    by (intro reads_Cons) (auto simp: consume_def expect_def qt_fromUtf8 [OF Q ascii])
  have "reads Q (conf response_start r b v m)
     (''HTTP/'' @ dec_nat maj @ ''.'' @ dec_nat mnr @ [SP] @ dec_nat code @ [SP] @ [c] @ cs @ [CR, LF])
     (conf header_line_start r reason v ((((m\<lparr>msg_major_version := int maj\<rparr>)\<lparr>msg_minor_version := int mnr\<rparr>)
        \<lparr>msg_status_code := int code\<rparr>)\<lparr>msg_status_message := latin1 reason\<rparr>))"
    using ver
    by (intro reads_append [OF http] reads_append [OF resp_major.reads_number] reads_append [OF dot]
        reads_append [OF resp_minor.reads_number] reads_append [OF sp1]
        reads_append [OF resp_status.reads_number] reads_append [OF sp2] reads_append [OF first]
        reads_append [OF tail] crlf)
  then show ?thesis by (simp add: c)
qed

section \<open>Header lines\<close>

lemma reads_header_name:
  "list_all token_char cs \<Longrightarrow>
   reads Q (conf header_name r b v m) cs (conf header_name r (b @ cs) v m)"
proof (induction cs arbitrary: b)
  case (Cons c cs)
  then have "consume Q (conf header_name r b v m) c = Inr (Incomplete, conf header_name r (b @ [c]) v m)"
    by (simp add: consume_def char_class token_char_def)
  from reads_Cons [OF this Cons.IH] Cons.prems show ?case by simp
qed simp

lemma reads_header_value:
  "list_all text_char cs \<Longrightarrow>
   reads Q (conf header_value r b v m) cs (conf header_value r b (v @ cs) m)"
proof (induction cs arbitrary: v)
  case (Cons c cs)
  then have "consume Q (conf header_value r b v m) c = Inr (Incomplete, conf header_value r b (v @ [c]) m)"
    by (simp add: consume_def char_class text_char_def)
  from reads_Cons [OF this Cons.IH] Cons.prems show ?case by simp
qed simp

definition header_line :: "bytes \<Rightarrow> bytes \<Rightarrow> bytes" where
  "header_line n v = n @ '': '' @ v @ [CR, LF]"

lemma reads_header_line:
  assumes n: "n \<noteq> []" "list_all token_char n" and val: "list_all text_char val"
  shows "reads Q (conf header_line_start r b v m) (header_line n val)
     (conf header_line_start r [] []
        (msg_headers_update (insert Q (latin1 n) (latin1 val)) m))"
proof -
  from n obtain c cs where c: "n = c # cs" by (cases n) auto
  have "reads Q (conf header_line_start r b v m) [c] (conf header_name r [c] v m)"
    using n c by (intro reads_one) (simp add: consume_def char_class token_char_def)
  moreover have "reads Q (conf header_name r [c] v m) cs (conf header_name r n v m)"
    using reads_header_name [of cs Q r "[c]" v m] n c by simp
  moreover have "reads Q (conf header_name r n v m) '': '' (conf header_value r n [] m)"
    by (intro reads_Cons) (auto simp: consume_def)
  moreover have "reads Q (conf header_value r n [] m) val (conf header_value r n val m)"
    using reads_header_value [of val Q r n "[]" m] val by simp
  moreover have "reads Q (conf header_value r n val m) [CR, LF] (conf header_line_start r [] []
        (msg_headers_update (insert Q (latin1 n) (latin1 val)) m))"
    by (intro reads_Cons) (auto simp: consume_def expect_def Let_def)
  ultimately have "reads Q (conf header_line_start r b v m) ([c] @ cs @ '': '' @ val @ [CR, LF])
     (conf header_line_start r [] [] (msg_headers_update (insert Q (latin1 n) (latin1 val)) m))"
    by (intro reads_append)
  then show ?thesis by (simp add: header_line_def c)
qed

text \<open>A block of header lines inserts its fields in order.\<close>

definition insert_all :: "qt \<Rightarrow> (bytes \<times> bytes) list \<Rightarrow> Headers \<Rightarrow> Headers" where
  "insert_all Q hs = fold (\<lambda>(n, v). insert Q n v) (map (\<lambda>(n, v). (latin1 n, latin1 v)) hs)"

definition field_ok :: "bytes \<times> bytes \<Rightarrow> bool" where
  "field_ok = (\<lambda>(n, v). n \<noteq> [] \<and> list_all token_char n \<and> list_all text_char v)"

lemma reads_header_block:
  "list_all field_ok hs \<Longrightarrow>
   \<exists>b' v'. reads Q (conf header_line_start r b v m) (concat (map (\<lambda>(n, v). header_line n v) hs))
     (conf header_line_start r b' v' (msg_headers_update (insert_all Q hs) m))"
proof (induction hs arbitrary: b v m)
  case Nil
  have "msg_headers_update (insert_all Q []) m = m"
    by (cases m) (simp add: insert_all_def)
  then show ?case by auto
next
  case (Cons h hs)
  obtain n val where h: "h = (n, val)" by (cases h)
  let ?m = "msg_headers_update (insert Q (latin1 n) (latin1 val)) m"
  from Cons.prems h have line: "reads Q (conf header_line_start r b v m) (header_line n val)
      (conf header_line_start r [] [] ?m)"
    by (intro reads_header_line) (simp_all add: field_ok_def)
  from Cons.prems have "list_all field_ok hs" by simp
  from Cons.IH [OF this, of "[]" "[]" ?m] obtain b' v' where "reads Q (conf header_line_start r [] [] ?m)
      (concat (map (\<lambda>(n, v). header_line n v) hs))
      (conf header_line_start r b' v' (msg_headers_update (insert_all Q hs) ?m))"
    by blast
  from reads_append [OF line this] show ?case
    by (auto simp: h insert_all_def comp_def)
qed

end
