(* ===== verification/ParserBodies.thy ===== *)
theory ParserBodies
  imports ParserRuns
begin

text \<open>
  Entities: where the blank line leads, fixed-length bodies read to the byte, and the chunked
  transfer coding decoded chunk by chunk.
\<close>

section \<open>The blank line\<close>

lemma reads_end_of_headers: "reads Q (conf header_line_start r b v m) [CR] (conf newline_3 r b v m)"
  by (rule reads_one) (simp add: consume_def)

lemma feed_blank_line:
  "feed Q (conf header_line_start r b v m) (CR # LF # rest) =
     (case consume_blank_line Q (conf newline_3 r b v m) LF of
        Inl e \<Rightarrow> Inl e
      | Inr (st, k') \<Rightarrow> if st \<noteq> Incomplete then Inr (st, erase k', rest) else feed Q k' rest)"
  using reads_then [OF reads_end_of_headers, of Q r b v m "LF # rest"]
  by (simp add: feed_Cons consume_def)

section \<open>Fixed-length entities\<close>

lemma word_of_nat_pred: "0 < n \<Longrightarrow> (of_nat n :: 64 word) - 1 = of_nat (n - 1)"
  by (simp add: of_nat_diff)

lemma word_of_nat_0: "n < 2 ^ 64 \<Longrightarrow> ((of_nat n :: 64 word) = 0) = (n = 0)"
  by (auto simp add: word_of_nat_eq_0_iff dest: nat_dvd_not_less)

lemma consume_fixed:
  "0 < n \<Longrightarrow> n < 2 ^ 64 \<Longrightarrow>
   consume Q (conf fixed_length_entity (of_nat n) b v m) c =
     Inr (if n = 1 then Valid else Incomplete,
       conf fixed_length_entity (of_nat (n - 1)) b v (m\<lparr>msg_body := msg_body m @ [c]\<rparr>))"
proof -
  assume n: "0 < n" "n < 2 ^ 64"
  then have "((of_nat (n - 1) :: 64 word) = 0) = (n = 1)"
    using word_of_nat_0 [of "n - 1"] by auto
  then show ?thesis
    by (simp add: consume_def Let_def word_of_nat_pred [OF n(1)])
qed

text \<open>
  An entity of \<open>n\<close> bytes: exactly the first \<open>n\<close> bytes of the input become the body; with fewer, the
  parser keeps count of the rest.
\<close>

lemma feed_fixed:
  "0 < n \<Longrightarrow> n < 2 ^ 64 \<Longrightarrow>
   feed Q (conf fixed_length_entity (of_nat n) b v m) bs =
     (if length bs < n
      then Inr (Incomplete, conf fixed_length_entity (of_nat (n - length bs)) b v
        (m\<lparr>msg_body := msg_body m @ bs\<rparr>), [])
      else Inr (Valid, conf fixed_length_entity 0 b v (m\<lparr>msg_body := msg_body m @ take n bs\<rparr>), drop n bs))"
proof (induction bs arbitrary: n m)
  case (Cons c cs)
  show ?case
  proof (cases "n = 1")
    case True
    then show ?thesis using consume_fixed [of 1 Q b v m c] by (simp add: feed_Cons)
  next
    case False
    with Cons.prems have n: "0 < n - 1" "n - 1 < 2 ^ 64" by simp_all
    have step: "consume Q (conf fixed_length_entity (of_nat n) b v m) c =
        Inr (Incomplete, conf fixed_length_entity (of_nat (n - 1)) b v (m\<lparr>msg_body := msg_body m @ [c]\<rparr>))"
      using consume_fixed [of n Q b v m c] Cons.prems False by simp
    have "length (c # cs) < n \<longleftrightarrow> length cs < n - 1"
      and "n - length (c # cs) = n - 1 - length cs"
      and "drop n (c # cs) = drop (n - 1) cs" and "take n (c # cs) = c # take (n - 1) cs"
      using n by (auto simp: drop_Cons' take_Cons')
    with Cons.IH [OF n, of "m\<lparr>msg_body := msg_body m @ [c]\<rparr>"] show ?thesis
      by (simp only: feed_Cons step) simp
  qed
qed simp

section \<open>Chunks\<close>

definition hex_digit :: "char \<Rightarrow> nat" where
  "hex_digit c = (case hex_value c of None \<Rightarrow> 0 | Some d \<Rightarrow> nat d)"

definition hex_nat :: "nat \<Rightarrow> string \<Rightarrow> nat" where
  "hex_nat = foldl (\<lambda>a c. a * 16 + hex_digit c)"

lemma hex_nat_simps [simp]:
  "hex_nat a [] = a"
  "hex_nat a (c # cs) = hex_nat (a * 16 + hex_digit c) cs"
  by (simp_all add: hex_nat_def)

lemma hex_value_digit: "is_hex (char_int c) \<Longrightarrow> hex_value c = Some (int (hex_digit c))"
  using is_hex_hex_value [of c] by (auto simp: hex_digit_def)

lemma not_hex_CR [char_class]: "\<not> is_hex (char_int CR)"
  by (simp add: is_hex_def is_digit_def char_int_def)

abbreviation is_hex_char :: "char \<Rightarrow> bool" where
  "is_hex_char c \<equiv> is_hex (char_int c)"

lemma reads_chunk_digits:
  "list_all is_hex_char ds \<Longrightarrow>
   reads Q (conf chunk_length (of_nat a) b v m) ds (conf chunk_length (of_nat (hex_nat a ds)) b v m)"
proof (induction ds arbitrary: a)
  case (Cons d ds)
  from Cons.prems have "d \<noteq> CR" using not_hex_CR by auto
  with Cons.prems have "consume Q (conf chunk_length (of_nat a) b v m) d =
      Inr (Incomplete, conf chunk_length (of_nat (a * 16 + hex_digit d)) b v m)"
    by (simp add: consume_def hex_value_digit)
  from reads_Cons [OF this Cons.IH] Cons.prems show ?case by simp
qed simp

text \<open>The size counter of a chunk header is the numeral modulo \<open>2 ^ 64\<close>.\<close>

lemma reads_chunk_size:
  assumes "ds \<noteq> []" "list_all is_hex_char ds"
  shows "reads Q (conf chunk_length_start r b v m) (ds @ [CR])
     (conf chunk_length_newline (of_nat (hex_nat 0 ds)) b v m)"
proof -
  from assms obtain d es where d: "ds = d # es" by (cases ds) auto
  have "reads Q (conf chunk_length_start r b v m) [d] (conf chunk_length (of_nat (hex_digit d)) b v m)"
    using assms d by (intro reads_one) (simp add: consume_def hex_value_digit)
  moreover have "reads Q (conf chunk_length (of_nat (hex_digit d)) b v m) es
      (conf chunk_length (of_nat (hex_nat 0 ds)) b v m)"
    using reads_chunk_digits [of es Q "hex_digit d"] assms d by simp
  moreover have "reads Q (conf chunk_length (of_nat (hex_nat 0 ds)) b v m) [CR]
      (conf chunk_length_newline (of_nat (hex_nat 0 ds)) b v m)"
    by (rule reads_one) (simp add: consume_def)
  ultimately have "reads Q (conf chunk_length_start r b v m) ([d] @ es @ [CR])
      (conf chunk_length_newline (of_nat (hex_nat 0 ds)) b v m)"
    by (intro reads_append)
  then show ?thesis by (simp add: d)
qed

lemma reads_chunk_data:
  "length bs < 2 ^ 64 \<Longrightarrow>
   reads Q (conf s_chunk (of_nat (length bs)) b v m) bs (conf s_chunk 0 b v (m\<lparr>msg_body := msg_body m @ bs\<rparr>))"
proof (induction bs arbitrary: m)
  case (Cons c cs)
  have "consume Q (conf s_chunk (of_nat (length (c # cs))) b v m) c =
      Inr (Incomplete, conf s_chunk (of_nat (length cs)) b v (m\<lparr>msg_body := msg_body m @ [c]\<rparr>))"
    using word_of_nat_0 [of "length (c # cs)"] word_of_nat_pred [of "length (c # cs)"] Cons.prems
    by (simp add: consume_def del: of_nat_Suc)
  from reads_Cons [OF this Cons.IH] Cons.prems show ?case by simp
qed simp

definition encode_chunk :: "string \<times> bytes \<Rightarrow> bytes" where
  "encode_chunk = (\<lambda>(ds, bs). ds @ [CR, LF] @ bs @ [CR, LF])"

definition chunk_ok :: "string \<times> bytes \<Rightarrow> bool" where
  "chunk_ok = (\<lambda>(ds, bs). ds \<noteq> [] \<and> list_all is_hex_char ds \<and> bs \<noteq> [] \<and>
     length bs < 2 ^ 64 \<and> hex_nat 0 ds mod 2 ^ 64 = length bs)"

lemma of_nat_mod_word: "(of_nat n :: 64 word) = of_nat (n mod 2 ^ 64)"
  by (rule word_unat_eq_iff [THEN iffD2]) (simp add: unat_of_nat take_bit_eq_mod)

lemma reads_chunk:
  assumes "chunk_ok (ds, bs)"
  shows "reads Q (conf chunk_length_start r b v m) (encode_chunk (ds, bs))
     (conf chunk_length_start 0 b v (m\<lparr>msg_body := msg_body m @ bs\<rparr>))"
proof -
  from assms have size: "(of_nat (hex_nat 0 ds) :: 64 word) = of_nat (length bs)"
    and bs: "length bs < 2 ^ 64" "bs \<noteq> []" and ds: "ds \<noteq> []" "list_all is_hex_char ds"
    by (auto simp: chunk_ok_def of_nat_mod_word [of "hex_nat 0 ds"])
  have "(0 :: 64 word) < of_nat (length bs)"
    using word_of_nat_0 [OF bs(1)] bs(2) by (simp add: word_neq_0_conv)
  then have "reads Q (conf chunk_length_newline (of_nat (length bs)) b v m) [LF]
      (conf s_chunk (of_nat (length bs)) b v m)"
    by (intro reads_one) (simp add: consume_def)
  moreover have "reads Q (conf s_chunk 0 b v m') [CR, LF] (conf chunk_length_start 0 b v m')" for m'
    by (intro reads_Cons) (auto simp: consume_def expect_def)
  ultimately have "reads Q (conf chunk_length_start r b v m) ((ds @ [CR]) @ [LF] @ bs @ [CR, LF])
      (conf chunk_length_start 0 b v (m\<lparr>msg_body := msg_body m @ bs\<rparr>))"
    using reads_chunk_size [OF ds, of Q r b v m] reads_chunk_data [OF bs(1), of Q b v m]
    unfolding size by (blast intro: reads_append [of _ _ "ds @ [CR]"] reads_append [of _ _ "[LF]"]
        reads_append [of _ _ bs])
  then show ?thesis by (simp add: encode_chunk_def)
qed

lemma reads_chunks:
  "list_all chunk_ok cs \<Longrightarrow>
   \<exists>r'. reads Q (conf chunk_length_start r b v m) (concat (map encode_chunk cs))
     (conf chunk_length_start r' b v (m\<lparr>msg_body := msg_body m @ concat (map snd cs)\<rparr>))"
proof (induction cs arbitrary: r m)
  case Nil
  show ?case by auto
next
  case (Cons c cs)
  obtain ds bs where c: "c = (ds, bs)" by (cases c)
  with Cons.prems have one: "reads Q (conf chunk_length_start r b v m) (encode_chunk c)
      (conf chunk_length_start 0 b v (m\<lparr>msg_body := msg_body m @ bs\<rparr>))"
    by (auto intro: reads_chunk)
  from Cons.prems have "list_all chunk_ok cs" by simp
  from Cons.IH [OF this, of 0 "m\<lparr>msg_body := msg_body m @ bs\<rparr>"] one show ?case
    by (auto intro: reads_append simp: c)
qed

lemma feed_last_chunk:
  assumes "ds \<noteq> []" "list_all is_hex_char ds" "hex_nat 0 ds mod 2 ^ 64 = 0"
  shows "feed Q (conf chunk_length_start r b v m) (ds @ [CR, LF, CR, LF] @ rest) =
     Inr (Valid, conf chunk_terminating_newline 0 b v m, rest)"
proof -
  have zero: "(of_nat (hex_nat 0 ds) :: 64 word) = 0"
    using of_nat_mod_word [of "hex_nat 0 ds"] assms(3) by simp
  have "feed Q (conf chunk_length_newline 0 b v m) ([LF, CR, LF] @ rest) =
      Inr (Valid, conf chunk_terminating_newline 0 b v m, rest)"
    by (simp add: feed_Cons consume_def)
  with reads_then [OF reads_chunk_size [OF assms(1,2)], of Q r b v m "[LF, CR, LF] @ rest"] zero
  show ?thesis by simp
qed

section \<open>From the blank line to the end of the message\<close>

text \<open>An entity announced by \<open>Content-Length\<close>, and one in the chunked coding.\<close>

lemma feed_sized_body:
  assumes te: "\<not> list_ex (is_chunked Q) (find_by_name Q (msg_headers m) (latin1 ''Transfer-Encoding''))"
    and len: "find_by_name Q (msg_headers m) (latin1 ''Content-Length'') = latin1 (dec_nat (length body)) # vs"
    and Q: "qt_laws Q" and body: "length body < 2 ^ 64" "msg_body m = []" and room: "canReserve Q (length body)"
  shows "\<exists>k'. feed Q (conf header_line_start r b v m) (CR # LF # body @ rest) = Inr (Valid, k', rest) \<and>
     message k' = m\<lparr>msg_body := body\<rparr>"
proof (cases "body = []")
  case True
  have "consume_blank_line Q (conf newline_3 r b v m) LF = Inr (Valid, conf newline_3 r b v m)"
    using te len qt_toULongLong [OF Q, of 0] True by (simp add: consume_blank_line_def)
  then show ?thesis using True body(2) by (simp add: feed_blank_line)
next
  case False
  then have n: "0 < length body" by simp
  from word_of_nat_0 [OF body(1)] n have nz: "(of_nat (length body) :: 64 word) \<noteq> 0" by simp
  have "consume_blank_line Q (conf newline_3 r b v m) LF =
      Inr (Incomplete, conf fixed_length_entity (of_nat (length body)) b v (m\<lparr>msg_body := []\<rparr>))"
    using te len qt_toULongLong [OF Q body(1)] nz room body(1) by (simp add: consume_blank_line_def unat_of_nat take_bit_eq_mod)
  then show ?thesis
    using feed_fixed [OF n body(1), of Q b v "m\<lparr>msg_body := []\<rparr>" "body @ rest"] by (simp add: feed_blank_line)
qed

lemma feed_chunked_body:
  assumes te: "list_ex (is_chunked Q) (find_by_name Q (msg_headers m) (latin1 ''Transfer-Encoding''))"
    and cs: "list_all chunk_ok cs"
    and last: "ds \<noteq> []" "list_all is_hex_char ds" "hex_nat 0 ds mod 2 ^ 64 = 0"
  shows "\<exists>k'. feed Q (conf header_line_start r b v m)
      (CR # LF # concat (map encode_chunk cs) @ ds @ [CR, LF, CR, LF] @ rest) = Inr (Valid, k', rest) \<and>
     message k' = m\<lparr>msg_body := concat (map snd cs)\<rparr>"
proof -
  let ?m = "m\<lparr>msg_body := []\<rparr>"
  have "consume_blank_line Q (conf newline_3 r b v m) LF = Inr (Incomplete, conf chunk_length_start r b v ?m)"
    using te by (simp add: consume_blank_line_def)
  moreover obtain r' where "reads Q (conf chunk_length_start r b v ?m) (concat (map encode_chunk cs))
      (conf chunk_length_start r' b v (m\<lparr>msg_body := concat (map snd cs)\<rparr>))"
    using reads_chunks [OF cs, of Q r b v ?m] by auto
  ultimately show ?thesis
    using feed_last_chunk [OF last, of Q r' b v "m\<lparr>msg_body := concat (map snd cs)\<rparr>" rest]
    by (simp add: feed_blank_line reads_then)
qed

end
