(* ===== verification/RoundTrip.thy ===== *)
theory RoundTrip
  imports ParserBodies ReadLoop
begin

text \<open>
  \<open>Request::format\<close> against the parser: what the proxy writes to the remote host is a message that
  the same parser reads back. What comes back has the values of a repeated field joined into one, newest
  first, and the body that two codecs have passed; it is the same request when no field is repeated and the body
  is ASCII. The class \<open>wf_request\<close> (a body announced by its exact \<open>Content-Length\<close>, no transfer coding, distinct
  names) is asked of what is written.
\<close>

section \<open>Requests\<close>

definition request_of ::
  "qt \<Rightarrow> bytes \<Rightarrow> bytes \<Rightarrow> nat \<Rightarrow> nat \<Rightarrow> (bytes \<times> bytes) list \<Rightarrow> bytes \<Rightarrow> Request" where
  "request_of Q meth ur maj mnr hs body = HttpMessage_new\<lparr>msg_method := latin1 meth, msg_uri := latin1 ur,
     msg_major_version := int maj, msg_minor_version := int mnr,
     msg_headers := insert_all Q hs Headers_new, msg_body := body\<rparr>"

abbreviation canon_name :: "bytes \<Rightarrow> bytes" where
  "canon_name \<equiv> canon_ascii True"

definition framed :: "(bytes \<times> bytes) list \<Rightarrow> bytes \<Rightarrow> bool" where
  "framed hs body \<longleftrightarrow>
     list_all (\<lambda>(n, v). canon_name n \<noteq> ''Transfer-Encoding'' \<and>
       (canon_name n = ''Content-Length'' \<longrightarrow> v = dec_nat (length body))) hs \<and>
     (body \<noteq> [] \<longrightarrow> list_ex (\<lambda>(n, v). canon_name n = ''Content-Length'') hs)"

definition wf_request :: "bytes \<Rightarrow> bytes \<Rightarrow> nat \<Rightarrow> nat \<Rightarrow> (bytes \<times> bytes) list \<Rightarrow> bytes \<Rightarrow> bool" where
  "wf_request meth ur maj mnr hs body \<longleftrightarrow>
     meth \<noteq> [] \<and> list_all token_char meth \<and> list_all (\<lambda>c. text_char c \<and> c \<noteq> SP) ur \<and>
     maj < 2 ^ 31 \<and> mnr < 2 ^ 31 \<and> list_all field_ok hs \<and> distinct (map (canon_name \<circ> fst) hs) \<and>
     length body < 2 ^ 64 \<and> framed hs body"

text \<open>The definitions that decide \<open>wf_request\<close> on a concrete request.\<close>

lemmas class_defs = wf_request_def framed_def field_ok_def token_char_def text_char_def bad_token_def
  is_char_def is_ctl_def is_tspecial_def is_digit_def is_hex_def char_int_def ascii_def ascii_letter_def
  ascii_upper_letter_def ascii_lower_letter_def ascii_upper_def ascii_lower_def

section \<open>Headers built from byte strings\<close>

lemma field_ok_ascii: "field_ok (n, v) \<Longrightarrow> list_all ascii n"
  by (auto simp: field_ok_def elim: list.pred_mono_strong intro: token_char_ascii)

lemma fields_ascii: "list_all field_ok hs \<Longrightarrow> h \<in> set hs \<Longrightarrow> list_all ascii (fst h)"
  using field_ok_ascii [of "fst h" "snd h"] by (auto simp: list_all_iff)

lemma letter_token: "ascii_letter c \<Longrightarrow> token_char c"
  by (auto simp: token_char_def bad_token_def is_char_def is_ctl_def is_tspecial_def char_int_def
      ascii_letter_def ascii_upper_letter_def ascii_lower_letter_def)

lemma token_char_case [simp]:
  "token_char (ascii_upper c) = token_char c" "token_char (ascii_lower c) = token_char c"
proof -
  have "ascii_letter c \<or> ascii_upper c = c" "ascii_letter c \<or> ascii_lower c = c"
    by (auto simp: ascii_upper_def ascii_lower_def ascii_letter_def)
  then show "token_char (ascii_upper c) = token_char c" "token_char (ascii_lower c) = token_char c"
    using letter_token ascii_letter_case by metis+
qed

lemma token_canon [simp]: "list_all token_char (canon_ascii first n) = list_all token_char n"
  by (induction n arbitrary: first) auto

lemma canon_ascii_Nil [simp]: "(canon_ascii first n = []) = (n = [])"
  by (cases n) auto

lemma canonicalize_fields:
  "qt_laws Q \<Longrightarrow> list_all field_ok hs \<Longrightarrow>
   map (canonicalize Q \<circ> fst) (map (\<lambda>(n, v). (latin1 n, latin1 v)) hs) = map (latin1 \<circ> canon_name \<circ> fst) hs"
  by (induction hs) (auto dest: field_ok_ascii)

lemma distinct_latin1: "distinct (map (latin1 \<circ> f) xs) = distinct (map f xs)"
  unfolding map_map [symmetric] by (subst distinct_map) (auto intro: inj_onI)

lemma find_insert_all:
  assumes Q: "qt_laws Q" and hs: "list_all field_ok hs" and n: "list_all ascii n"
  shows "find_by_name Q (insert_all Q hs Headers_new) (latin1 n) =
     rev (map (latin1 \<circ> snd) (filter (\<lambda>(m, v). canon_name m = canon_name n) hs))"
proof -
  have "filter (\<lambda>(m, v). canonicalize Q m = canonicalize Q (latin1 n)) (map (\<lambda>(n, v). (latin1 n, latin1 v)) hs)
      = map (\<lambda>(n, v). (latin1 n, latin1 v)) (filter (\<lambda>(m, v). canon_name m = canon_name n) hs)"
    using hs by (induction hs) (auto simp: Q n dest: field_ok_ascii)
  then show ?thesis
    by (auto simp: insert_all_def hdr.find_fold hdr.inv_new hdr.find_new)
qed

lemma insert_all_canon:
  assumes Q: "qt_laws Q" and hs: "list_all field_ok hs"
  shows "insert_all Q (map (\<lambda>(n, v). (canon_name n, v)) hs) h = insert_all Q hs h"
  using hs
proof (induction hs arbitrary: h)
  case (Cons f fs)
  obtain n v where f: "f = (n, v)" by (cases f)
  with Cons.prems have "list_all ascii n" by (auto dest: field_ok_ascii)
  then have "insert Q (latin1 (canon_name n)) = insert Q (latin1 n)"
    by (simp add: fun_eq_iff insert_def Q)
  with Cons f show ?case by (simp add: insert_all_def)
qed simp

text \<open>The values of a field, in the order of the header lines.\<close>

definition field_values :: "bytes \<Rightarrow> (bytes \<times> bytes) list \<Rightarrow> bytes list" where
  "field_values n hs = map snd (filter (\<lambda>(m, v). canon_name m = n) hs)"

section \<open>The text of a request\<close>

definition request_text ::
  "bytes \<Rightarrow> bytes \<Rightarrow> nat \<Rightarrow> nat \<Rightarrow> (bytes \<times> bytes) list \<Rightarrow> bytes \<Rightarrow> bytes" where
  "request_text meth ur maj mnr hs body =
     (meth @ [SP] @ ur @ [SP] @ ''HTTP/'' @ dec_nat maj @ ''.'' @ dec_nat mnr @ [CR, LF])
     @ concat (map (\<lambda>(n, v). header_line n v) hs) @ [CR, LF] @ body"

text \<open>The canonical names of the fields, in the order they first appear, each with all its values, the last one first.\<close>

definition first_names :: "(bytes \<times> bytes) list \<Rightarrow> bytes list" where
  "first_names hs = rev (remdups (rev (map (canon_name \<circ> fst) hs)))"

fun join_values :: "bytes list \<Rightarrow> bytes" where
  "join_values [] = []"
| "join_values [v] = v"
| "join_values (v # vs) = v @ '', '' @ join_values vs"

definition joined :: "(bytes \<times> bytes) list \<Rightarrow> (bytes \<times> bytes) list" where
  "joined hs = map (\<lambda>n. (n, join_values (rev (field_values n hs)))) (first_names hs)"

text \<open>The body as the text has it.\<close>

definition recoded :: "qt \<Rightarrow> bytes \<Rightarrow> bytes" where
  "recoded Q body = (if body = [] then [] else toLatin1 Q (fromUtf8 Q body))"

lemma recoded_ascii: "qt_laws Q \<Longrightarrow> list_all ascii body \<Longrightarrow> recoded Q body = body"
  by (simp add: recoded_def qt_fromUtf8)

lemma first_names_snoc:
  "first_names (hs @ [h]) =
     (if canon_name (fst h) \<in> set (first_names hs) then first_names hs else first_names hs @ [canon_name (fst h)])"
  by (simp add: first_names_def)

lemma first_names_distinct: "distinct (first_names hs)" "set (first_names hs) = set (map (canon_name \<circ> fst) hs)"
  by (simp_all add: first_names_def)

lemma names_insert_all:
  assumes Q: "qt_laws Q" and hs: "list_all field_ok hs"
  shows "names (insert_all Q hs Headers_new) = map latin1 (first_names hs)"
  using hs
proof (induction hs rule: rev_induct)
  case Nil
  show ?case by (simp add: insert_all_def hdr.names_new first_names_def)
next
  case (snoc h hs)
  obtain n v where h: "h = (n, v)" by (cases h)
  with snoc.prems have n: "list_all ascii n" and hs: "list_all field_ok hs" by (auto dest: field_ok_ascii)
  have inv: "headers_wf (insert_all Q hs Headers_new)"
    unfolding insert_all_def by (intro hdr.inv_fold hdr.inv_new)
  have "insert_all Q (hs @ [h]) Headers_new = insert Q (latin1 n) (latin1 v) (insert_all Q hs Headers_new)"
    by (simp add: insert_all_def h)
  moreover have "latin1 (canon_name n) \<in> latin1 ` set (first_names hs) \<longleftrightarrow> canon_name n \<in> set (first_names hs)" by auto
  ultimately show ?case
    using hdr.names_ins [OF inv, of Q "latin1 n" "latin1 v"] snoc.IH [OF hs] by (simp add: Q n first_names_snoc h)
qed

lemma format_values_join: "format_values True (map latin1 vs) = latin1 (join_values vs)"
proof (induction vs rule: join_values.induct)
  case (3 v w vs)
  have "format_values False (map latin1 (w # vs)) = latin1 '', '' @ format_values True (map latin1 (w # vs))" by simp
  with 3 show ?case by simp
qed simp_all

lemma format_header_joined:
  assumes Q: "qt_laws Q" and hs: "list_all field_ok hs" and n: "list_all ascii n" "canon_name n = n"
  shows "toLatin1 Q (format_header Q (insert_all Q hs Headers_new) (latin1 n)) =
     header_line n (join_values (rev (field_values n hs)))"
proof -
  have "find_by_name Q (insert_all Q hs Headers_new) (latin1 n) = map latin1 (rev (field_values n hs))"
    using find_insert_all [OF Q hs n(1)] by (simp add: n(2) field_values_def rev_map)
  then show ?thesis
    by (simp add: format_header_def header_line_def format_values_join)
qed

lemma first_names_canon: "list_all field_ok hs \<Longrightarrow> n \<in> set (first_names hs) \<Longrightarrow> list_all ascii n \<and> canon_name n = n"
  by (auto simp: first_names_distinct(2) dest: fields_ascii)

lemma Request_format_joined:
  assumes Q: "qt_laws Q" and hs: "list_all field_ok hs"
  shows "Request_format Q (request_of Q meth ur maj mnr hs body) =
     request_text meth ur maj mnr (joined hs) (recoded Q body)"
proof -
  let ?fmt = "\<lambda>n. toLatin1 Q (format_header Q (insert_all Q hs Headers_new) (latin1 n))"
  have "toLatin1 Q (concat xs) = concat (map (toLatin1 Q) xs)" for xs
    by (induction xs) simp_all
  then have "toLatin1 Q (concat (map (format_header Q (insert_all Q hs Headers_new)) (names (insert_all Q hs Headers_new))))
      = concat (map ?fmt (first_names hs))"
    by (simp add: names_insert_all [OF Q hs] comp_def)
  also have "map ?fmt (first_names hs) = map (\<lambda>(n, v). header_line n v) (joined hs)"
    using format_header_joined [OF Q hs] first_names_canon [OF hs] by (simp add: joined_def)
  finally have "toLatin1 Q (concat (map (format_header Q (insert_all Q hs Headers_new)) (names (insert_all Q hs Headers_new))))
      = concat (map (\<lambda>(n, v). header_line n v) (joined hs))" .
  moreover have "toLatin1 Q (if length body > 0 then fromUtf8 Q body else []) = recoded Q body"
    by (simp add: recoded_def)
  ultimately show ?thesis
    by (simp add: Request_format_def request_of_def request_text_def dec_int_def split del: if_split cong: if_cong)
qed

text \<open>Fields that are not repeated are joined to themselves.\<close>

lemma joined_distinct:
  assumes "distinct (map (canon_name \<circ> fst) hs)"
  shows "joined hs = map (\<lambda>(n, v). (canon_name n, v)) hs"
proof -
  have "first_names hs = map (canon_name \<circ> fst) hs"
    using assms by (simp add: first_names_def distinct_remdups_id)
  moreover have "field_values (canon_name n) hs = [v]" if "(n, v) \<in> set hs" for n v
  proof -
    have "filter (\<lambda>(m, w). canon_name m = canon_name n) hs = [(n, v)]"
      using assms that by (induction hs) (auto simp: filter_empty_conv image_iff rev_image_eqI)
    then show ?thesis by (simp add: field_values_def)
  qed
  ultimately show ?thesis by (auto simp: joined_def)
qed

lemma joined_canon: "list_all field_ok hs \<Longrightarrow> map (\<lambda>(n, v). (canon_name n, v)) (joined hs) = joined hs"
  using first_names_canon by (auto simp: joined_def)

lemma Request_format_text:
  assumes Q: "qt_laws Q" and hs: "list_all field_ok hs" "distinct (map (canon_name \<circ> fst) hs)"
    and body: "list_all ascii body"
  shows "Request_format Q (request_of Q meth ur maj mnr hs body) =
     request_text meth ur maj mnr (map (\<lambda>(n, v). (canon_name n, v)) hs) body"
  using Request_format_joined [OF Q hs(1)] by (simp add: joined_distinct [OF hs(2)] recoded_ascii [OF Q body])

section \<open>Reading it back\<close>

lemma framing_lookup:
  assumes Q: "qt_laws Q" and wf: "wf_request meth ur maj mnr hs body"
  shows "find_by_name Q (insert_all Q hs Headers_new) (latin1 ''Transfer-Encoding'') = []"
    and "body \<noteq> [] \<Longrightarrow> find_by_name Q (insert_all Q hs Headers_new) (latin1 ''Content-Length'') =
      [latin1 (dec_nat (length body))]"
    and "body = [] \<Longrightarrow> find_by_name Q (insert_all Q hs Headers_new) (latin1 ''Content-Length'')
      \<in> {[], [latin1 (dec_nat 0)]}"
proof -
  from wf have hs: "list_all field_ok hs" "distinct (map (canon_name \<circ> fst) hs)" and fr: "framed hs body"
    by (simp_all add: wf_request_def)
  have te: "canon_name ''Transfer-Encoding'' = ''Transfer-Encoding''"
    and cl: "canon_name ''Content-Length'' = ''Content-Length''"
    by code_simp+
  have ascii: "list_all ascii ''Transfer-Encoding''" "list_all ascii ''Content-Length''"
    by code_simp+
  from fr have "filter (\<lambda>(m, v). canon_name m = ''Transfer-Encoding'') hs = []"
    by (auto simp: framed_def list_all_iff filter_empty_conv)
  then show "find_by_name Q (insert_all Q hs Headers_new) (latin1 ''Transfer-Encoding'') = []"
    by (simp only: find_insert_all [OF Q hs(1) ascii(1)] te) simp
  let ?cl = "filter (\<lambda>(m, v). canon_name m = ''Content-Length'') hs"
  have "length ?cl \<le> 1"
    using hs(2) by (induction hs) (auto simp: filter_empty_conv image_iff)
  moreover have "\<forall>x \<in> set ?cl. snd x = dec_nat (length body)"
    using fr by (auto simp: framed_def list_all_iff)
  ultimately have vals: "map snd ?cl \<in> {[], [dec_nat (length body)]}"
    by (cases ?cl) auto
  have "map snd ?cl \<noteq> []" if "body \<noteq> []"
    using fr that by (auto simp: framed_def list_ex_iff filter_empty_conv)
  moreover have find: "find_by_name Q (insert_all Q hs Headers_new) (latin1 ''Content-Length'') =
      map latin1 (rev (map snd ?cl))"
    by (simp only: find_insert_all [OF Q hs(1) ascii(2)] cl rev_map map_map)
  ultimately show "body \<noteq> [] \<Longrightarrow> find_by_name Q (insert_all Q hs Headers_new) (latin1 ''Content-Length'') =
      [latin1 (dec_nat (length body))]"
    and "body = [] \<Longrightarrow> find_by_name Q (insert_all Q hs Headers_new) (latin1 ''Content-Length'')
      \<in> {[], [latin1 (dec_nat 0)]}"
    using vals by auto
qed

lemma feed_request_head:
  assumes Q: "qt_laws Q" and line: "meth \<noteq> []" "list_all token_char meth"
      "list_all (\<lambda>c. text_char c \<and> c \<noteq> SP) ur" "maj < 2 ^ 31" "mnr < 2 ^ 31" and hs: "list_all field_ok hs"
  shows "\<exists>b' v'. \<forall>tail. feed Q (conf method_start r b v HttpMessage_new)
      (request_text meth ur maj mnr (map (\<lambda>(n, v). (canon_name n, v)) hs) tail) =
     feed Q (conf header_line_start r b' v' (request_of Q meth ur maj mnr hs [])) (CR # LF # tail)"
proof -
  let ?hs = "map (\<lambda>(n, v). (canon_name n, v)) hs" and ?m = "request_of Q meth ur maj mnr hs []"
  from hs have ok: "list_all field_ok ?hs" by (induction hs) (auto simp: field_ok_def)
  have line: "reads Q (conf method_start r b v HttpMessage_new)
      (meth @ [SP] @ ur @ [SP] @ ''HTTP/'' @ dec_nat maj @ ''.'' @ dec_nat mnr @ [CR, LF])
      (conf header_line_start r b v (request_of Q meth ur maj mnr [] []))"
    using reads_request_line [OF line, of Q r b v HttpMessage_new]
    by (simp add: request_of_def insert_all_def HttpMessage_new_def)
  have m: "msg_headers_update (insert_all Q ?hs) (request_of Q meth ur maj mnr [] []) = ?m"
    by (simp add: request_of_def HttpMessage_new_def insert_all_canon [OF Q hs]) (simp add: insert_all_def)
  obtain b' v' where block: "reads Q (conf header_line_start r b v (request_of Q meth ur maj mnr [] []))
      (concat (map (\<lambda>(n, v). header_line n v) ?hs)) (conf header_line_start r b' v' ?m)"
    using reads_header_block [OF ok, of Q r b v "request_of Q meth ur maj mnr [] []"] by (auto simp: m)
  show ?thesis
    unfolding request_text_def using reads_then [OF line] reads_then [OF block] by auto
qed

lemma request_of_simps [simp]:
  "msg_headers (request_of Q meth ur maj mnr hs body) = insert_all Q hs Headers_new"
  "msg_body (request_of Q meth ur maj mnr hs body) = body"
  "request_of Q meth ur maj mnr hs body\<lparr>msg_body := body'\<rparr> = request_of Q meth ur maj mnr hs body'"
  by (simp_all add: request_of_def)

lemma feed_request_text:
  assumes Q: "qt_laws Q" and wf: "wf_request meth ur maj mnr hs body" and room: "canReserve Q (length body)"
  shows "\<exists>k'. feed Q (conf method_start r b v HttpMessage_new)
      (request_text meth ur maj mnr (map (\<lambda>(n, v). (canon_name n, v)) hs) body) = Inr (Valid, k', []) \<and>
    message k' = request_of Q meth ur maj mnr hs body"
proof -
  let ?m = "request_of Q meth ur maj mnr hs []"
  from wf have len: "length body < 2 ^ 64" by (simp add: wf_request_def)
  from wf have "\<exists>b' v'. \<forall>tail. feed Q (conf method_start r b v HttpMessage_new)
      (request_text meth ur maj mnr (map (\<lambda>(n, v). (canon_name n, v)) hs) tail) =
     feed Q (conf header_line_start r b' v' ?m) (CR # LF # tail)"
    unfolding wf_request_def by (intro feed_request_head [OF Q]) simp_all
  then obtain b' v' where run: "\<And>tail. feed Q (conf method_start r b v HttpMessage_new)
      (request_text meth ur maj mnr (map (\<lambda>(n, v). (canon_name n, v)) hs) tail) =
     feed Q (conf header_line_start r b' v' ?m) (CR # LF # tail)" by blast
  show ?thesis
  proof (cases "body = []")
    case True
    then have "consume_blank_line Q (conf newline_3 r b' v' ?m) LF = Inr (Valid, conf newline_3 r b' v' ?m)"
      using framing_lookup(1,3) [OF Q wf] qt_toULongLong [OF Q, of 0] by (auto simp: consume_blank_line_def)
    then show ?thesis
      using run True by (simp add: feed_blank_line)
  next
    case False
    then show ?thesis
      using feed_sized_body [of Q ?m body "[]" r b' v' "[]"] framing_lookup(1,2) [OF Q wf] Q len room
      by (simp add: run)
  qed
qed

section \<open>Responses\<close>

text \<open>A response on the wire: status line, header lines, blank line, and whatever follows.\<close>

definition response_text ::
  "nat \<Rightarrow> nat \<Rightarrow> nat \<Rightarrow> bytes \<Rightarrow> (bytes \<times> bytes) list \<Rightarrow> bytes \<Rightarrow> bytes" where
  "response_text maj mnr code reason hs tail =
     (''HTTP/'' @ dec_nat maj @ ''.'' @ dec_nat mnr @ [SP] @ dec_nat code @ [SP] @ reason @ [CR, LF])
     @ concat (map (\<lambda>(n, v). header_line n v) hs) @ [CR, LF] @ tail"

definition response_of ::
  "qt \<Rightarrow> nat \<Rightarrow> nat \<Rightarrow> nat \<Rightarrow> bytes \<Rightarrow> (bytes \<times> bytes) list \<Rightarrow> bytes \<Rightarrow> Response" where
  "response_of Q maj mnr code reason hs body = HttpMessage_new\<lparr>msg_major_version := int maj,
     msg_minor_version := int mnr, msg_status_code := int code, msg_status_message := latin1 reason,
     msg_headers := insert_all Q hs Headers_new, msg_body := body\<rparr>"

definition wf_response :: "nat \<Rightarrow> nat \<Rightarrow> nat \<Rightarrow> bytes \<Rightarrow> (bytes \<times> bytes) list \<Rightarrow> bool" where
  "wf_response maj mnr code reason hs \<longleftrightarrow>
     maj < 2 ^ 31 \<and> mnr < 2 ^ 31 \<and> code < 2 ^ 31 \<and>
     reason \<noteq> [] \<and> list_all (\<lambda>c. ascii c \<and> c \<noteq> CR) reason \<and> list_all field_ok hs"

lemma find_field_values:
  assumes "qt_laws Q" "list_all field_ok hs" and n: "n \<in> {''Transfer-Encoding'', ''Content-Length''}"
  shows "find_by_name Q (insert_all Q hs Headers_new) (latin1 n) = rev (map latin1 (field_values n hs))"
proof -
  from n have "list_all ascii n \<and> canon_name n = n" by (elim insertE emptyE) (simp_all only:, code_simp+)
  with find_insert_all [OF assms(1,2), of n] show ?thesis by (simp add: field_values_def)
qed

lemma response_of_simps [simp]:
  "msg_headers (response_of Q maj mnr code reason hs body) = insert_all Q hs Headers_new"
  "msg_body (response_of Q maj mnr code reason hs body) = body"
  "response_of Q maj mnr code reason hs body\<lparr>msg_body := body'\<rparr> = response_of Q maj mnr code reason hs body'"
  by (simp_all add: response_of_def)

lemma feed_response_text:
  assumes Q: "qt_laws Q" and wf: "wf_response maj mnr code reason hs"
  shows "\<exists>b' v'. feed Q (conf response_start r b v HttpMessage_new) (response_text maj mnr code reason hs tail) =
     feed Q (conf header_line_start r b' v' (response_of Q maj mnr code reason hs [])) (CR # LF # tail)"
proof -
  let ?base = "HttpMessage_new\<lparr>msg_major_version := int maj, msg_minor_version := int mnr,
      msg_status_code := int code, msg_status_message := latin1 reason\<rparr>"
  from wf have line: "reads Q (conf response_start r b v HttpMessage_new)
      (''HTTP/'' @ dec_nat maj @ ''.'' @ dec_nat mnr @ [SP] @ dec_nat code @ [SP] @ reason @ [CR, LF])
      (conf header_line_start r reason v ?base)"
    by (intro reads_status_line [OF Q]) (simp_all add: wf_response_def)
  from wf have ok: "list_all field_ok hs" by (simp add: wf_response_def)
  have "msg_headers_update (insert_all Q hs) ?base = response_of Q maj mnr code reason hs []"
    by (simp add: response_of_def HttpMessage_new_def)
  with reads_header_block [OF ok, of Q r reason v ?base] obtain b' v' where
    block: "reads Q (conf header_line_start r reason v ?base) (concat (map (\<lambda>(n, v). header_line n v) hs))
      (conf header_line_start r b' v' (response_of Q maj mnr code reason hs []))" by auto
  show ?thesis
    unfolding response_text_def using reads_then [OF line] reads_then [OF block] by auto
qed

lemma start_request:
  "parse Q (erase \<lparr>parser = resetForRequest p, message = m, phase = ph\<rparr>) = feed Q (conf method_start 0 [] [] m)"
  by (cases p) (simp add: fun_eq_iff feed_def conf_def erase_def resetForRequest_def)

lemma start_response:
  "parse Q (erase \<lparr>parser = resetForResponse p, message = m, phase = ph\<rparr>) = feed Q (conf response_start 0 [] [] m)"
  by (cases p) (simp add: fun_eq_iff feed_def conf_def erase_def resetForResponse_def)

end
