(* ===== verification/ParserProps.thy ===== *)
theory ParserProps
  imports RoundTrip
begin

text \<open>
  The properties of the header collection, the parser and the request formatter, each with a witness
  on a concrete message where it has hypotheses.
\<close>

section \<open>Headers\<close>

text \<open>C19: looking a header up returns exactly the values inserted under any spelling of its name
  (names are compared without regard to ASCII case), the most recently inserted value first.\<close>

theorem header_lookup:
  assumes "qt_laws Q" and "list_all ascii n" and "list_all (\<lambda>(m, v). list_all ascii m) hs"
  shows "find_by_name Q (fold (\<lambda>(m, v). insert Q (latin1 m) v) hs Headers_new) (latin1 n) =
    rev (map snd (filter (\<lambda>(m, v). map ascii_lower m = map ascii_lower n) hs))"
proof -
  have "fold (\<lambda>(m, v). insert Q (latin1 m) v) hs = fold (\<lambda>(m, v). insert Q m v) (map (\<lambda>(m, v). (latin1 m, v)) hs)"
    by (simp add: fold_map comp_def case_prod_beta')
  moreover have "filter (\<lambda>(m, v). canonicalize Q m = canonicalize Q (latin1 n)) (map (\<lambda>(m, v). (latin1 m, v)) hs) =
      map (\<lambda>(m, v). (latin1 m, v)) (filter (\<lambda>(m, v). map ascii_lower m = map ascii_lower n) hs)"
    using assms by (induction hs) (auto simp: canon_ascii_eq_iff)
  ultimately show ?thesis
    by (auto simp: hdr.find_fold hdr.inv_new hdr.find_new)
qed

lemma header_lookup_witness:
  "find_by_name ascii_qt
     (fold (\<lambda>(m, v). insert ascii_qt (latin1 m) v)
       [(''accept'', latin1 ''a''), (''Host'', latin1 ''h''), (''ACCEPT'', latin1 ''b'')] Headers_new)
     (latin1 ''Accept'') = [latin1 ''b'', latin1 ''a'']"
proof -
  have "list_all ascii ''Accept''" and "list_all (\<lambda>(m, v). list_all ascii m)
      [(''accept'', latin1 ''a''), (''Host'', latin1 ''h''), (''ACCEPT'', latin1 ''b'')]"
    by (simp_all add: ascii_def)
  note header_lookup [OF ascii_qt_laws this]
  also have "rev (map snd (filter (\<lambda>(m, v). map ascii_lower m = map ascii_lower ''Accept'')
      [(''accept'', latin1 ''a''), (''Host'', latin1 ''h''), (''ACCEPT'', latin1 ''b'')])) =
    [latin1 ''b'', latin1 ''a'']"
    by code_simp
  finally show ?thesis .
qed

text \<open>After any sequence of insertions the list of names has no duplicates, names exactly the
  canonical forms of the inserted names, and the size counts every insertion.\<close>

theorem header_names:
  "let h = fold (\<lambda>(n, v). insert Q n v) kvs Headers_new
   in distinct (names h) \<and> set (names h) = (canonicalize Q \<circ> fst) ` set kvs \<and>
      Headers_size h = length kvs \<and> (Headers_empty h \<longleftrightarrow> kvs = [])"
proof -
  let ?h = "fold (\<lambda>(n, v). insert Q n v) kvs Headers_new"
  have "Headers_size ?h = length kvs"
    by (simp add: hdr.size_fold hdr.inv_new hdr.size_new)
  moreover from this have "Headers_empty ?h \<longleftrightarrow> kvs = []"
    by (auto simp: Headers_size_def Headers_empty_def)
  moreover have "set (names ?h) = (canonicalize Q \<circ> fst) ` set kvs"
    by (simp add: hdr.names_fold hdr.inv_new hdr.names_new)
  moreover have "distinct (names ?h)"
    by (intro hdr.names_distinct hdr.inv_fold hdr.inv_new)
  ultimately show ?thesis by (simp add: Let_def)
qed

section \<open>Incremental parsing\<close>

text \<open>C14: without a phase pointer, parsing does not depend on how the network splits the input: the
  verdict, the configuration and the unread rest of a concatenation are those of parsing the parts
  one after the other.\<close>

theorem parse_split:
  "parse Q (erase k) (xs @ ys) =
     (case parse Q (erase k) xs of
        Inl e \<Rightarrow> Inl e
      | Inr (st, k', rest) \<Rightarrow> if st = Incomplete then parse Q k' ys else Inr (st, k', rest @ ys))"
  using feed_append [of Q k xs ys]
  by (auto simp: feed_def split: sum.splits dest!: feed_erased [unfolded feed_def])

text \<open>C13: the transaction's loop around the pausing parser (call again while the phase changes) reads
  the same message, verdict and rest as one call that never pauses.\<close>

theorem read_loop_equals_parse:
  "(case read_loop Q k input of Inl e \<Rightarrow> Inl e | Inr (phs, st, k', rest) \<Rightarrow> Inr (st, erase k', rest)) =
   parse Q (erase k) input"
  using read_loop_feed [of Q k input] by (simp add: feed_def)

text \<open>C37: the phases the loop reports are strictly advancing steps, from the phase the caller holds,
  and when the loop asks for more data it has read the whole buffer.\<close>

theorem read_loop_reports:
  "case read_loop Q k input of
     Inl e \<Rightarrow> True
   | Inr (phs, st, k', rest) \<Rightarrow> phase_chain (phase k) phs \<and> (st = Incomplete \<longrightarrow> rest = [])"
  by (auto split: sum.splits dest: read_loop_phases read_loop_rest)

lemma read_loop_reports_witness:
  "\<exists>k'. read_loop ascii_qt \<lparr>parser = HttpMessageParser_new, message = HttpMessage_new, phase = Some Start\<rparr> ''GE'' =
      Inr ([], Incomplete, k', []) \<and> phase_chain (Some Start) []"
proof -
  let ?k = "\<lparr>parser = HttpMessageParser_new, message = HttpMessage_new, phase = Some Start\<rparr>"
  have "\<exists>k' rest. read_loop ascii_qt ?k ''GE'' = Inr ([], Incomplete, k', rest)"
    by (simp add: read_loop.simps parse_def consume_def HttpMessageParser_new_def TRANSIT_def transition_to_state_def
        bad_token_def is_char_def is_ctl_def is_tspecial_def char_int_def get_phase_for_state_transition_def)
  then obtain k' rest where r: "read_loop ascii_qt ?k ''GE'' = Inr ([], Incomplete, k', rest)" by blast
  with read_loop_reports [where Q = ascii_qt and k = ?k and input = "''GE''"] show ?thesis by simp
qed

text \<open>C36: where the parser ends the process. From any state with a case in the switch, an abnormal end is a chunk
  extension, a trailer, a version or status number that overflows an int, or the end of a header section whose
  \<open>Content-Length\<close> is more than can be reserved, at the byte that causes it; the states without a case are never
  entered. (Memory for single bytes is taken to be there.)\<close>

theorem parse_fatal:
  assumes "parser_inv k" and "parse Q (erase k) input = Inl e"
  shows "\<exists>used c rest j. input = used @ c # rest \<and> parse Q (erase k) used = Inr (Incomplete, j, []) \<and>
    expected_fatal Q (p_state (parser j)) (msg_headers (message j)) c e"
  using feed_fatal [of Q k input e] assms by (simp add: feed_def)

lemma parse_fatal_witness:
  "\<exists>used c rest j. ''5;x'' = used @ c # rest \<and>
     parse ascii_qt (erase (conf chunk_length_start 0 [] [] HttpMessage_new)) used = Inr (Incomplete, j, []) \<and>
     expected_fatal ascii_qt (p_state (parser j)) (msg_headers (message j)) c (QFatal ''extensions not implemented'')"
proof (rule parse_fatal)
  show "parser_inv (conf chunk_length_start 0 [] [] HttpMessage_new)"
    by (simp add: parser_inv_def)
  show "parse ascii_qt (erase (conf chunk_length_start 0 [] [] HttpMessage_new)) ''5;x'' =
      Inl (QFatal ''extensions not implemented'')"
    by (simp add: parse_def consume_def is_hex_def is_digit_def hex_value_def char_int_def)
qed

text \<open>What a fresh or reset parser has read keeps the parser in a state with a case in the switch,
  and a fixed-length entity is entered only with bytes left to read.\<close>

theorem parse_invariant:
  "case parse Q (erase \<lparr>parser = resetForRequest p, message = m, phase = None\<rparr>) input of
     Inr (Incomplete, k', rest) \<Rightarrow> parser_inv k'
   | _ \<Rightarrow> True"
proof -
  have "parser_inv \<lparr>parser = resetForRequest p, message = m, phase = None\<rparr>"
    by (simp add: parser_inv_def resetForRequest_def)
  then show ?thesis
    by (auto simp: feed_def [symmetric] split: sum.splits State.splits dest: feed_inv)
qed

section \<open>Round trips\<close>

text \<open>C5: what \<open>Request::format\<close> writes, the transaction's read loop reads back. For every request whose fields are proper
  lines, if what is written is a request at all (the joined fields have no transfer coding, and announce the length
  that the recoded body has), the loop consumes the text exactly, reports \<open>Valid\<close> and yields the same method, target
  and version, each field once with its values joined, the newest first, and the recoded body. This is the request
  itself when no field is repeated and the body is ASCII.\<close>

theorem format_parse_roundtrip:
  assumes "qt_laws Q" and "list_all field_ok hs" and "wf_request meth ur maj mnr (joined hs) (recoded Q body)"
    and "canReserve Q (length (recoded Q body))"
  shows "\<exists>phs k'. read_loop Q \<lparr>parser = resetForRequest p, message = HttpMessage_new, phase = ph\<rparr>
       (Request_format Q (request_of Q meth ur maj mnr hs body)) = Inr (phs, Valid, k', []) \<and>
     message k' = request_of Q meth ur maj mnr (joined hs) (recoded Q body) \<and>
     (distinct (map (canon_name \<circ> fst) hs) \<and> list_all ascii body \<longrightarrow> message k' = request_of Q meth ur maj mnr hs body)"
proof -
  let ?k = "\<lparr>parser = resetForRequest p, message = HttpMessage_new, phase = ph\<rparr>"
  let ?text = "Request_format Q (request_of Q meth ur maj mnr hs body)"
  have line: "?text = request_text meth ur maj mnr (map (\<lambda>(n, v). (canon_name n, v)) (joined hs)) (recoded Q body)"
    by (simp add: Request_format_joined [OF assms(1,2)] joined_canon [OF assms(2)])
  from line feed_request_text [OF assms(1,3,4), of 0 "[]" "[]"] obtain j where
    "feed Q ?k ?text = Inr (Valid, j, [])" "message j = request_of Q meth ur maj mnr (joined hs) (recoded Q body)"
    by (auto simp: feed_def [of Q ?k] start_request)
  moreover have "request_of Q meth ur maj mnr (joined hs) (recoded Q body) = request_of Q meth ur maj mnr hs body"
    if "distinct (map (canon_name \<circ> fst) hs)" "list_all ascii body"
    using insert_all_canon [OF assms(1,2)]
    by (simp add: joined_distinct [OF that(1)] recoded_ascii [OF assms(1) that(2)] request_of_def)
  ultimately show ?thesis
    using read_loop_feed [of Q ?k ?text] by (auto simp: transit split: sum.splits)
qed

text \<open>A request with a repeated field.\<close>

lemma format_parse_roundtrip_witness:
  "\<exists>phs k'. read_loop ascii_qt \<lparr>parser = resetForRequest HttpMessageParser_new, message = HttpMessage_new, phase = Some Start\<rparr>
       (Request_format ascii_qt (request_of ascii_qt ''POST'' ''http://a/b'' 1 1
          [(''accept'', ''x''), (''content-length'', ''3''), (''ACCEPT'', ''y'')] ''xyz'')) = Inr (phs, Valid, k', []) \<and>
     message k' = request_of ascii_qt ''POST'' ''http://a/b'' 1 1
          [(''Accept'', ''y, x''), (''Content-Length'', ''3'')] ''xyz''"
proof -
  let ?hs = "[(''accept'', ''x''), (''content-length'', ''3''), (''ACCEPT'', ''y'')]"
  let ?js = "[(''Accept'', ''y, x''), (''Content-Length'', ''3'')]"
  have j: "joined ?hs = ?js" by code_simp
  have ok: "list_all field_ok ?hs" by code_simp
  have "list_all token_char ''POST''" and "list_all (\<lambda>c. text_char c \<and> c \<noteq> SP) ''http://a/b''"
    and "list_all field_ok ?js" and "distinct (map (canon_name \<circ> fst) ?js)" and "framed ?js ''xyz''"
    by code_simp+
  then have wf: "wf_request ''POST'' ''http://a/b'' 1 1 ?js ''xyz''"
    by (simp only: wf_request_def) simp
  have b: "recoded ascii_qt ''xyz'' = ''xyz''" by (rule recoded_ascii [OF ascii_qt_laws]) (simp add: ascii_def)
  from format_parse_roundtrip [OF ascii_qt_laws ok, unfolded j, where body = "''xyz''" and p = HttpMessageParser_new and ph = "Some Start",
      unfolded b, OF wf]
  show ?thesis by (simp del: canon_ascii.simps) blast
qed

text \<open>A response is read as it was sent: status line, header lines, and the body announced by the
  last \<open>Content-Length\<close> line, unless a transfer coding is \<open>chunked\<close>; bytes after the body are left unread.\<close>

theorem response_read:
  assumes "qt_laws Q" and "wf_response maj mnr code reason hs"
    and "\<not> list_ex (is_chunked Q \<circ> latin1) (field_values ''Transfer-Encoding'' hs)"
    and "field_values ''Content-Length'' hs = vs @ [dec_nat (length body)]" and "length body < 2 ^ 64"
    and "canReserve Q (length body)"
  shows "\<exists>k'. parse Q (erase \<lparr>parser = resetForResponse p, message = HttpMessage_new, phase = ph\<rparr>)
      (response_text maj mnr code reason hs (body @ rest)) = Inr (Valid, k', rest) \<and>
    message k' = response_of Q maj mnr code reason hs body"
proof -
  from assms(2) have ok: "list_all field_ok hs" by (simp add: wf_response_def)
  obtain b v where run: "feed Q (conf response_start 0 [] [] HttpMessage_new)
      (response_text maj mnr code reason hs (body @ rest)) =
    feed Q (conf header_line_start 0 b v (response_of Q maj mnr code reason hs [])) (CR # LF # body @ rest)"
    using feed_response_text [OF assms(1,2)] by blast
  have te: "\<not> list_ex (is_chunked Q) (find_by_name Q (msg_headers (response_of Q maj mnr code reason hs []))
      (latin1 ''Transfer-Encoding''))"
    using assms(3) find_field_values [OF assms(1) ok, of "''Transfer-Encoding''"]
    by (simp add: list_ex_iff del: latin1_simps)
  show ?thesis
    unfolding start_response run
    using te feed_sized_body [of Q "response_of Q maj mnr code reason hs []" body "rev (map latin1 vs)" 0 b v rest] assms
      find_field_values [OF assms(1) ok, of "''Content-Length''"]
    by simp
qed

lemma response_read_witness:
  "\<exists>k'. parse ascii_qt (erase \<lparr>parser = resetForResponse HttpMessageParser_new, message = HttpMessage_new, phase = None\<rparr>)
      (response_text 1 1 200 ''OK'' [(''content-LENGTH'', ''2'')] (''hi'' @ ''HTTP'')) = Inr (Valid, k', ''HTTP'') \<and>
    message k' = response_of ascii_qt 1 1 200 ''OK'' [(''content-LENGTH'', ''2'')] ''hi''"
proof (rule response_read [OF ascii_qt_laws])
  have "list_all (\<lambda>c. ascii c \<and> c \<noteq> CR) ''OK''" and "list_all field_ok [(''content-LENGTH'', ''2'')]"
    by code_simp+
  then show "wf_response 1 1 200 ''OK'' [(''content-LENGTH'', ''2'')]"
    by (simp only: wf_response_def) simp
  show "\<not> list_ex (is_chunked ascii_qt \<circ> latin1) (field_values ''Transfer-Encoding'' [(''content-LENGTH'', ''2'')])"
    and "field_values ''Content-Length'' [(''content-LENGTH'', ''2'')] = [] @ [dec_nat (length ''hi'')]"
    by code_simp+
qed simp_all

text \<open>A response in the chunked coding is decoded: the body is the concatenation of the chunks,
  whose size field counts modulo \<open>2 ^ 64\<close>, and bytes after the last chunk are left unread. The coding
  wins over any \<open>Content-Length\<close>.\<close>

theorem chunked_response_read:
  assumes "qt_laws Q" and "wf_response maj mnr code reason hs"
    and "list_ex (is_chunked Q \<circ> latin1) (field_values ''Transfer-Encoding'' hs)"
    and "list_all chunk_ok cs" and "ds \<noteq> []" "list_all is_hex_char ds" "hex_nat 0 ds mod 2 ^ 64 = 0"
  shows "\<exists>k'. parse Q (erase \<lparr>parser = resetForResponse p, message = HttpMessage_new, phase = ph\<rparr>)
      (response_text maj mnr code reason hs (concat (map encode_chunk cs) @ ds @ [CR, LF, CR, LF] @ rest)) =
      Inr (Valid, k', rest) \<and>
    message k' = response_of Q maj mnr code reason hs (concat (map snd cs))"
proof -
  from assms(2) have ok: "list_all field_ok hs" by (simp add: wf_response_def)
  have te: "list_ex (is_chunked Q) (find_by_name Q (msg_headers (response_of Q maj mnr code reason hs []))
      (latin1 ''Transfer-Encoding''))"
    using assms(3) find_field_values [OF assms(1) ok, of "''Transfer-Encoding''"]
    by (simp add: list_ex_iff del: latin1_simps)
  obtain b v where run: "feed Q (conf response_start 0 [] [] HttpMessage_new)
      (response_text maj mnr code reason hs (concat (map encode_chunk cs) @ ds @ [CR, LF, CR, LF] @ rest)) =
    feed Q (conf header_line_start 0 b v (response_of Q maj mnr code reason hs []))
      (CR # LF # concat (map encode_chunk cs) @ ds @ [CR, LF, CR, LF] @ rest)"
    using feed_response_text [OF assms(1,2)] by blast
  show ?thesis
    unfolding start_response run using feed_chunked_body [OF te assms(4-7)] by (simp del: append.simps)
qed

lemma chunked_response_read_witness:
  "\<exists>k'. parse ascii_qt (erase \<lparr>parser = resetForResponse HttpMessageParser_new, message = HttpMessage_new, phase = None\<rparr>)
      (response_text 1 1 200 ''OK'' [(''transfer-encoding'', ''gzip, chunked'')]
        (concat (map encode_chunk [(''3'', ''abc''), (''10000000000000002'', ''de'')]) @ ''0'' @ [CR, LF, CR, LF] @ ''x'')) =
      Inr (Valid, k', ''x'') \<and>
    message k' = response_of ascii_qt 1 1 200 ''OK'' [(''transfer-encoding'', ''gzip, chunked'')]
      (concat (map snd [(''3'', ''abc''), (''10000000000000002'', ''de'')]))"
proof (rule chunked_response_read [OF ascii_qt_laws])
  have "list_all (\<lambda>c. ascii c \<and> c \<noteq> CR) ''OK''" and "list_all field_ok [(''transfer-encoding'', ''gzip, chunked'')]"
    by code_simp+
  then show "wf_response 1 1 200 ''OK'' [(''transfer-encoding'', ''gzip, chunked'')]"
    by (simp only: wf_response_def) simp
  show "list_ex (is_chunked ascii_qt \<circ> latin1)
      (field_values ''Transfer-Encoding'' [(''transfer-encoding'', ''gzip, chunked'')])"
    by code_simp
  show "list_all chunk_ok [(''3'', ''abc''), (''10000000000000002'', ''de'')]"
    by (simp add: chunk_ok_def hex_digit_def hex_value_def is_hex_def is_digit_def char_int_def)
  show "list_all is_hex_char ''0''" by code_simp
  show "hex_nat 0 ''0'' mod 2 ^ 64 = 0" by (simp add: hex_digit_def hex_value_def is_digit_def char_int_def)
qed simp

end
