(* ===== verification/MessageProps.thy ===== *)
theory MessageProps
  imports RoundTrip
begin

text \<open>
  Properties of messages at the edges of the parser and the formatter: bodies without a framing field,
  bodies cut short, folded header lines, repeated fields, dechunked requests, and the persistence of
  a client connection.
\<close>

section \<open>Framing\<close>

text \<open>A response without a framing field is complete at its blank line: the body is empty and all
  bytes that follow (for HTTP the body, up to the end of the connection) stay unread.\<close>

theorem close_delimited_body_dropped:
  assumes "qt_laws Q" and "wf_response maj mnr code reason hs"
    and "field_values ''Transfer-Encoding'' hs = []" and "field_values ''Content-Length'' hs = []"
  shows "\<exists>k'. parse Q (erase \<lparr>parser = resetForResponse p, message = HttpMessage_new, phase = ph\<rparr>)
      (response_text maj mnr code reason hs tail) = Inr (Valid, k', tail) \<and>
    message k' = response_of Q maj mnr code reason hs []"
proof -
  from assms(2) have ok: "list_all field_ok hs" by (simp add: wf_response_def)
  obtain b v where run: "feed Q (conf response_start 0 [] [] HttpMessage_new)
      (response_text maj mnr code reason hs tail) =
    feed Q (conf header_line_start 0 b v (response_of Q maj mnr code reason hs [])) (CR # LF # tail)"
    using feed_response_text [OF assms(1,2)] by blast
  show ?thesis
    unfolding start_response run
    using assms(3,4) find_field_values [OF assms(1) ok, of "''Transfer-Encoding''"]
      find_field_values [OF assms(1) ok, of "''Content-Length''"]
    by (simp add: feed_blank_line consume_blank_line_def)
qed

lemma close_delimited_body_dropped_witness:
  "\<exists>k'. parse ascii_qt (erase \<lparr>parser = resetForResponse HttpMessageParser_new, message = HttpMessage_new, phase = None\<rparr>)
      (response_text 1 0 200 ''OK'' [(''Server'', ''s'')] ''body'') = Inr (Valid, k', ''body'') \<and>
    message k' = response_of ascii_qt 1 0 200 ''OK'' [(''Server'', ''s'')] []"
proof (rule close_delimited_body_dropped [OF ascii_qt_laws])
  have "list_all (\<lambda>c. ascii c \<and> c \<noteq> CR) ''OK''" and "list_all field_ok [(''Server'', ''s'')]"
    by code_simp+
  then show "wf_response 1 0 200 ''OK'' [(''Server'', ''s'')]"
    by (simp only: wf_response_def) simp
  show "field_values ''Transfer-Encoding'' [(''Server'', ''s'')] = []"
    and "field_values ''Content-Length'' [(''Server'', ''s'')] = []"
    by code_simp+
qed

text \<open>C39: a response whose body is cut short is not accepted: when its last \<open>Content-Length\<close> announces more bytes than have come,
  and memory for them can be reserved, the parser asks for more, and holds the head, the bytes it has and
  the exact number that is missing.\<close>

theorem short_body_waits:
  assumes "qt_laws Q" and "wf_response maj mnr code reason hs"
    and "field_values ''Transfer-Encoding'' hs = []"
    and "field_values ''Content-Length'' hs = vs @ [dec_nat n]" and "length body < n" and "n < 2 ^ 64"
    and "canReserve Q n"
  shows "\<exists>k'. parse Q (erase \<lparr>parser = resetForResponse p, message = HttpMessage_new, phase = ph\<rparr>)
      (response_text maj mnr code reason hs body) = Inr (Incomplete, k', []) \<and>
    message k' = response_of Q maj mnr code reason hs body \<and>
    p_state (parser k') = fixed_length_entity \<and> unat (p_remaining (parser k')) = n - length body"
proof -
  from assms(2) have ok: "list_all field_ok hs" by (simp add: wf_response_def)
  let ?m = "response_of Q maj mnr code reason hs []"
  obtain b v where run: "feed Q (conf response_start 0 [] [] HttpMessage_new)
      (response_text maj mnr code reason hs body) = feed Q (conf header_line_start 0 b v ?m) (CR # LF # body)"
    using feed_response_text [OF assms(1,2)] by blast
  from assms(5,6) have n: "0 < n" by simp
  from word_of_nat_0 [OF assms(6)] n have "(of_nat n :: 64 word) \<noteq> 0" by simp
  then have "consume_blank_line Q (conf newline_3 0 b v ?m) LF =
      Inr (Incomplete, conf fixed_length_entity (of_nat n) b v ?m)"
    using assms(3,4) qt_toULongLong [OF assms(1,6)] find_field_values [OF assms(1) ok, of "''Transfer-Encoding''"]
      find_field_values [OF assms(1) ok, of "''Content-Length''"] assms(6,7)
    by (simp add: consume_blank_line_def unat_of_nat take_bit_eq_mod)
  moreover have "unat (of_nat (n - length body) :: 64 word) = n - length body"
    using assms(6) by (simp add: unat_of_nat take_bit_eq_mod)
  ultimately show ?thesis
    unfolding start_response run
    using feed_fixed [OF n assms(6), of Q b v ?m body] assms(5) by (simp add: feed_blank_line)
qed

lemma short_body_waits_witness:
  "\<exists>k'. parse ascii_qt (erase \<lparr>parser = resetForResponse HttpMessageParser_new, message = HttpMessage_new, phase = None\<rparr>)
      (response_text 1 1 200 ''OK'' [(''Content-Length'', ''5'')] ''ab'') = Inr (Incomplete, k', []) \<and>
    message k' = response_of ascii_qt 1 1 200 ''OK'' [(''Content-Length'', ''5'')] ''ab'' \<and>
    p_state (parser k') = fixed_length_entity \<and> unat (p_remaining (parser k')) = 5 - length ''ab''"
proof (rule short_body_waits [OF ascii_qt_laws])
  have "list_all (\<lambda>c. ascii c \<and> c \<noteq> CR) ''OK''" and "list_all field_ok [(''Content-Length'', ''5'')]"
    by code_simp+
  then show "wf_response 1 1 200 ''OK'' [(''Content-Length'', ''5'')]"
    by (simp only: wf_response_def) simp
  show "field_values ''Transfer-Encoding'' [(''Content-Length'', ''5'')] = []"
    and "field_values ''Content-Length'' [(''Content-Length'', ''5'')] = [] @ [dec_nat 5]"
    by code_simp+
qed simp_all

section \<open>Header lines\<close>

text \<open>A folded header line is not joined to the field before it: its first byte is lost and the rest
  is stored as the value of a field whose name is empty.\<close>

theorem folded_line:
  assumes "\<not> Headers_empty (msg_headers m)" and "ws \<noteq> []" "set ws \<subseteq> {SP, HT}"
    and "c \<notin> {SP, HT}" "list_all text_char (c # val)"
  shows "parse Q (conf header_line_start r [] [] m) (ws @ c # val @ [CR, LF]) =
     Inr (Incomplete, conf header_line_start r [] []
       (msg_headers_update (insert Q (latin1 []) (latin1 val)) m), [])"
proof -
  have skip: "reads Q (conf header_lws r [] [] m) us (conf header_lws r [] [] m)" if "set us \<subseteq> {SP, HT}" for us
    using that by (induction us) (auto intro!: reads_Cons simp: consume_def)
  from assms(2) obtain w us where ws: "ws = w # us" by (cases ws) auto
  have "reads Q (conf header_line_start r [] [] m) [w] (conf header_lws r [] [] m)"
    using assms(1,3) ws by (intro reads_one) (auto simp: consume_def)
  moreover have "reads Q (conf header_lws r [] [] m) [c] (conf header_value r [] [] m)"
    using assms(4,5) by (intro reads_one) (auto simp: consume_def text_char_def char_class)
  moreover have "reads Q (conf header_value r [] [] m) val (conf header_value r [] val m)"
    using reads_header_value [of val Q r "[]" "[]" m] assms(5) by simp
  moreover have "reads Q (conf header_value r [] val m) [CR, LF] (conf header_line_start r [] []
      (msg_headers_update (insert Q (latin1 []) (latin1 val)) m))"
    by (intro reads_Cons) (auto simp: consume_def expect_def Let_def)
  ultimately have "reads Q (conf header_line_start r [] [] m) ([w] @ us @ [c] @ val @ [CR, LF])
      (conf header_line_start r [] [] (msg_headers_update (insert Q (latin1 []) (latin1 val)) m))"
    using assms(3) ws by (intro reads_append [OF _ reads_append [OF skip reads_append [OF _ reads_append]]]) auto
  then show ?thesis by (simp add: reads_def feed_def ws)
qed

lemma folded_line_witness:
  "parse ascii_qt (conf header_line_start 0 [] [] (add_header ascii_qt (latin1 ''A'') (latin1 ''b'') HttpMessage_new))
     ([HT] @ CHR ''x'' # ''yz'' @ [CR, LF]) =
   Inr (Incomplete, conf header_line_start 0 [] []
      (msg_headers_update (insert ascii_qt (latin1 []) (latin1 ''yz''))
        (add_header ascii_qt (latin1 ''A'') (latin1 ''b'') HttpMessage_new)), [])"
  by (rule folded_line)
    (simp_all add: add_header_def insert_def Let_def Headers_empty_def text_char_def is_ctl_def char_int_def)

text \<open>\<open>format\<close> joins the values of a repeated field with commas, the last received value first.\<close>

theorem repeated_field_format:
  assumes "qt_laws Q" and "list_all field_ok hs" and "list_all ascii n" "field_values (canon_name n) hs = v # vs"
  shows "toLatin1 Q (format_header Q (insert_all Q hs Headers_new) (latin1 n)) =
     n @ '': '' @ hd (rev (v # vs)) @ concat (map (\<lambda>w. '', '' @ w) (tl (rev (v # vs)))) @ [CR, LF]"
proof -
  have tail: "toLatin1 Q (format_values False (map latin1 ws)) = concat (map (\<lambda>w. '', '' @ w) ws)" for ws
    by (induction ws) simp_all
  have "toLatin1 Q (format_values True (map latin1 (w # ws))) = w @ concat (map (\<lambda>w. '', '' @ w) ws)" for w ws
    by (simp add: tail)
  then have all: "ws \<noteq> [] \<Longrightarrow> toLatin1 Q (format_values True (map latin1 ws)) =
      hd ws @ concat (map (\<lambda>w. '', '' @ w) (tl ws))" for ws
    by (cases ws) auto
  have "find_by_name Q (insert_all Q hs Headers_new) (latin1 n) = map latin1 (rev (v # vs))"
    using find_insert_all [OF assms(1-3)] assms(4) by (simp add: field_values_def flip: rev_map map_map)
  with all [of "rev (v # vs)"] show ?thesis
    by (simp add: format_header_def del: rev.simps)
qed

lemma repeated_field_format_witness:
  "toLatin1 ascii_qt (format_header ascii_qt
      (insert_all ascii_qt [(''Via'', ''a''), (''X'', ''1''), (''via'', ''b''), (''VIA'', ''c'')] Headers_new) (latin1 ''Via'')) =
   ''Via: c, b, a'' @ [CR, LF]"
proof -
  have "list_all field_ok [(''Via'', ''a''), (''X'', ''1''), (''via'', ''b''), (''VIA'', ''c'')]"
    and "list_all ascii ''Via''"
    and "field_values (canon_name ''Via'') [(''Via'', ''a''), (''X'', ''1''), (''via'', ''b''), (''VIA'', ''c'')] =
      ''a'' # [''b'', ''c'']"
    by code_simp+
  from repeated_field_format [OF ascii_qt_laws this] show ?thesis by simp
qed

section \<open>Requests\<close>

text \<open>A request received in the chunked coding is not a message when it is written again: \<open>format\<close>
  keeps the field and writes the decoded body, so a reader finds data where the size of a chunk must
  be and rejects the request at its first byte.\<close>

theorem dechunked_request_rejected:
  assumes Q: "qt_laws Q" and line: "meth \<noteq> []" "list_all token_char meth" "list_all (\<lambda>c. text_char c \<and> c \<noteq> SP) ur"
      "maj < 2 ^ 31" "mnr < 2 ^ 31"
    and hs: "list_all field_ok hs" "distinct (map (canon_name \<circ> fst) hs)"
      "list_ex (is_chunked Q \<circ> latin1) (field_values ''Transfer-Encoding'' hs)"
    and body: "list_all ascii (c # body)" "\<not> is_hex_char c"
  shows "\<exists>k'. parse Q (erase \<lparr>parser = resetForRequest p, message = HttpMessage_new, phase = ph\<rparr>)
      (Request_format Q (request_of Q meth ur maj mnr hs (c # body))) = Inr (Invalid, k', body)"
proof -
  let ?m = "request_of Q meth ur maj mnr hs []"
  obtain b v where run: "\<And>tail. feed Q (conf method_start 0 [] [] HttpMessage_new)
      (request_text meth ur maj mnr (map (\<lambda>(n, v). (canon_name n, v)) hs) tail) =
    feed Q (conf header_line_start 0 b v ?m) (CR # LF # tail)"
    using feed_request_head [OF Q line hs(1)] by blast
  have te: "list_ex (is_chunked Q) (find_by_name Q (msg_headers ?m) (latin1 ''Transfer-Encoding''))"
    using hs(3) find_field_values [OF Q hs(1), of "''Transfer-Encoding''"]
    by (simp add: list_ex_iff request_of_def del: latin1_simps)
  then have "consume_blank_line Q (conf newline_3 0 b v ?m) LF =
      Inr (Incomplete, conf chunk_length_start 0 b v (m'))"
    if "m' = ?m\<lparr>msg_body := []\<rparr>" for m'
    using that by (simp add: consume_blank_line_def)
  then show ?thesis
    unfolding start_request Request_format_text [OF Q hs(1,2) body(1)] run
    using body(2) by (simp add: feed_blank_line feed_Cons consume_def)
qed

lemma dechunked_request_rejected_witness:
  "\<exists>k'. parse ascii_qt (erase \<lparr>parser = resetForRequest HttpMessageParser_new, message = HttpMessage_new, phase = None\<rparr>)
      (Request_format ascii_qt (request_of ascii_qt ''PUT'' ''/x'' 1 1 [(''Transfer-Encoding'', ''chunked'')] (CHR ''z'' # ''ip''))) =
      Inr (Invalid, k', ''ip'')"
proof (rule dechunked_request_rejected [OF ascii_qt_laws])
  show "list_all token_char ''PUT''" and "list_all (\<lambda>c. text_char c \<and> c \<noteq> SP) ''/x''"
    and "list_all field_ok [(''Transfer-Encoding'', ''chunked'')]"
    and "distinct (map (canon_name \<circ> fst) [(''Transfer-Encoding'', ''chunked'')])"
    and "list_ex (is_chunked ascii_qt \<circ> latin1) (field_values ''Transfer-Encoding'' [(''Transfer-Encoding'', ''chunked'')])"
    and "list_all ascii ''zip''" and "\<not> is_hex_char CHR ''z''"
    by code_simp+
qed simp_all

text \<open>A client connection may be kept for the next request exactly when the request is not
  HTTP/1.0 and no \<open>Connection\<close> line, under any spelling of the name, has the value \<open>close\<close>.\<close>

theorem can_persist_iff:
  assumes "qt_laws Q" and "list_all field_ok hs"
  shows "can_persist Q (request_of Q meth ur maj mnr hs body) \<longleftrightarrow>
    \<not> (maj = 1 \<and> mnr = 0) \<and> ''close'' \<notin> set (field_values ''Connection'' hs)"
proof -
  have "list_all ascii ''Connection''" and cn: "canon_name ''Connection'' = ''Connection''" by code_simp+
  from find_insert_all [OF assms this(1)]
  have "find_by_name Q (insert_all Q hs Headers_new) (latin1 ''Connection'') =
      rev (map latin1 (field_values ''Connection'' hs))"
    unfolding cn by (simp only: field_values_def map_map)
  moreover have "latin1 ''close'' \<in> set (map latin1 xs) \<longleftrightarrow> ''close'' \<in> set xs" for xs
    by (auto simp: image_iff simp del: latin1_simps)
  ultimately show ?thesis
    by (simp add: can_persist_def request_of_def del: latin1_simps)
qed

lemma can_persist_iff_witness:
  "\<not> can_persist ascii_qt (request_of ascii_qt ''GET'' ''/'' 1 1 [(''connection'', ''close'')] [])"
proof -
  have "list_all field_ok [(''connection'', ''close'')]" by code_simp
  moreover have "''close'' \<in> set (field_values ''Connection'' [(''connection'', ''close'')])" by code_simp
  ultimately show ?thesis using can_persist_iff [OF ascii_qt_laws] by blast
qed

end
