(* ===== verification/Scanners.thy ===== *)
theory Scanners
  imports ParserBodies
begin

text \<open>
  What it takes to say which inputs the parser accepts: segments of the input with their texts, which compose,
  and the contracts of the states that collect bytes up to a delimiter or read a number. They are interpreted
  in \<open>Grammar\<close> for the states of the parser.
\<close>

section \<open>Acceptance\<close>

definition accepts :: "qt \<Rightarrow> cfg \<Rightarrow> bytes \<Rightarrow> HttpMessage \<Rightarrow> bytes \<Rightarrow> bool" where
  "accepts Q k input m rest \<longleftrightarrow> (\<exists>k'. feed Q k input = Inr (Valid, k', rest) \<and> message k' = m)"

lemma accepts_Nil [simp]: "\<not> accepts Q k [] m rest"
  by (simp add: accepts_def)

lemma accepts_Cons: "erase k = k \<Longrightarrow> accepts Q k (c # cs) m rest \<longleftrightarrow>
    (case consume Q k c of
       Inl e \<Rightarrow> False
     | Inr (st, k') \<Rightarrow> (case st of
           Incomplete \<Rightarrow> accepts Q k' cs m rest
         | Valid \<Rightarrow> message k' = m \<and> cs = rest
         | Invalid \<Rightarrow> False))"
  by (auto simp: accepts_def feed_Cons erase_def split: sum.splits State.splits)

definition refuses :: "qt \<Rightarrow> cfg \<Rightarrow> char \<Rightarrow> bool" where
  "refuses Q k c \<longleftrightarrow> (case consume Q k c of Inl e \<Rightarrow> True | Inr (st, k') \<Rightarrow> st = Invalid)"

lemma accepts_refused: "erase k = k \<Longrightarrow> refuses Q k c \<Longrightarrow> \<not> accepts Q k (c # cs) m rest"
  by (auto simp: accepts_Cons refuses_def split: sum.splits)

lemma accepts_step: "erase k = k \<Longrightarrow> consume Q k c = Inr (Incomplete, k') \<Longrightarrow> accepts Q k (c # cs) m rest = accepts Q k' cs m rest"
  by (simp add: accepts_Cons)

text \<open>
  A segment: from \<open>k\<close> the parser accepts an input exactly when it starts with the text of some data \<open>a\<close> that is
  \<open>ok\<close>, and the rest is accepted from \<open>follow a\<close>. Segments compose.
\<close>

definition scans :: "qt \<Rightarrow> cfg \<Rightarrow> ('a \<Rightarrow> bool) \<Rightarrow> ('a \<Rightarrow> bytes) \<Rightarrow> ('a \<Rightarrow> cfg) \<Rightarrow> bool" where
  "scans Q k ok text follow \<longleftrightarrow> (\<forall>input m rest. accepts Q k input m rest \<longleftrightarrow>
     (\<exists>a tail. ok a \<and> input = text a @ tail \<and> accepts Q (follow a) tail m rest))"

lemma scansI:
  "(\<And>input m rest. accepts Q k input m rest \<longleftrightarrow> (\<exists>a tail. ok a \<and> input = text a @ tail \<and> accepts Q (follow a) tail m rest)) \<Longrightarrow>
   scans Q k ok text follow"
  by (simp add: scans_def)

lemma scansD:
  "scans Q k ok text follow \<Longrightarrow>
   accepts Q k input m rest \<longleftrightarrow> (\<exists>a tail. ok a \<and> input = text a @ tail \<and> accepts Q (follow a) tail m rest)"
  by (simp add: scans_def)

lemma scans_cong:
  assumes "scans Q k ok text follow" "\<And>a. ok a = ok' a" "\<And>a. ok a \<Longrightarrow> text a = text' a" "\<And>a. ok a \<Longrightarrow> follow a = follow' a"
  shows "scans Q k ok' text' follow'"
proof -
  have "(\<exists>a tail. ok a \<and> input = text a @ tail \<and> accepts Q (follow a) tail m rest) \<longleftrightarrow>
      (\<exists>a tail. ok' a \<and> input = text' a @ tail \<and> accepts Q (follow' a) tail m rest)" for input m rest
    using assms(2-4) by metis
  with assms(1) show ?thesis by (simp add: scans_def)
qed

lemma scans_then:
  assumes "scans Q k ok1 text1 follow1" "\<And>a. ok1 a \<Longrightarrow> scans Q (follow1 a) (ok2 a) (text2 a) (follow2 a)"
  shows "scans Q k (\<lambda>(a, b). ok1 a \<and> ok2 a b) (\<lambda>(a, b). text1 a @ text2 a b) (\<lambda>(a, b). follow2 a b)"
proof (rule scansI)
  fix input m rest
  show "accepts Q k input m rest \<longleftrightarrow> (\<exists>ab tail. (case ab of (a, b) \<Rightarrow> ok1 a \<and> ok2 a b) \<and>
      input = (case ab of (a, b) \<Rightarrow> text1 a @ text2 a b) @ tail \<and> accepts Q (case ab of (a, b) \<Rightarrow> follow2 a b) tail m rest)"
    using scansD [OF assms(2)] by (auto simp: scansD [OF assms(1)]) blast+
qed

lemma scans_then_fixed:
  assumes "scans Q k ok text follow" "\<And>a. ok a \<Longrightarrow> scans Q (follow a) (\<lambda>u. True) (\<lambda>u :: unit. xs) (\<lambda>u. follow' a)"
  shows "scans Q k ok (\<lambda>a. text a @ xs) follow'"
proof (rule scansI)
  fix input m rest
  show "accepts Q k input m rest \<longleftrightarrow> (\<exists>a tail. ok a \<and> input = (text a @ xs) @ tail \<and> accepts Q (follow' a) tail m rest)"
    using scansD [OF assms(2)] by (auto simp: scansD [OF assms(1)])
qed

lemma scans_fixed_then:
  assumes "scans Q k (\<lambda>u. True) (\<lambda>u :: unit. xs) (\<lambda>u. k')" "scans Q k' ok text follow"
  shows "scans Q k ok (\<lambda>a. xs @ text a) follow"
  using assms by (auto simp: scans_def)

lemma scans_Nil: "scans Q k (\<lambda>u. True) (\<lambda>u :: unit. []) (\<lambda>u. k)"
  by (simp add: scans_def)

lemma scans_Cons:
  assumes "erase k = k" "consume Q k x = Inr (Incomplete, k')" "\<And>c. c \<noteq> x \<Longrightarrow> refuses Q k c"
    and "scans Q k' ok text follow"
  shows "scans Q k ok (\<lambda>a. x # text a) follow"
proof (rule scansI)
  fix input m rest
  have "accepts Q k input m rest \<longleftrightarrow> (\<exists>cs. input = x # cs \<and> accepts Q k' cs m rest)"
  proof (cases input)
    case (Cons c cs)
    then show ?thesis
      using accepts_step [OF assms(1,2)] accepts_refused [OF assms(1,3)] by (cases "c = x") auto
  qed simp
  then show "accepts Q k input m rest \<longleftrightarrow> (\<exists>a tail. ok a \<and> input = (x # text a) @ tail \<and> accepts Q (follow a) tail m rest)"
    by (auto simp: scansD [OF assms(4)])
qed

lemmas scans_one = scans_Cons [OF _ _ _ scans_Nil]

text \<open>
  The contract of a state that collects bytes up to a delimiter: \<open>k x\<close> is the state with \<open>x\<close> collected,
  \<open>good\<close> the bytes it takes, \<open>add\<close> what it does with them, and \<open>after x\<close> the state behind the delimiter.
\<close>

locale collector =
  fixes Q :: qt and k :: "'x \<Rightarrow> cfg" and good :: "char \<Rightarrow> bool" and add :: "'x \<Rightarrow> char \<Rightarrow> 'x"
    and stop :: char and after :: "'x \<Rightarrow> cfg"
  assumes erased: "erase (k x) = k x"
    and stops: "consume Q (k x) stop = Inr (Incomplete, after x)"
    and collects: "c \<noteq> stop \<Longrightarrow> good c \<Longrightarrow> consume Q (k x) c = Inr (Incomplete, k (add x c))"
    and others: "c \<noteq> stop \<Longrightarrow> \<not> good c \<Longrightarrow> refuses Q (k x) c"
    and not_stop: "\<not> good stop"
begin

lemma collect_Cons: "accepts Q (k x) (c # cs) m rest \<longleftrightarrow>
    (if c = stop then accepts Q (after x) cs m rest else good c \<and> accepts Q (k (add x c)) cs m rest)"
  by (cases "c = stop"; cases "good c")
    (simp_all add: accepts_step [OF erased stops] accepts_step [OF erased collects] accepts_refused [OF erased others])

lemma collect: "accepts Q (k x) input m rest \<longleftrightarrow>
    (\<exists>cs tail. input = cs @ stop # tail \<and> list_all good cs \<and> accepts Q (after (foldl add x cs)) tail m rest)"
proof (induction input arbitrary: x)
  case Nil
  then show ?case by simp
next
  case (Cons c input)
  show ?case
  proof (cases "c = stop")
    case True
    have "(\<exists>cs tail. c # input = cs @ stop # tail \<and> list_all good cs \<and> accepts Q (after (foldl add x cs)) tail m rest) \<longleftrightarrow>
        accepts Q (after x) input m rest"
      using not_stop True by (fastforce simp: Cons_eq_append_conv)
    with True show ?thesis by (simp add: collect_Cons)
  next
    case False
    then have "(\<exists>cs tail. c # input = cs @ stop # tail \<and> list_all good cs \<and> accepts Q (after (foldl add x cs)) tail m rest) \<longleftrightarrow>
        good c \<and> (\<exists>cs tail. input = cs @ stop # tail \<and> list_all good cs \<and> accepts Q (after (foldl add (add x c) cs)) tail m rest)"
      by (fastforce simp: Cons_eq_append_conv)
    with False Cons.IH [of "add x c"] show ?thesis by (simp add: collect_Cons)
  qed
qed

lemma scan: "scans Q (k x) (list_all good) (\<lambda>cs. cs @ [stop]) (\<lambda>cs. after (foldl add x cs))"
  by (rule scansI) (auto simp: collect)

end

lemma foldl_snoc [simp]: "foldl (\<lambda>x c. x @ [f c]) x cs = x @ map f cs"
  by (induction cs arbitrary: x) simp_all

text \<open>A number: a first digit in the state \<open>k0\<close>, the others in \<open>k\<close>, up to a delimiter.\<close>

definition number_ok :: "string \<Rightarrow> bool" where
  "number_ok ds \<longleftrightarrow> ds \<noteq> [] \<and> list_all ascii_digit ds \<and> dec_value 0 ds < 2 ^ 31"

locale number_scanner =
  fixes Q :: qt and k0 :: cfg and k :: "int \<Rightarrow> cfg" and stop :: char and after :: "int \<Rightarrow> cfg"
  assumes erased: "erase k0 = k0" "erase (k x) = k x"
    and starts: "consume Q k0 c = (if ascii_digit c then Inr (Incomplete, k (digit c)) else Inr (Invalid, k0))"
    and consumes: "consume Q (k x) c = (if c = stop then Inr (Incomplete, after x)
      else if ascii_digit c then (case int32 (x * 10 + digit c) of Inl e \<Rightarrow> Inl e | Inr y \<Rightarrow> Inr (Incomplete, k y))
      else Inr (Invalid, k x))"
    and not_stop: "\<not> ascii_digit stop"
begin

lemma digits: "a < 2 ^ 31 \<Longrightarrow> accepts Q (k (int a)) input m rest \<longleftrightarrow>
    (\<exists>ds tail. input = ds @ stop # tail \<and> list_all ascii_digit ds \<and> dec_value a ds < 2 ^ 31 \<and>
       accepts Q (after (int (dec_value a ds))) tail m rest)"
proof (induction input arbitrary: a)
  case Nil
  then show ?case by simp
next
  case (Cons c input)
  consider (stop) "c = stop" | (digit) "c \<noteq> stop" "ascii_digit c" | (other) "c \<noteq> stop" "\<not> ascii_digit c" by blast
  then show ?case
  proof cases
    case stop
    then show ?thesis
      using not_stop Cons.prems by (fastforce simp: accepts_Cons erased consumes Cons_eq_append_conv)
  next
    case digit
    let ?a = "a * 10 + digit_value c"
    have sum: "int a * 10 + HttpMessageParser.digit c = int ?a" by (simp add: digit_digit_value digit)
    have rhs: "(\<exists>ds tail. c # input = ds @ stop # tail \<and> list_all ascii_digit ds \<and> dec_value a ds < 2 ^ 31 \<and>
         accepts Q (after (int (dec_value a ds))) tail m rest) \<longleftrightarrow>
       (\<exists>ds tail. input = ds @ stop # tail \<and> list_all ascii_digit ds \<and> dec_value ?a ds < 2 ^ 31 \<and>
         accepts Q (after (int (dec_value ?a ds))) tail m rest)"
      using digit by (fastforce simp: Cons_eq_append_conv)
    show ?thesis
    proof (cases "?a < 2 ^ 31")
      case True
      then have "int32 (int ?a) = Inr (int ?a)" by (intro int32_Inr) simp_all
      then show ?thesis
        using Cons.IH [OF True] digit sum unfolding rhs by (simp add: accepts_Cons erased consumes del: of_nat_add of_nat_mult)
    next
      case False
      then have "\<not> dec_value ?a ds < 2 ^ 31" for ds using dec_value_mono [of ?a ds] by linarith
      moreover have "\<exists>e. int32 (int ?a) = Inl e" using False by (simp add: int32_def)
      ultimately show ?thesis
        using digit sum unfolding rhs by (auto simp: accepts_Cons erased consumes)
    qed
  next
    case other
    then show ?thesis by (fastforce simp: accepts_Cons erased consumes Cons_eq_append_conv)
  qed
qed

lemma digit_small: "ascii_digit c \<Longrightarrow> digit_value c < 10"
  by (auto simp: ascii_digit_def digit_value_def)

lemma scan_number: "scans Q k0 number_ok (\<lambda>ds. ds @ [stop]) (\<lambda>ds. after (int (dec_value 0 ds)))"
proof (rule scansI)
  fix input m rest
  show "accepts Q k0 input m rest \<longleftrightarrow> (\<exists>ds tail. number_ok ds \<and> input = (ds @ [stop]) @ tail \<and>
      accepts Q (after (int (dec_value 0 ds))) tail m rest)"
  proof (cases input)
    case Nil
    then show ?thesis by simp
  next
    case (Cons c cs)
    show ?thesis
    proof (cases "ascii_digit c")
      case True
      have "accepts Q k0 input m rest \<longleftrightarrow> accepts Q (k (int (digit_value c))) cs m rest"
        using Cons True by (simp add: accepts_Cons erased starts digit_digit_value)
      also have "\<dots> \<longleftrightarrow> (\<exists>ds tail. cs = ds @ stop # tail \<and> list_all ascii_digit ds \<and> dec_value (digit_value c) ds < 2 ^ 31 \<and>
          accepts Q (after (int (dec_value (digit_value c) ds))) tail m rest)"
        using digit_small [OF True] by (intro digits) simp
      also have "\<dots> \<longleftrightarrow> (\<exists>ds tail. number_ok ds \<and> input = (ds @ [stop]) @ tail \<and> accepts Q (after (int (dec_value 0 ds))) tail m rest)"
        using Cons True by (fastforce simp: number_ok_def Cons_eq_append_conv)
      finally show ?thesis .
    next
      case False
      then show ?thesis
        using Cons not_stop by (auto simp: accepts_Cons erased starts number_ok_def Cons_eq_append_conv)
    qed
  qed
qed

end

end
