(* ===== verification/Grammar.thy ===== *)
theory Grammar
  imports Scanners
begin

text \<open>
  The language the parser accepts, stated without states: a message is a start line, header items, a blank line
  and an entity. A syntax tree has a text and a meaning; the parser reports \<open>Valid\<close> exactly for the texts of
  well-formed trees, and the message it fills is their meaning. Numbers may have leading zeros, a header line
  may be folded, and bytes above 127 are text in targets and values, because the code has it so.
\<close>

section \<open>The start lines\<close>

lemma not_digits: "\<not> ascii_digit CR" "\<not> ascii_digit SP" "\<not> ascii_digit (CHR ''.'')"
  by (simp_all add: ascii_digit_def)

lemmas state_simps = not_digits is_char_ascii consume_def refuses_def expect_def char_class ascii_digit_iff more_digits_def
  token_char_def text_char_def

interpretation verb: collector Q "\<lambda>x. conf s_method r b v (w\<lparr>msg_method := x\<rparr>)" token_char "\<lambda>x c. x @ [qch c]" SP
    "\<lambda>x. conf s_uri r b v (w\<lparr>msg_method := x\<rparr>)" for Q r b v w
  by unfold_locales (auto simp: state_simps)

interpretation target: collector Q "\<lambda>x. conf s_uri r b v (w\<lparr>msg_uri := x\<rparr>)" "\<lambda>c. text_char c \<and> c \<noteq> SP" "\<lambda>x c. x @ [qch c]" SP
    "\<lambda>x. conf http_version_h r b v (w\<lparr>msg_uri := x\<rparr>)" for Q r b v w
  by unfold_locales (auto simp: state_simps)

interpretation major: number_scanner Q "conf http_version_major_start r b v w"
    "\<lambda>x. conf http_version_major r b v (w\<lparr>msg_major_version := x\<rparr>)" "CHR ''.''"
    "\<lambda>x. conf http_version_minor_start r b v (w\<lparr>msg_major_version := x\<rparr>)" for Q r b v w
  by unfold_locales (auto simp: state_simps split: sum.splits)

interpretation minor: number_scanner Q "conf http_version_minor_start r b v w"
    "\<lambda>x. conf http_version_minor r b v (w\<lparr>msg_minor_version := x\<rparr>)" CR
    "\<lambda>x. conf newline_1 r b v (w\<lparr>msg_minor_version := x\<rparr>)" for Q r b v w
  by unfold_locales (auto simp: state_simps split: sum.splits)

interpretation status_major: number_scanner Q "conf response_major_version_start r b v w"
    "\<lambda>x. conf response_major_version r b v (w\<lparr>msg_major_version := x\<rparr>)" "CHR ''.''"
    "\<lambda>x. conf response_minor_version_start r b v (w\<lparr>msg_major_version := x\<rparr>)" for Q r b v w
  by unfold_locales (auto simp: state_simps split: sum.splits)

interpretation status_minor: number_scanner Q "conf response_minor_version_start r b v w"
    "\<lambda>x. conf response_minor_version r b v (w\<lparr>msg_minor_version := x\<rparr>)" SP
    "\<lambda>x. conf response_status_code_start r b v (w\<lparr>msg_minor_version := x\<rparr>)" for Q r b v w
  by unfold_locales (auto simp: state_simps split: sum.splits)

interpretation status_code: number_scanner Q "conf response_status_code_start r b v w"
    "\<lambda>x. conf response_status_code r b v (w\<lparr>msg_status_code := x\<rparr>)" SP
    "\<lambda>x. conf response_status_message_start r b v (w\<lparr>msg_status_code := x\<rparr>)" for Q r b v w
  by unfold_locales (auto simp: state_simps split: sum.splits)

interpretation reason: collector Q "\<lambda>x. conf response_status_message r x v w" "\<lambda>c. ascii c \<and> c \<noteq> CR" "\<lambda>x c. x @ [c]" CR
    "\<lambda>x. conf response_newline r x v (w\<lparr>msg_status_message := fromUtf8 Q x\<rparr>)" for Q r v w
  by unfold_locales (auto simp: state_simps ascii_def)

lemma append_updates:
  "msg_method_update (\<lambda>s. s @ x) w = w\<lparr>msg_method := msg_method w @ x\<rparr>"
  "msg_uri_update (\<lambda>s. s @ x) w = w\<lparr>msg_uri := msg_uri w @ x\<rparr>"
  "msg_body_update (\<lambda>s. s @ y) w = w\<lparr>msg_body := msg_body w @ y\<rparr>"
  by (cases w; simp)+

lemma scan_method:
  "scans Q (conf method_start r b v w) (\<lambda>meth. meth \<noteq> [] \<and> list_all token_char meth) (\<lambda>meth. meth @ [SP])
     (\<lambda>meth. conf s_uri r b v (w\<lparr>msg_method := msg_method w @ latin1 meth\<rparr>))"
proof (rule scansI)
  fix input m rest
  show "accepts Q (conf method_start r b v w) input m rest \<longleftrightarrow>
    (\<exists>meth tail. (meth \<noteq> [] \<and> list_all token_char meth) \<and> input = (meth @ [SP]) @ tail \<and>
       accepts Q (conf s_uri r b v (w\<lparr>msg_method := msg_method w @ latin1 meth\<rparr>)) tail m rest)"
  proof (cases input)
    case (Cons c cs)
    have "accepts Q (conf method_start r b v w) input m rest \<longleftrightarrow>
        token_char c \<and> accepts Q (conf s_method r b v (w\<lparr>msg_method := msg_method w @ [qch c]\<rparr>)) cs m rest"
      using Cons by (simp add: accepts_Cons state_simps append_updates)
    also have "\<dots> \<longleftrightarrow> (\<exists>meth tail. (meth \<noteq> [] \<and> list_all token_char meth) \<and> input = (meth @ [SP]) @ tail \<and>
        accepts Q (conf s_uri r b v (w\<lparr>msg_method := msg_method w @ latin1 meth\<rparr>)) tail m rest)"
      using Cons by (fastforce simp: scansD [OF verb.scan] Cons_eq_append_conv latin1_def)
    finally show ?thesis .
  qed simp
qed

type_synonym request_line = "string \<times> string \<times> string \<times> string"

fun request_line_ok :: "request_line \<Rightarrow> bool" where
  "request_line_ok (meth, ur, maj, mnr) \<longleftrightarrow> meth \<noteq> [] \<and> list_all token_char meth \<and>
     list_all (\<lambda>c. text_char c \<and> c \<noteq> SP) ur \<and> number_ok maj \<and> number_ok mnr"

fun request_line_text :: "request_line \<Rightarrow> bytes" where
  "request_line_text (meth, ur, maj, mnr) = meth @ [SP] @ ur @ [SP] @ ''HTTP/'' @ maj @ ''.'' @ mnr @ [CR, LF]"

fun put_request_line :: "request_line \<Rightarrow> HttpMessage \<Rightarrow> HttpMessage" where
  "put_request_line (meth, ur, maj, mnr) w = w\<lparr>msg_method := msg_method w @ latin1 meth, msg_uri := msg_uri w @ latin1 ur,
     msg_major_version := int (dec_value 0 maj), msg_minor_version := int (dec_value 0 mnr)\<rparr>"

lemma scan_target:
  "scans Q (conf s_uri r b v w) (list_all (\<lambda>c. text_char c \<and> c \<noteq> SP)) (\<lambda>ur. ur @ [SP])
     (\<lambda>ur. conf http_version_h r b v (w\<lparr>msg_uri := msg_uri w @ latin1 ur\<rparr>))"
  using target.scan [where w = w and x = "msg_uri w"] by (simp add: latin1_def)

lemma scan_http_slash:
  "scans Q (conf http_version_h r b v w) (\<lambda>u. True) (\<lambda>u :: unit. ''HTTP/'')
     (\<lambda>u. conf http_version_major_start r b v (w\<lparr>msg_major_version := 0, msg_minor_version := 0\<rparr>))"
  by (rule scans_Cons scans_Nil | simp add: state_simps)+

lemma scan_newline_1: "scans Q (conf newline_1 r b v w) (\<lambda>u. True) (\<lambda>u :: unit. [LF]) (\<lambda>u. conf header_line_start r b v w)"
  by (rule scans_Cons scans_Nil | simp add: state_simps)+

lemma scan_request_line:
  "scans Q (conf method_start r b v w) request_line_ok request_line_text (\<lambda>l. conf header_line_start r b v (put_request_line l w))"
proof (rule scans_cong [OF scans_then [OF scan_method scans_then [OF scan_target
      scans_fixed_then [OF scan_http_slash scans_then [OF major.scan_number scans_then_fixed [OF minor.scan_number scan_newline_1]]]]]])
qed auto

text \<open>The reason phrase has a first byte of its own, which may even be a carriage return.\<close>

type_synonym status_line = "string \<times> string \<times> string \<times> char \<times> string"

fun status_line_ok :: "status_line \<Rightarrow> bool" where
  "status_line_ok (maj, mnr, code, c, cs) \<longleftrightarrow> number_ok maj \<and> number_ok mnr \<and> number_ok code \<and> ascii c \<and>
     list_all (\<lambda>c. ascii c \<and> c \<noteq> CR) cs"

fun status_line_text :: "status_line \<Rightarrow> bytes" where
  "status_line_text (maj, mnr, code, c, cs) = ''HTTP/'' @ maj @ ''.'' @ mnr @ [SP] @ code @ [SP] @ c # cs @ [CR, LF]"

fun put_status_line :: "qt \<Rightarrow> status_line \<Rightarrow> HttpMessage \<Rightarrow> HttpMessage" where
  "put_status_line Q (maj, mnr, code, c, cs) w = w\<lparr>msg_major_version := int (dec_value 0 maj),
     msg_minor_version := int (dec_value 0 mnr), msg_status_code := int (dec_value 0 code),
     msg_status_message := fromUtf8 Q (c # cs)\<rparr>"

lemma scan_first_reason:
  "scans Q (conf response_status_message_start r b v w) ascii (\<lambda>c. [c]) (\<lambda>c. conf response_status_message r [c] v w)"
proof (rule scansI)
  fix input m rest
  show "accepts Q (conf response_status_message_start r b v w) input m rest \<longleftrightarrow>
    (\<exists>c tail. ascii c \<and> input = [c] @ tail \<and> accepts Q (conf response_status_message r [c] v w) tail m rest)"
    by (cases input) (simp_all add: accepts_Cons state_simps)
qed

lemma scan_response_http_slash:
  "scans Q (conf response_start r b v w) (\<lambda>u. True) (\<lambda>u :: unit. ''HTTP/'') (\<lambda>u. conf response_major_version_start r b v w)"
  by (rule scans_Cons scans_Nil | simp add: state_simps)+

lemma scan_response_newline:
  "scans Q (conf response_newline r b v w) (\<lambda>u. True) (\<lambda>u :: unit. [LF]) (\<lambda>u. conf header_line_start r b v w)"
  by (rule scans_Cons scans_Nil | simp add: state_simps)+

lemma scan_status_line:
  "scans Q (conf response_start r b v w) status_line_ok status_line_text
     (\<lambda>(maj, mnr, code, c, cs). conf header_line_start r (c # cs) v (put_status_line Q (maj, mnr, code, c, cs) w))"
proof (rule scans_cong [OF scans_fixed_then [OF scan_response_http_slash
      scans_then [OF status_major.scan_number scans_then [OF status_minor.scan_number
        scans_then [OF status_code.scan_number scans_then [OF scan_first_reason
          scans_then_fixed [OF reason.scan scan_response_newline]]]]]]])
qed auto

section \<open>Header items\<close>

text \<open>
  A field; or a folded line, which starts with blanks and must follow a field. A folded line of blanks is skipped. Of
  another one the first byte after the blanks is lost, and the rest is inserted under an empty name.
\<close>

datatype header_item = Field string string | BlankFold string | Fold string char string

definition blank :: "char \<Rightarrow> bool" where
  "blank c \<longleftrightarrow> c = SP \<or> c = HT"

fun item_ok :: "header_item \<Rightarrow> bool" where
  "item_ok (Field n x) \<longleftrightarrow> n \<noteq> [] \<and> list_all token_char n \<and> list_all text_char x"
| "item_ok (BlankFold bs) \<longleftrightarrow> bs \<noteq> [] \<and> list_all blank bs"
| "item_ok (Fold bs c x) \<longleftrightarrow> bs \<noteq> [] \<and> list_all blank bs \<and> text_char c \<and> \<not> blank c \<and> list_all text_char x"

fun item_text :: "header_item \<Rightarrow> bytes" where
  "item_text (Field n x) = header_line n x"
| "item_text (BlankFold bs) = bs @ [CR, LF]"
| "item_text (Fold bs c x) = bs @ c # x @ [CR, LF]"

fun put_item :: "qt \<Rightarrow> header_item \<Rightarrow> Headers \<Rightarrow> Headers" where
  "put_item Q (Field n x) = insert Q (latin1 n) (latin1 x)"
| "put_item Q (BlankFold bs) = id"
| "put_item Q (Fold bs c x) = insert Q [] (latin1 x)"

fun is_field :: "header_item \<Rightarrow> bool" where
  "is_field (Field n x) = True"
| "is_field _ = False"

interpretation name: collector Q "\<lambda>x. conf header_name r x v w" token_char "\<lambda>x c. x @ [c]" "CHR '':''"
    "\<lambda>x. conf header_space r x v w" for Q r v w
  by unfold_locales (auto simp: state_simps)

interpretation contents: collector Q "\<lambda>x. conf header_value r n x w" text_char "\<lambda>x c. x @ [c]" CR
    "\<lambda>x. conf newline_2 r [] [] (msg_headers_update (insert Q (latin1 n) (latin1 x)) w)" for Q r n w
  by unfold_locales (auto simp: state_simps Let_def)

lemma scan_header_space:
  "scans Q (conf header_space r b v w) (\<lambda>u. True) (\<lambda>u :: unit. [SP]) (\<lambda>u. conf header_value r b [] w)"
  by (rule scans_Cons scans_Nil | simp add: state_simps)+

lemma scan_newline_2:
  "scans Q (conf newline_2 r b v w) (\<lambda>u. True) (\<lambda>u :: unit. [LF]) (\<lambda>u. conf header_line_start r b v w)"
  by (rule scans_Cons scans_Nil | simp add: state_simps)+

text \<open>The rest of a field behind the first byte of its name, and the rest of a folded line.\<close>

lemma scan_field_tail:
  "scans Q (conf header_name r b v w) (\<lambda>(n, x). list_all token_char n \<and> list_all text_char x)
     (\<lambda>(n, x). n @ '': '' @ x @ [CR, LF])
     (\<lambda>(n, x). conf header_line_start r [] [] (msg_headers_update (insert Q (latin1 (b @ n)) (latin1 x)) w))"
proof (rule scans_cong [OF scans_then [OF name.scan scans_fixed_then [OF scan_header_space
      scans_then_fixed [OF contents.scan scan_newline_2]]]])
qed auto

lemma scan_value:
  "scans Q (conf header_value r b [] w) (list_all text_char) (\<lambda>x. x @ [CR, LF])
     (\<lambda>x. conf header_line_start r [] [] (msg_headers_update (insert Q (latin1 b) (latin1 x)) w))"
proof (rule scans_cong [OF scans_then_fixed [OF contents.scan scan_newline_2]])
qed auto

lemma blanks [simp]: "blank SP" "blank HT" "\<not> blank CR" "\<not> text_char HT" "\<not> text_char CR"
  by (simp_all add: blank_def text_char_def is_ctl_def char_int_def)

lemma lws_steps:
  "consume Q (conf header_lws r b v w) CR = Inr (Incomplete, conf newline_2 r b v w)"
  "blank c \<Longrightarrow> consume Q (conf header_lws r b v w) c = Inr (Incomplete, conf header_lws r b v w)"
  "\<not> blank c \<Longrightarrow> text_char c \<Longrightarrow> consume Q (conf header_lws r b v w) c = Inr (Incomplete, conf header_value r b v w)"
  "\<not> blank c \<Longrightarrow> c \<noteq> CR \<Longrightarrow> \<not> text_char c \<Longrightarrow> refuses Q (conf header_lws r b v w) c"
  using blanks(5) by (auto simp: state_simps blank_def)

lemma cut_at_first:
  assumes "\<not> good x"
  shows "(\<exists>bs tail. list_all good bs \<and> x # xs = bs @ x # tail \<and> P tail) \<longleftrightarrow> P xs"
proof
  assume "\<exists>bs tail. list_all good bs \<and> x # xs = bs @ x # tail \<and> P tail"
  then obtain bs tail where "list_all good bs" "x # xs = bs @ x # tail" "P tail" by blast
  with assms show "P xs" by (cases bs) auto
next
  assume "P xs"
  then show "\<exists>bs tail. list_all good bs \<and> x # xs = bs @ x # tail \<and> P tail" by (intro exI [of _ "[]"] exI [of _ xs]) simp
qed

lemma split_later:
  assumes "good c" "c \<noteq> y"
  shows "(\<exists>bs tail. list_all good bs \<and> c # xs = bs @ y # tail \<and> P tail) \<longleftrightarrow>
    (\<exists>bs tail. list_all good bs \<and> xs = bs @ y # tail \<and> P tail)"
proof
  assume "\<exists>bs tail. list_all good bs \<and> c # xs = bs @ y # tail \<and> P tail"
  then obtain bs tail where "list_all good bs" "c # xs = bs @ y # tail" "P tail" by blast
  with assms(2) show "\<exists>bs tail. list_all good bs \<and> xs = bs @ y # tail \<and> P tail"
    by (cases bs) (auto intro: exI [of _ "tl bs"])
next
  assume "\<exists>bs tail. list_all good bs \<and> xs = bs @ y # tail \<and> P tail"
  then obtain bs tail where "list_all good bs" "xs = bs @ y # tail" "P tail" by blast
  with assms(1) show "\<exists>bs tail. list_all good bs \<and> c # xs = bs @ y # tail \<and> P tail"
    by (intro exI [of _ "c # bs"] exI [of _ tail]) simp
qed

lemma accepts_lws:
  "accepts Q (conf header_lws r b v w) input m rest \<longleftrightarrow>
     (\<exists>bs tail. list_all blank bs \<and> input = bs @ CR # tail \<and> accepts Q (conf newline_2 r b v w) tail m rest) \<or>
     (\<exists>bs c tail. list_all blank bs \<and> text_char c \<and> \<not> blank c \<and> input = bs @ c # tail \<and>
        accepts Q (conf header_value r b v w) tail m rest)"
proof (induction input)
  case Nil
  then show ?case by simp
next
  case (Cons c input)
  consider "c = CR" | "blank c" "c \<noteq> CR" | "\<not> blank c" "text_char c" "c \<noteq> CR" | "\<not> blank c" "c \<noteq> CR" "\<not> text_char c" by blast
  then show ?case
  proof cases
    case 1
    then have "accepts Q (conf header_lws r b v w) (c # input) m rest = accepts Q (conf newline_2 r b v w) input m rest"
      using lws_steps(1) by (intro accepts_step) simp_all
    moreover have "(\<exists>bs tail. list_all blank bs \<and> c # input = bs @ CR # tail \<and> accepts Q (conf newline_2 r b v w) tail m rest) \<longleftrightarrow>
        accepts Q (conf newline_2 r b v w) input m rest"
      unfolding 1 by (rule cut_at_first) simp
    moreover have "\<not> (\<exists>bs d tail. list_all blank bs \<and> text_char d \<and> \<not> blank d \<and> c # input = bs @ d # tail \<and>
        accepts Q (conf header_value r b v w) tail m rest)"
      using 1 by (auto simp: Cons_eq_append_conv)
    ultimately show ?thesis by blast
  next
    case 2
    then have "accepts Q (conf header_lws r b v w) (c # input) m rest = accepts Q (conf header_lws r b v w) input m rest"
      by (intro accepts_step lws_steps) simp_all
    moreover have "(\<exists>bs tail. list_all blank bs \<and> c # input = bs @ CR # tail \<and> accepts Q (conf newline_2 r b v w) tail m rest) \<longleftrightarrow>
        (\<exists>bs tail. list_all blank bs \<and> input = bs @ CR # tail \<and> accepts Q (conf newline_2 r b v w) tail m rest)"
      using 2 by (rule split_later)
    moreover have "(\<exists>bs tail. list_all blank bs \<and> c # input = bs @ d # tail \<and> accepts Q (conf header_value r b v w) tail m rest) \<longleftrightarrow>
        (\<exists>bs tail. list_all blank bs \<and> input = bs @ d # tail \<and> accepts Q (conf header_value r b v w) tail m rest)"
      if "\<not> blank d" for d using 2(1) that by (intro split_later) auto
    ultimately show ?thesis unfolding Cons.IH by blast
  next
    case 3
    then have "accepts Q (conf header_lws r b v w) (c # input) m rest = accepts Q (conf header_value r b v w) input m rest"
      by (intro accepts_step lws_steps) simp_all
    moreover have none: "bs = []" if "list_all blank bs" "c # input = bs @ xs" for bs xs
      using 3(1) that by (cases bs) auto
    then have "\<not> (\<exists>bs tail. list_all blank bs \<and> c # input = bs @ CR # tail \<and> accepts Q (conf newline_2 r b v w) tail m rest)"
      using 3(3) by fastforce
    moreover have "(\<exists>bs d tail. list_all blank bs \<and> text_char d \<and> \<not> blank d \<and> c # input = bs @ d # tail \<and>
        accepts Q (conf header_value r b v w) tail m rest) \<longleftrightarrow> accepts Q (conf header_value r b v w) input m rest"
    proof
      show "accepts Q (conf header_value r b v w) input m rest" if "\<exists>bs d tail. list_all blank bs \<and> text_char d \<and> \<not> blank d \<and>
          c # input = bs @ d # tail \<and> accepts Q (conf header_value r b v w) tail m rest"
        using that none by fastforce
    qed (use 3 in \<open>fastforce intro: exI [of _ "[]"]\<close>)
    ultimately show ?thesis by blast
  next
    case 4
    then have "\<not> accepts Q (conf header_lws r b v w) (c # input) m rest"
      by (intro accepts_refused lws_steps) simp_all
    then show ?thesis using 4 by (auto simp: Cons_eq_append_conv)
  qed
qed

lemma ex_item: "(\<exists>i. P i) \<longleftrightarrow> (\<exists>n x. P (Field n x)) \<or> (\<exists>bs. P (BlankFold bs)) \<or> (\<exists>bs c x. P (Fold bs c x))"
  by (metis header_item.exhaust)

text \<open>A line of the header section: the carriage return of the blank line, or an item.\<close>

lemma line_steps:
  "consume Q (conf header_line_start r b v w) CR = Inr (Incomplete, conf newline_3 r b v w)"
  "token_char c \<Longrightarrow> consume Q (conf header_line_start r b v w) c = Inr (Incomplete, conf header_name r [c] v w)"
  "blank c \<Longrightarrow> \<not> Headers_empty (msg_headers w) \<Longrightarrow>
     consume Q (conf header_line_start r b v w) c = Inr (Incomplete, conf header_lws r b v w)"
  "c \<noteq> CR \<Longrightarrow> \<not> token_char c \<Longrightarrow> \<not> (blank c \<and> \<not> Headers_empty (msg_headers w)) \<Longrightarrow> refuses Q (conf header_line_start r b v w) c"
  by (auto simp: state_simps blank_def)

lemma not_token: "blank c \<Longrightarrow> \<not> token_char c" "\<not> token_char CR" "\<not> text_char LF"
  by (auto simp: blank_def state_simps)

lemma item_start:
  "token_char c \<Longrightarrow> item_ok i \<and> c # cs = item_text i @ tail \<longleftrightarrow>
     (\<exists>n x. i = Field (c # n) x \<and> list_all token_char n \<and> list_all text_char x \<and> cs = (n @ '': '' @ x @ [CR, LF]) @ tail)"
  "blank c \<Longrightarrow> item_ok i \<and> c # cs = item_text i @ tail \<longleftrightarrow>
     (\<exists>bs. i = BlankFold (c # bs) \<and> list_all blank bs \<and> cs = bs @ [CR, LF] @ tail) \<or>
     (\<exists>bs d x. i = Fold (c # bs) d x \<and> list_all blank bs \<and> text_char d \<and> \<not> blank d \<and> list_all text_char x \<and>
        cs = bs @ d # (x @ [CR, LF]) @ tail)"
  using not_token by (cases i; auto simp: header_line_def Cons_eq_append_conv)+

lemma accepts_line:
  assumes "Headers_empty (msg_headers w) \<or> b = [] \<and> v = []"
  shows "accepts Q (conf header_line_start r b v w) input m rest \<longleftrightarrow>
     (\<exists>tail. input = CR # tail \<and> accepts Q (conf newline_3 r b v w) tail m rest) \<or>
     (\<exists>i tail. item_ok i \<and> (is_field i \<or> \<not> Headers_empty (msg_headers w)) \<and> input = item_text i @ tail \<and>
        accepts Q (conf header_line_start r [] [] (msg_headers_update (put_item Q i) w)) tail m rest)"
    (is "_ \<longleftrightarrow> ?blank \<or> ?item")
proof (cases input)
  case Nil
  then show ?thesis by (auto simp: ex_item header_line_def)
next
  case (Cons c cs)
  consider (cr) "c = CR" | (token) "token_char c" "c \<noteq> CR" | (fold) "blank c" "c \<noteq> CR" "\<not> Headers_empty (msg_headers w)"
    | (other) "c \<noteq> CR" "\<not> token_char c" "\<not> (blank c \<and> \<not> Headers_empty (msg_headers w))" by blast
  then show ?thesis
  proof cases
    case cr
    then have "\<not> ?item" using Cons not_token by (auto simp: ex_item header_line_def Cons_eq_append_conv)
    then show ?thesis using Cons cr accepts_step [OF _ line_steps(1)] by auto
  next
    case token
    have "accepts Q (conf header_line_start r b v w) input m rest = accepts Q (conf header_name r [c] v w) cs m rest"
      unfolding Cons using token by (intro accepts_step line_steps) simp_all
    also have "\<dots> \<longleftrightarrow> (\<exists>n x tail. list_all token_char n \<and> list_all text_char x \<and> cs = (n @ '': '' @ x @ [CR, LF]) @ tail \<and>
        accepts Q (conf header_line_start r [] [] (msg_headers_update (insert Q (latin1 (c # n)) (latin1 x)) w)) tail m rest)"
      by (auto simp: scansD [OF scan_field_tail])
    also have "\<dots> \<longleftrightarrow> (\<exists>i tail. (item_ok i \<and> c # cs = item_text i @ tail) \<and> (is_field i \<or> \<not> Headers_empty (msg_headers w)) \<and>
        accepts Q (conf header_line_start r [] [] (msg_headers_update (put_item Q i) w)) tail m rest)"
      unfolding item_start(1) [OF token(1)] by (auto simp del: latin1_simps) (metis is_field.simps(1) put_item.simps(1), blast+)
    also have "\<dots> \<longleftrightarrow> ?item" unfolding Cons by blast
    finally show ?thesis using Cons token by auto
  next
    case fold
    with assms have bv: "b = []" "v = []" by simp_all
    have m: "msg_headers_update id w = w" by (cases w) simp
    have "accepts Q (conf header_line_start r b v w) input m rest = accepts Q (conf header_lws r b v w) cs m rest"
      unfolding Cons using fold by (intro accepts_step line_steps) simp_all
    also have "\<dots> \<longleftrightarrow> (\<exists>i tail. (item_ok i \<and> c # cs = item_text i @ tail) \<and> (is_field i \<or> \<not> Headers_empty (msg_headers w)) \<and>
        accepts Q (conf header_line_start r [] [] (msg_headers_update (put_item Q i) w)) tail m rest)"
      unfolding item_start(2) [OF fold(1)] accepts_lws bv scansD [OF scan_newline_2] scansD [OF scan_value]
      using fold(3) by (fastforce simp: m)
    also have "\<dots> \<longleftrightarrow> ?item" unfolding Cons by blast
    finally show ?thesis using Cons fold by auto
  next
    case other
    then have "\<not> accepts Q (conf header_line_start r b v w) input m rest"
      unfolding Cons by (intro accepts_refused line_steps) simp_all
    moreover have "\<not> ?item" using Cons other by (auto simp: ex_item header_line_def Cons_eq_append_conv)
    ultimately show ?thesis using Cons other by auto
  qed
qed

section \<open>Entities\<close>

text \<open>The framing the header section asks for: what the blank line decides. \<open>BadLength\<close> admits no entity: the length is not
  a number, or more than can be reserved.\<close>

datatype framing = NoBody | BadLength | SizedBody nat | ChunkedBody

definition framing_of :: "qt \<Rightarrow> Headers \<Rightarrow> framing" where
  "framing_of Q h =
     (if list_ex (is_chunked Q) (find_by_name Q h (latin1 ''Transfer-Encoding'')) then ChunkedBody
      else case find_by_name Q h (latin1 ''Content-Length'') of
          [] \<Rightarrow> NoBody
        | x # _ \<Rightarrow> (case toULongLong Q x of
              None \<Rightarrow> BadLength
            | Some len \<Rightarrow> if len = 0 then NoBody else if canReserve Q (unat len) then SizedBody (unat len) else BadLength))"

datatype entity = NoEntity | Sized bytes | Chunked "(string \<times> bytes) list" string

fun entity_ok :: "framing \<Rightarrow> entity \<Rightarrow> bool" where
  "entity_ok f NoEntity \<longleftrightarrow> f = NoBody"
| "entity_ok f (Sized bs) \<longleftrightarrow> f = SizedBody (length bs)"
| "entity_ok f (Chunked cs ds) \<longleftrightarrow> f = ChunkedBody \<and> list_all chunk_ok cs \<and>
     ds \<noteq> [] \<and> list_all is_hex_char ds \<and> hex_nat 0 ds mod 2 ^ 64 = 0"

fun entity_text :: "entity \<Rightarrow> bytes" where
  "entity_text NoEntity = []"
| "entity_text (Sized bs) = bs"
| "entity_text (Chunked cs ds) = concat (map encode_chunk cs) @ ds @ [CR, LF, CR, LF]"

fun entity_body :: "entity \<Rightarrow> bytes" where
  "entity_body NoEntity = []"
| "entity_body (Sized bs) = bs"
| "entity_body (Chunked cs ds) = concat (map snd cs)"

lemma accepts_fixed:
  assumes "0 < n" "n < 2 ^ 64"
  shows "accepts Q (conf fixed_length_entity (of_nat n) b v w) input m rest \<longleftrightarrow>
    (\<exists>bs. length bs = n \<and> input = bs @ rest \<and> m = w\<lparr>msg_body := msg_body w @ bs\<rparr>)"
proof
  assume "accepts Q (conf fixed_length_entity (of_nat n) b v w) input m rest"
  then show "\<exists>bs. length bs = n \<and> input = bs @ rest \<and> m = w\<lparr>msg_body := msg_body w @ bs\<rparr>"
    by (intro exI [of _ "take n input"]) (auto simp: accepts_def feed_fixed [OF assms] split: if_splits)
next
  assume "\<exists>bs. length bs = n \<and> input = bs @ rest \<and> m = w\<lparr>msg_body := msg_body w @ bs\<rparr>"
  then show "accepts Q (conf fixed_length_entity (of_nat n) b v w) input m rest"
    by (auto simp: accepts_def feed_fixed [OF assms])
qed

interpretation size: collector Q "\<lambda>x. conf chunk_length x b v w" is_hex_char "\<lambda>x c. x * 16 + of_nat (hex_digit c)" CR
    "\<lambda>x. conf chunk_length_newline x b v w" for Q b v w
  by unfold_locales (auto simp: state_simps hex_value_digit)

lemma foldl_hex: "foldl (\<lambda>x c. x * 16 + of_nat (hex_digit c)) (of_nat a :: 64 word) cs = of_nat (hex_nat a cs)"
proof (induction cs arbitrary: a)
  case (Cons c cs)
  have "(of_nat a :: 64 word) * 16 + of_nat (hex_digit c) = of_nat (a * 16 + hex_digit c)" by simp
  with Cons.IH [of "a * 16 + hex_digit c"] show ?case by (simp del: of_nat_add of_nat_mult)
qed simp

text \<open>The size line of a chunk, and the bytes of a chunk.\<close>

lemma scan_size:
  "scans Q (conf chunk_length_start r b v w) (\<lambda>ds. ds \<noteq> [] \<and> list_all is_hex_char ds) (\<lambda>ds. ds @ [CR])
     (\<lambda>ds. conf chunk_length_newline (of_nat (hex_nat 0 ds)) b v w)"
proof (rule scansI)
  fix input m rest
  show "accepts Q (conf chunk_length_start r b v w) input m rest \<longleftrightarrow>
    (\<exists>ds tail. (ds \<noteq> [] \<and> list_all is_hex_char ds) \<and> input = (ds @ [CR]) @ tail \<and>
       accepts Q (conf chunk_length_newline (of_nat (hex_nat 0 ds)) b v w) tail m rest)"
  proof (cases input)
    case (Cons c cs)
    have "accepts Q (conf chunk_length_start r b v w) input m rest \<longleftrightarrow>
        is_hex_char c \<and> accepts Q (conf chunk_length (of_nat (hex_digit c)) b v w) cs m rest"
      using Cons by (simp add: accepts_Cons consume_def hex_value_digit)
    also have "\<dots> \<longleftrightarrow> (\<exists>ds tail. (ds \<noteq> [] \<and> list_all is_hex_char ds) \<and> input = (ds @ [CR]) @ tail \<and>
        accepts Q (conf chunk_length_newline (of_nat (hex_nat 0 ds)) b v w) tail m rest)"
      using Cons not_hex_CR by (fastforce simp: scansD [OF size.scan] foldl_hex Cons_eq_append_conv)
    finally show ?thesis .
  qed simp
qed

lemma accepts_chunk_data:
  "n < 2 ^ 64 \<Longrightarrow> accepts Q (conf s_chunk (of_nat n) b v w) input m rest \<longleftrightarrow>
     (\<exists>bs tail. length bs = n \<and> input = bs @ CR # LF # tail \<and>
        accepts Q (conf chunk_length_start 0 b v (w\<lparr>msg_body := msg_body w @ bs\<rparr>)) tail m rest)"
proof (induction n arbitrary: input w)
  case 0
  have "scans Q (conf s_chunk 0 b v w) (\<lambda>u. True) (\<lambda>u :: unit. [CR, LF]) (\<lambda>u. conf chunk_length_start 0 b v w)"
    by (rule scans_Cons scans_Nil | simp add: state_simps)+
  from scansD [OF this] show ?case by simp
next
  case (Suc n)
  then have nz: "(of_nat (Suc n) :: 64 word) \<noteq> 0" using word_of_nat_0 [of "Suc n"] by simp
  have pred: "(of_nat (Suc n) :: 64 word) - 1 = of_nat n" by simp
  show ?case
  proof (cases input)
    case (Cons c cs)
    have "accepts Q (conf s_chunk (of_nat (Suc n)) b v w) input m rest =
        accepts Q (conf s_chunk (of_nat n) b v (w\<lparr>msg_body := msg_body w @ [c]\<rparr>)) cs m rest"
      unfolding Cons using nz pred by (intro accepts_step) (simp_all add: consume_def append_updates del: of_nat_Suc)
    also have "\<dots> \<longleftrightarrow> (\<exists>bs tail. length bs = n \<and> cs = bs @ CR # LF # tail \<and>
        accepts Q (conf chunk_length_start 0 b v (w\<lparr>msg_body := msg_body w @ c # bs\<rparr>)) tail m rest)"
      using Suc by simp
    also have "\<dots> \<longleftrightarrow> (\<exists>bs tail. length bs = Suc n \<and> input = bs @ CR # LF # tail \<and>
        accepts Q (conf chunk_length_start 0 b v (w\<lparr>msg_body := msg_body w @ bs\<rparr>)) tail m rest)"
      unfolding Cons by (auto simp: length_Suc_conv) (metis append_Cons)
    finally show ?thesis .
  qed simp
qed

text \<open>The chunks up to the one of size zero.\<close>

lemma accepts_chunk:
  "accepts Q (conf chunk_length_start r b v w) input m rest \<longleftrightarrow>
     (\<exists>ds. ds \<noteq> [] \<and> list_all is_hex_char ds \<and> hex_nat 0 ds mod 2 ^ 64 = 0 \<and> input = ds @ [CR, LF, CR, LF] @ rest \<and> m = w) \<or>
     (\<exists>ds bs tail. chunk_ok (ds, bs) \<and> input = encode_chunk (ds, bs) @ tail \<and>
        accepts Q (conf chunk_length_start 0 b v (w\<lparr>msg_body := msg_body w @ bs\<rparr>)) tail m rest)"
proof -
  have newline: "accepts Q (conf chunk_length_newline (of_nat n) b v w) tail m rest \<longleftrightarrow>
      (n mod 2 ^ 64 = 0 \<and> tail = [LF, CR, LF] @ rest \<and> m = w) \<or>
      (\<exists>bs tail'. bs \<noteq> [] \<and> length bs = n mod 2 ^ 64 \<and> tail = LF # bs @ [CR, LF] @ tail' \<and>
         accepts Q (conf chunk_length_start 0 b v (w\<lparr>msg_body := msg_body w @ bs\<rparr>)) tail' m rest)" for n tail
  proof (cases "n mod 2 ^ 64 = 0")
    case True
    then have zero: "(of_nat n :: 64 word) = 0" by (simp only: of_nat_mod_word [of n]) simp
    have "scans Q (conf chunk_length_newline 0 b v w) (\<lambda>u. True) (\<lambda>u :: unit. [LF, CR]) (\<lambda>u. conf chunk_terminating_newline 0 b v w)"
      by (rule scans_Cons scans_Nil | simp add: state_simps)+
    moreover have "accepts Q (conf chunk_terminating_newline 0 b v w) tail m rest \<longleftrightarrow> tail = LF # rest \<and> m = w" for tail
      by (cases tail) (auto simp: accepts_Cons consume_def)
    ultimately show ?thesis using True by (auto simp: zero scansD)
  next
    case False
    let ?n = "n mod 2 ^ 64"
    have n: "(of_nat n :: 64 word) = of_nat ?n" by (rule of_nat_mod_word)
    have lt: "?n < 2 ^ 64" by simp
    have data: "accepts Q (conf s_chunk (of_nat n) b v w) tail m rest \<longleftrightarrow> (\<exists>bs tail'. length bs = ?n \<and> tail = bs @ CR # LF # tail' \<and>
        accepts Q (conf chunk_length_start 0 b v (w\<lparr>msg_body := msg_body w @ bs\<rparr>)) tail' m rest)" for tail
      by (subst n) (rule accepts_chunk_data [OF lt])
    have "(of_nat n :: 64 word) > 0" using word_of_nat_0 [OF lt] False n by (simp add: word_neq_0_conv)
    then have "scans Q (conf chunk_length_newline (of_nat n) b v w) (\<lambda>u. True) (\<lambda>u :: unit. [LF]) (\<lambda>u. conf s_chunk (of_nat n) b v w)"
      by (intro scans_Cons [OF _ _ _ scans_Nil]) (simp_all add: consume_def refuses_def)
    moreover have "bs \<noteq> []" if "length bs = ?n" for bs :: bytes using False that by (metis list.size(3))
    ultimately show ?thesis
      using False unfolding scansD [OF \<open>scans Q _ _ _ _\<close>] data by fastforce
  qed
  have last: "(\<exists>ds tail. (ds \<noteq> [] \<and> list_all is_hex_char ds) \<and> input = (ds @ [CR]) @ tail \<and>
        hex_nat 0 ds mod 2 ^ 64 = 0 \<and> tail = [LF, CR, LF] @ rest \<and> m = w) \<longleftrightarrow>
      (\<exists>ds. ds \<noteq> [] \<and> list_all is_hex_char ds \<and> hex_nat 0 ds mod 2 ^ 64 = 0 \<and> input = ds @ [CR, LF, CR, LF] @ rest \<and> m = w)"
    by auto
  have one: "(\<exists>ds tail. (ds \<noteq> [] \<and> list_all is_hex_char ds) \<and> input = (ds @ [CR]) @ tail \<and>
        (\<exists>bs tail'. bs \<noteq> [] \<and> length bs = hex_nat 0 ds mod 2 ^ 64 \<and> tail = LF # bs @ [CR, LF] @ tail' \<and>
           accepts Q (conf chunk_length_start 0 b v (w\<lparr>msg_body := msg_body w @ bs\<rparr>)) tail' m rest)) \<longleftrightarrow>
      (\<exists>ds bs tail. chunk_ok (ds, bs) \<and> input = encode_chunk (ds, bs) @ tail \<and>
        accepts Q (conf chunk_length_start 0 b v (w\<lparr>msg_body := msg_body w @ bs\<rparr>)) tail m rest)" (is "?l \<longleftrightarrow> ?r")
  proof
    assume ?l
    then obtain ds bs tail' where *: "ds \<noteq> []" "list_all is_hex_char ds" "bs \<noteq> []" "length bs = hex_nat 0 ds mod 2 ^ 64"
        "input = (ds @ [CR]) @ LF # bs @ [CR, LF] @ tail'"
        "accepts Q (conf chunk_length_start 0 b v (w\<lparr>msg_body := msg_body w @ bs\<rparr>)) tail' m rest" by blast
    moreover have "length bs < 2 ^ 64" unfolding *(4) by simp
    ultimately have "chunk_ok (ds, bs) \<and> input = encode_chunk (ds, bs) @ tail'"
      by (simp add: chunk_ok_def encode_chunk_def)
    with *(6) show ?r by blast
  next
    assume ?r
    then obtain ds bs tail where *: "chunk_ok (ds, bs)" "input = encode_chunk (ds, bs) @ tail"
        "accepts Q (conf chunk_length_start 0 b v (w\<lparr>msg_body := msg_body w @ bs\<rparr>)) tail m rest" by blast
    then have "input = (ds @ [CR]) @ LF # bs @ [CR, LF] @ tail" by (simp add: encode_chunk_def)
    moreover from *(1) have "ds \<noteq> []" "list_all is_hex_char ds" "bs \<noteq> []" "length bs = hex_nat 0 ds mod 2 ^ 64"
      by (simp_all add: chunk_ok_def)
    ultimately show ?l using *(3) by blast
  qed
  have "accepts Q (conf chunk_length_start r b v w) input m rest \<longleftrightarrow>
      (\<exists>ds tail. (ds \<noteq> [] \<and> list_all is_hex_char ds) \<and> input = (ds @ [CR]) @ tail \<and>
         accepts Q (conf chunk_length_newline (of_nat (hex_nat 0 ds)) b v w) tail m rest)"
    by (rule scansD [OF scan_size])
  then show ?thesis
    by (simp only: newline conj_disj_distribL ex_disj_distrib last one)
qed

lemma accepts_chunks:
  "accepts Q (conf chunk_length_start r b v w) input m rest \<longleftrightarrow>
     (\<exists>cs ds. entity_ok ChunkedBody (Chunked cs ds) \<and> input = entity_text (Chunked cs ds) @ rest \<and>
        m = w\<lparr>msg_body := msg_body w @ concat (map snd cs)\<rparr>)"
proof (induction "length input" arbitrary: input r w rule: less_induct)
  case less
  have IH: "accepts Q (conf chunk_length_start 0 b v (w\<lparr>msg_body := msg_body w @ bs\<rparr>)) tail m rest \<longleftrightarrow>
      (\<exists>cs es. entity_ok ChunkedBody (Chunked cs es) \<and> tail = entity_text (Chunked cs es) @ rest \<and>
        m = w\<lparr>msg_body := msg_body w @ bs @ concat (map snd cs)\<rparr>)" if "input = encode_chunk (ds, bs) @ tail" for ds bs tail
    using less [of tail 0 "w\<lparr>msg_body := msg_body w @ bs\<rparr>"] that by (simp add: encode_chunk_def)
  have id: "w\<lparr>msg_body := msg_body w\<rparr> = w" by simp
  show ?case (is "_ = ?r")
  proof
    assume "accepts Q (conf chunk_length_start r b v w) input m rest"
    from iffD1 [OF accepts_chunk this] show ?r
    proof (elim disjE exE conjE)
      fix ds assume "ds \<noteq> []" "list_all is_hex_char ds" "hex_nat 0 ds mod 2 ^ 64 = 0" "input = ds @ [CR, LF, CR, LF] @ rest" "m = w"
      then show ?thesis by (intro exI [of _ "[]"] exI [of _ ds]) simp
    next
      fix ds bs tail assume *: "chunk_ok (ds, bs)" "input = encode_chunk (ds, bs) @ tail"
        "accepts Q (conf chunk_length_start 0 b v (w\<lparr>msg_body := msg_body w @ bs\<rparr>)) tail m rest"
      from iffD1 [OF IH [OF *(2)] *(3)] obtain cs es where "entity_ok ChunkedBody (Chunked cs es)"
          "tail = entity_text (Chunked cs es) @ rest" "m = w\<lparr>msg_body := msg_body w @ bs @ concat (map snd cs)\<rparr>" by blast
      with *(1,2) show ?thesis by (intro exI [of _ "(ds, bs) # cs"] exI [of _ es]) simp
    qed
  next
    assume ?r
    then obtain cs es where *: "entity_ok ChunkedBody (Chunked cs es)" "input = entity_text (Chunked cs es) @ rest"
        "m = w\<lparr>msg_body := msg_body w @ concat (map snd cs)\<rparr>" by blast
    show "accepts Q (conf chunk_length_start r b v w) input m rest"
    proof (cases cs)
      case Nil
      with * show ?thesis by (intro iffD2 [OF accepts_chunk] disjI1 exI [of _ es]) simp
    next
      case (Cons c cs')
      obtain ds bs where c: "c = (ds, bs)" by (cases c)
      let ?tail = "entity_text (Chunked cs' es) @ rest"
      from * Cons c have tail: "input = encode_chunk (ds, bs) @ ?tail" and "chunk_ok (ds, bs)" by simp_all
      moreover have "accepts Q (conf chunk_length_start 0 b v (w\<lparr>msg_body := msg_body w @ bs\<rparr>)) ?tail m rest"
        using * Cons c by (intro iffD2 [OF IH [OF tail]] exI [of _ cs'] exI [of _ es]) simp
      ultimately have "\<exists>ds bs tail. chunk_ok (ds, bs) \<and> input = encode_chunk (ds, bs) @ tail \<and>
          accepts Q (conf chunk_length_start 0 b v (w\<lparr>msg_body := msg_body w @ bs\<rparr>)) tail m rest" by blast
      then show ?thesis by (intro iffD2 [OF accepts_chunk] disjI2)
    qed
  qed
qed

lemma accepts_blank_line:
  assumes "msg_body w = []"
  shows "accepts Q (conf newline_3 r b v w) input m rest \<longleftrightarrow>
    (\<exists>e. entity_ok (framing_of Q (msg_headers w)) e \<and> input = LF # entity_text e @ rest \<and> m = w\<lparr>msg_body := entity_body e\<rparr>)"
proof (cases "\<exists>cs. input = LF # cs")
  case False
  then have "refuses Q (conf newline_3 r b v w) c" if "input = c # cs" for c cs
    using that by (simp add: consume_def refuses_def consume_blank_line_def)
  then have "\<not> accepts Q (conf newline_3 r b v w) input m rest" by (cases input) (auto simp: accepts_refused)
  with False show ?thesis by auto
next
  case True
  then obtain cs where cs: "input = LF # cs" by blast
  have id: "w\<lparr>msg_body := []\<rparr> = w" using assms by (cases w) simp
  have ex: "(\<exists>e. P e) \<longleftrightarrow> P NoEntity \<or> (\<exists>bs. P (Sized bs)) \<or> (\<exists>cs ds. P (Chunked cs ds))" for P
    by (metis entity.exhaust)
  show ?thesis
  proof (cases "framing_of Q (msg_headers w)")
    case NoBody
    then have "consume Q (conf newline_3 r b v w) LF = Inr (Valid, conf newline_3 r b v w)"
      by (auto simp: framing_of_def consume_def consume_blank_line_def split: if_splits list.splits option.splits)
    then show ?thesis using cs NoBody id by (auto simp: accepts_Cons ex)
  next
    case BadLength
    then have "refuses Q (conf newline_3 r b v w) LF"
      by (auto simp: framing_of_def consume_def consume_blank_line_def refuses_def split: if_splits list.splits option.splits)
    then show ?thesis using cs BadLength by (auto simp: accepts_refused ex)
  next
    case (SizedBody n)
    have lt: "unat len < 2 ^ 64" for len :: "64 word" using unsigned_less [of len] by simp
    from SizedBody have "consume Q (conf newline_3 r b v w) LF = Inr (Incomplete, conf fixed_length_entity (of_nat n) b v w) \<and> 0 < n \<and> n < 2 ^ 64"
      using id lt by (auto simp: framing_of_def consume_def consume_blank_line_def unat_gt_0
          split: if_splits list.splits option.splits)
    then show ?thesis using cs SizedBody assms by (auto simp: accepts_step accepts_fixed ex)
  next
    case ChunkedBody
    then have "consume Q (conf newline_3 r b v w) LF = Inr (Incomplete, conf chunk_length_start r b v w)"
      using id by (auto simp: framing_of_def consume_def consume_blank_line_def split: if_splits list.splits option.splits)
    then show ?thesis using cs ChunkedBody assms by (simp add: accepts_step accepts_chunks ex)
  qed
qed

section \<open>Header section and message\<close>

definition section_ok :: "header_item list \<Rightarrow> bool" where
  "section_ok items \<longleftrightarrow> list_all item_ok items \<and> (items = [] \<or> is_field (hd items))"

definition section_text :: "header_item list \<Rightarrow> bytes" where
  "section_text items = concat (map item_text items) @ [CR, LF]"

definition put_items :: "qt \<Rightarrow> header_item list \<Rightarrow> Headers \<Rightarrow> Headers" where
  "put_items Q = fold (put_item Q)"

lemma put_item_nonempty: "is_field i \<or> \<not> Headers_empty h \<Longrightarrow> \<not> Headers_empty (put_item Q i h)"
  by (cases i) (auto simp: Headers_empty_def insert_def Let_def)

lemma put_message_simps [simp]:
  "put_items Q [] h = h" "put_items Q (i # items) h = put_items Q items (put_item Q i h)"
  "w\<lparr>msg_headers := msg_headers w, msg_body := bs\<rparr> = w\<lparr>msg_body := bs\<rparr>"
  by (simp_all add: put_items_def)

lemma put_item_message: "msg_headers_update (put_item Q i) w = w\<lparr>msg_headers := put_item Q i (msg_headers w)\<rparr>"
  by (cases w) simp

lemma accepts_section:
  "msg_body w = [] \<Longrightarrow> Headers_empty (msg_headers w) \<or> b = [] \<and> v = [] \<Longrightarrow>
   accepts Q (conf header_line_start r b v w) input m rest \<longleftrightarrow>
     (\<exists>items e. list_all item_ok items \<and> (Headers_empty (msg_headers w) \<longrightarrow> items = [] \<or> is_field (hd items)) \<and>
        entity_ok (framing_of Q (put_items Q items (msg_headers w))) e \<and>
        input = section_text items @ entity_text e @ rest \<and>
        m = w\<lparr>msg_headers := put_items Q items (msg_headers w), msg_body := entity_body e\<rparr>)"
proof (induction "length input" arbitrary: input b v w rule: less_induct)
  case less
  let ?good = "\<lambda>w items e input. list_all item_ok items \<and> (Headers_empty (msg_headers w) \<longrightarrow> items = [] \<or> is_field (hd items)) \<and>
        entity_ok (framing_of Q (put_items Q items (msg_headers w))) e \<and>
        input = section_text items @ entity_text e @ rest \<and>
        m = w\<lparr>msg_headers := put_items Q items (msg_headers w), msg_body := entity_body e\<rparr>"
  have line: "accepts Q (conf header_line_start r b v w) input m rest \<longleftrightarrow>
      (\<exists>tail. input = CR # tail \<and> accepts Q (conf newline_3 r b v w) tail m rest) \<or>
      (\<exists>i tail. item_ok i \<and> (is_field i \<or> \<not> Headers_empty (msg_headers w)) \<and> input = item_text i @ tail \<and>
         accepts Q (conf header_line_start r [] [] (msg_headers_update (put_item Q i) w)) tail m rest)"
    using less.prems(2) by (rule accepts_line)
  have IH: "accepts Q (conf header_line_start r [] [] (msg_headers_update (put_item Q i) w)) tail m rest \<longleftrightarrow>
      (\<exists>items e. ?good (w\<lparr>msg_headers := put_item Q i (msg_headers w)\<rparr>) items e tail)" if "item_ok i" "input = item_text i @ tail" for i tail
  proof -
    from that have "length tail < length input" by (cases i) (auto simp: header_line_def)
    from less.hyps [OF this, of "w\<lparr>msg_headers := put_item Q i (msg_headers w)\<rparr>" "[]" "[]"] less.prems(1)
    show ?thesis unfolding put_item_message by simp
  qed
  show ?case
  proof
    assume "accepts Q (conf header_line_start r b v w) input m rest"
    from iffD1 [OF line this] show "\<exists>items e. ?good w items e input"
    proof (rule disjE)
      assume "\<exists>tail. input = CR # tail \<and> accepts Q (conf newline_3 r b v w) tail m rest"
      then obtain tail where "input = CR # tail" "accepts Q (conf newline_3 r b v w) tail m rest" by blast
      moreover from iffD1 [OF accepts_blank_line [OF less.prems(1)] this(2)] obtain e where
        "entity_ok (framing_of Q (msg_headers w)) e" "tail = LF # entity_text e @ rest" "m = w\<lparr>msg_body := entity_body e\<rparr>" by blast
      ultimately show ?thesis by (intro exI [of _ "[]"] exI [of _ e]) (simp add: section_text_def)
    next
      assume "\<exists>i tail. item_ok i \<and> (is_field i \<or> \<not> Headers_empty (msg_headers w)) \<and> input = item_text i @ tail \<and>
         accepts Q (conf header_line_start r [] [] (msg_headers_update (put_item Q i) w)) tail m rest"
      then obtain i tail where i: "item_ok i" "is_field i \<or> \<not> Headers_empty (msg_headers w)" "input = item_text i @ tail"
        "accepts Q (conf header_line_start r [] [] (msg_headers_update (put_item Q i) w)) tail m rest" by blast
      from iffD1 [OF IH [OF i(1,3)] i(4)] obtain items e where "?good (w\<lparr>msg_headers := put_item Q i (msg_headers w)\<rparr>) items e tail" by blast
      with i(1-3) show ?thesis by (intro exI [of _ "i # items"] exI [of _ e]) (auto simp: section_text_def)
    qed
  next
    assume "\<exists>items e. ?good w items e input"
    then obtain items e where good: "?good w items e input" by blast
    show "accepts Q (conf header_line_start r b v w) input m rest"
    proof (cases items)
      case Nil
      with good have "input = CR # LF # entity_text e @ rest" by (simp add: section_text_def)
      moreover have "accepts Q (conf newline_3 r b v w) (LF # entity_text e @ rest) m rest"
        using good Nil by (intro iffD2 [OF accepts_blank_line [OF less.prems(1)]] exI [of _ e]) simp
      ultimately show ?thesis by (intro iffD2 [OF line] disjI1) simp
    next
      case (Cons i items')
      let ?tail = "section_text items' @ entity_text e @ rest"
      from good Cons have i: "item_ok i" "is_field i \<or> \<not> Headers_empty (msg_headers w)" "input = item_text i @ ?tail"
        by (auto simp: section_text_def)
      with good Cons put_item_nonempty [of i "msg_headers w" Q]
      have "accepts Q (conf header_line_start r [] [] (msg_headers_update (put_item Q i) w)) ?tail m rest"
        by (intro iffD2 [OF IH [OF i(1,3)]] exI [of _ items'] exI [of _ e]) auto
      with i show ?thesis by (intro iffD2 [OF line] disjI2) blast
    qed
  qed
qed

text \<open>The message a syntax tree means: what the start line puts, the header items in order, and the entity.\<close>

definition put_sections :: "qt \<Rightarrow> header_item list \<Rightarrow> entity \<Rightarrow> HttpMessage \<Rightarrow> HttpMessage" where
  "put_sections Q items e w = w\<lparr>msg_headers := put_items Q items Headers_new, msg_body := entity_body e\<rparr>"

lemma language:
  assumes "scans Q k ok text follow" "\<And>l. ok l \<Longrightarrow> \<exists>b v. follow l = conf header_line_start 0 b v (put l)"
    and "\<And>l. msg_body (put l) = []" "\<And>l. msg_headers (put l) = Headers_new"
  shows "(\<exists>k'. feed Q k input = Inr (Valid, k', rest) \<and> message k' = m) \<longleftrightarrow>
    (\<exists>l items e. ok l \<and> section_ok items \<and> entity_ok (framing_of Q (put_items Q items Headers_new)) e \<and>
       input = text l @ section_text items @ entity_text e @ rest \<and> m = put_sections Q items e (put l))"
proof -
  have new: "Headers_empty Headers_new" by (simp add: Headers_empty_def Headers_new_def)
  have rest: "accepts Q (follow l) tail m rest \<longleftrightarrow>
      (\<exists>items e. section_ok items \<and> entity_ok (framing_of Q (put_items Q items Headers_new)) e \<and>
         tail = section_text items @ entity_text e @ rest \<and> m = put_sections Q items e (put l))" if "ok l" for l tail
  proof -
    from assms(2) [OF that] obtain b v where f: "follow l = conf header_line_start 0 b v (put l)" by blast
    show ?thesis
      unfolding f using accepts_section [of "put l" b v Q 0 tail m rest] new
      by (simp add: assms(3,4) section_ok_def put_sections_def)
  qed
  have "(\<exists>k'. feed Q k input = Inr (Valid, k', rest) \<and> message k' = m) \<longleftrightarrow>
      (\<exists>l tail. ok l \<and> input = text l @ tail \<and> accepts Q (follow l) tail m rest)"
    using scansD [OF assms(1)] by (simp add: accepts_def)
  also have "\<dots> \<longleftrightarrow> (\<exists>l items e. ok l \<and> section_ok items \<and> entity_ok (framing_of Q (put_items Q items Headers_new)) e \<and>
       input = text l @ section_text items @ entity_text e @ rest \<and> m = put_sections Q items e (put l))" (is "_ \<longleftrightarrow> ?r")
  proof
    assume "\<exists>l tail. ok l \<and> input = text l @ tail \<and> accepts Q (follow l) tail m rest"
    then obtain l tail where l: "ok l" "input = text l @ tail" "accepts Q (follow l) tail m rest" by blast
    with iffD1 [OF rest [OF l(1)] l(3)] show ?r by blast
  next
    assume ?r
    then obtain l items e where *: "ok l" "section_ok items" "entity_ok (framing_of Q (put_items Q items Headers_new)) e"
        "input = text l @ section_text items @ entity_text e @ rest" "m = put_sections Q items e (put l)" by blast
    then have "accepts Q (follow l) (section_text items @ entity_text e @ rest) m rest"
      by (intro iffD2 [OF rest [OF *(1)]] exI [of _ items] exI [of _ e]) simp
    with * show "\<exists>l tail. ok l \<and> input = text l @ tail \<and> accepts Q (follow l) tail m rest" by blast
  qed
  finally show ?thesis .
qed

section \<open>Properties\<close>

lemma parse_fresh:
  "parse Q (erase \<lparr>parser = resetForRequest p, message = m, phase = ph\<rparr>) = feed Q (conf method_start 0 [] [] m)"
  "parse Q (erase \<lparr>parser = resetForResponse p, message = m, phase = ph\<rparr>) = feed Q (conf response_start 0 [] [] m)"
  by (cases p, simp add: fun_eq_iff feed_def conf_def erase_def resetForRequest_def resetForResponse_def)+

lemma put_line_new [simp]:
  "msg_body (put_request_line l HttpMessage_new) = []" "msg_headers (put_request_line l HttpMessage_new) = Headers_new"
  "msg_body (put_status_line Q s HttpMessage_new) = []" "msg_headers (put_status_line Q s HttpMessage_new) = Headers_new"
  by (cases l; cases s; simp add: HttpMessage_new_def)+

lemma accepted_requests:
  "(\<exists>k'. parse Q (erase \<lparr>parser = resetForRequest p, message = HttpMessage_new, phase = ph\<rparr>) input = Inr (Valid, k', rest) \<and>
      message k' = m) \<longleftrightarrow>
   (\<exists>l items e. request_line_ok l \<and> section_ok items \<and> entity_ok (framing_of Q (put_items Q items Headers_new)) e \<and>
      input = request_line_text l @ section_text items @ entity_text e @ rest \<and>
      m = put_sections Q items e (put_request_line l HttpMessage_new))"
  unfolding parse_fresh
  by (rule language [OF scan_request_line]) auto

text \<open>C6: the requests the parser accepts are a language: it reports \<open>Valid\<close> and leaves \<open>rest\<close> exactly when the input is a request
  line, header items, a blank line and the entity their framing announces, followed by \<open>rest\<close>; and the message it has
  filled is the meaning of these parts. Nothing else is ever accepted, and nothing else is ever read into a message.\<close>

theorem request_language:
  "(\<exists>k'. parse Q (erase \<lparr>parser = resetForRequest p, message = HttpMessage_new, phase = ph\<rparr>) input = Inr (Valid, k', rest) \<and>
      message k' = m) \<longleftrightarrow>
   (\<exists>l items e. request_line_ok l \<and> section_ok items \<and> entity_ok (framing_of Q (put_items Q items Headers_new)) e \<and>
      input = request_line_text l @ section_text items @ entity_text e @ rest \<and>
      m = put_sections Q items e (put_request_line l HttpMessage_new))"
  by (rule accepted_requests)

text \<open>C7: the same of responses, with the status line.\<close>

theorem response_language:
  "(\<exists>k'. parse Q (erase \<lparr>parser = resetForResponse p, message = HttpMessage_new, phase = ph\<rparr>) input = Inr (Valid, k', rest) \<and>
      message k' = m) \<longleftrightarrow>
   (\<exists>l items e. status_line_ok l \<and> section_ok items \<and> entity_ok (framing_of Q (put_items Q items Headers_new)) e \<and>
      input = status_line_text l @ section_text items @ entity_text e @ rest \<and>
      m = put_sections Q items e (put_status_line Q l HttpMessage_new))"
  unfolding parse_fresh
  by (rule language [OF scan_status_line]) (auto, blast)

text \<open>No input can be cut into a request and a rest in two ways, and no request means two messages.\<close>

lemma request_unambiguous:
  assumes "request_line_ok l" "section_ok items" "entity_ok (framing_of Q (put_items Q items Headers_new)) e"
    and "request_line_ok l'" "section_ok items'" "entity_ok (framing_of Q (put_items Q items' Headers_new)) e'"
    and "request_line_text l @ section_text items @ entity_text e @ rest =
      request_line_text l' @ section_text items' @ entity_text e' @ rest'"
  shows "rest = rest' \<and> put_sections Q items e (put_request_line l HttpMessage_new) =
    put_sections Q items' e' (put_request_line l' HttpMessage_new)"
proof -
  let ?input = "request_line_text l @ section_text items @ entity_text e @ rest"
  let ?run = "parse Q (erase \<lparr>parser = resetForRequest HttpMessageParser_new, message = HttpMessage_new, phase = None\<rparr>) ?input"
  have "\<exists>k'. ?run = Inr (Valid, k', rest) \<and> message k' = put_sections Q items e (put_request_line l HttpMessage_new)"
    using assms(1-3) by (intro iffD2 [OF accepted_requests] exI [of _ l] exI [of _ items] exI [of _ e]) simp
  moreover have "\<exists>k'. ?run = Inr (Valid, k', rest') \<and> message k' = put_sections Q items' e' (put_request_line l' HttpMessage_new)"
    using assms(4-7) by (intro iffD2 [OF accepted_requests] exI [of _ l'] exI [of _ items'] exI [of _ e']) simp
  ultimately show ?thesis by auto
qed

end
