(* ===== verification/Errors.thy ===== *)
theory Errors
  imports Prelude
begin

text \<open>
  \<open>core/include/core/Errors.h\<close> and \<open>core/src/Errors.cpp\<close>: the error codes of the proxy. A
  \<open>std::error_code\<close> is a value and a category; it converts to \<open>true\<close> when the value is not 0.
\<close>

datatype ProxyError =
    NetworkError | RemoteDnsLookupError | ClientDisconnected | RemoteDisconnected
  | MalformedRequest | MalformedResponse

fun ProxyError_value :: "ProxyError \<Rightarrow> int" where
  "ProxyError_value NetworkError = 1"
| "ProxyError_value RemoteDnsLookupError = 2"
| "ProxyError_value ClientDisconnected = 3"
| "ProxyError_value RemoteDisconnected = 4"
| "ProxyError_value MalformedRequest = 5"
| "ProxyError_value MalformedResponse = 6"

text \<open>\<open>static_cast<ProxyError>(ev)\<close>, where the value is one of the enumerators.\<close>

definition ProxyError_of :: "int \<Rightarrow> ProxyError option" where
  "ProxyError_of ev =
     (if ev = 1 then Some NetworkError
      else if ev = 2 then Some RemoteDnsLookupError
      else if ev = 3 then Some ClientDisconnected
      else if ev = 4 then Some RemoteDisconnected
      else if ev = 5 then Some MalformedRequest
      else if ev = 6 then Some MalformedResponse
      else None)"

definition ProxyErrorCategory_message :: "int \<Rightarrow> string" where
  "ProxyErrorCategory_message ev =
     (case ProxyError_of ev of
        Some NetworkError \<Rightarrow> ''network error''
      | Some RemoteDnsLookupError \<Rightarrow> ''failed to resolve remote hostname''
      | Some ClientDisconnected \<Rightarrow> ''client connection unexpectedly closed''
      | Some RemoteDisconnected \<Rightarrow> ''remote connection unexpectedly closed''
      | Some MalformedRequest \<Rightarrow> ''client HTTP request is malformed''
      | Some MalformedResponse \<Rightarrow> ''remote HTTP response is malformed''
      | None \<Rightarrow> ''(unrecognized error)'')"

text \<open>Categories other than the proxy's own belong to the operating system and to asio.\<close>

datatype error_category = ProxyErrorCategory | ForeignCategory string

record error_code =
  ec_value :: int
  ec_category :: error_category

definition no_error :: error_code where
  "no_error = \<lparr>ec_value = 0, ec_category = ForeignCategory ''system''\<rparr>"

definition failed :: "error_code \<Rightarrow> bool" where
  "failed ec \<longleftrightarrow> ec_value ec \<noteq> 0"

text \<open>\<open>asio::error::eof\<close>.\<close>

definition asio_eof :: error_code where
  "asio_eof = \<lparr>ec_value = 2, ec_category = ForeignCategory ''asio.misc''\<rparr>"

definition make_error_code :: "ProxyError \<Rightarrow> error_code" where
  "make_error_code pe = \<lparr>ec_value = ProxyError_value pe, ec_category = ProxyErrorCategory\<rparr>"

lemma ProxyError_of_value [simp]: "ProxyError_of (ProxyError_value pe) = Some pe"
  by (cases pe) (simp_all add: ProxyError_of_def)

lemma failed_simps [simp]:
  "\<not> failed no_error" "failed asio_eof" "failed (make_error_code pe)"
  by (cases pe; simp add: failed_def no_error_def asio_eof_def make_error_code_def)+

end
