(* ===== verification/Connections.thy ===== *)
theory Connections
  imports Errors
begin

text \<open>
  \<open>core/include/core/IConnection.h\<close>, \<open>core/src/AsioConnection.h\<close> and \<open>core/src/ConnectionPool.cpp\<close>.

  A connection object is a socket and the flag \<open>open_\<close>. Its asynchronous operations hand the buffer to
  asio; what asio answers is an input of the model. \<open>try_open\<close> chains two such operations, and its
  callback relies on the contract \<open>opener\<close>: exactly one answer, with a connection if and only if there
  is no error.
\<close>

type_synonym conn = nat

section \<open>AsioConnection\<close>

text \<open>
  The socket's own \<open>close\<close> (or \<open>shutdown\<close> for TLS) gives an error code; the flag is what the
  constructor leaves in it.
\<close>

record Connection =
  conn_open :: bool
  socket_open :: bool

definition Connection_close :: "error_code \<Rightarrow> Connection \<Rightarrow> error_code \<times> Connection" where
  "Connection_close socket_close c =
     (let was_open = conn_open c; c = c\<lparr>conn_open := False\<rparr>
      in if was_open then (socket_close, c\<lparr>socket_open := False\<rparr>) else (no_error, c))"

section \<open>try_open\<close>

locale opener =
  fixes answer :: "error_code \<Rightarrow> error_code \<Rightarrow> conn \<Rightarrow> conn option \<times> error_code"
  assumes connected: "answer rec cec c = (Some d, ec) \<Longrightarrow> \<not> failed ec \<and> d = c"
    and refused: "answer rec cec c = (None, ec) \<Longrightarrow> failed ec"
    and succeeds: "\<not> failed rec \<Longrightarrow> \<not> failed cec \<Longrightarrow> fst (answer rec cec c) = Some c"
begin

lemma answers:
  assumes "answer rec cec c = (d, ec)"
  shows "d = (if failed ec then None else Some c)"
proof (cases d)
  case None
  with assms refused show ?thesis by simp
next
  case (Some e)
  with assms connected [of rec cec c e ec] show ?thesis by simp
qed

end

text \<open>
  \<open>ConnectionPool::try_open\<close>: the name is resolved (\<open>rec\<close>), then each address is tried (\<open>cec\<close>); the
  callback gets the connection made at the start, or none.
\<close>

definition try_open :: "error_code \<Rightarrow> error_code \<Rightarrow> conn \<Rightarrow> conn option \<times> error_code" where
  "try_open rec cec conn =
     (if failed rec then (None, rec)
      else if failed cec then (None, cec)
      else (Some conn, cec))"

interpretation pool: opener try_open
  by unfold_locales (auto simp: try_open_def split: if_splits)

text \<open>\<open>find_open_connection\<close> is a stub: no connection is ever reused.\<close>

definition find_open_connection :: "bytes \<Rightarrow> int \<Rightarrow> conn option" where
  "find_open_connection host port = None"

end
