(* ===== verification/Transaction.thy ===== *)
theory Transaction
  imports ReadLoop Connections
begin

text \<open>
  \<open>core/include/core/Transaction.h\<close> and \<open>core/src/Transaction.cpp\<close>: one client request, relayed to the
  remote host, and its response, or one TLS tunnel.

  The code runs as callbacks of asio. The state holds the operations that asio (or the connection pool)
  still has to answer, \<open>pending\<close>, and the history of what the transaction did, \<open>trace\<close>: signals, writes,
  closed connections, and the bytes it received. A member function is a state transformer that may end
  the process; the lambda passed to an asynchronous operation is a definition of its own,
  \<open>on_...\<close>, that takes asio's answer. A callback is one step; callbacks of the two directions of a tunnel
  interleave (and overlap, in \<open>TunnelRaces\<close>). The mutex is kept: locking it twice is the outcome \<open>Deadlock\<close>.

  The bytes a read leaves in \<open>read_buffer_\<close> or \<open>remote_buffer_\<close> are an argument of its callback: no
  operation overwrites a buffer before the callback that reads it is done.
\<close>

section \<open>State\<close>

datatype NotificationState =
    NsNone | RequestLine | RequestHeaders | RequestBody | RequestComplete
  | ResponseHeaders | ResponseBody | ResponseComplete | TLSTunnel | NsError

fun ns_code :: "NotificationState \<Rightarrow> nat" where
  "ns_code NsNone = 0"
| "ns_code RequestLine = 1"
| "ns_code RequestHeaders = 2"
| "ns_code RequestBody = 3"
| "ns_code RequestComplete = 4"
| "ns_code ResponseHeaders = 5"
| "ns_code ResponseBody = 6"
| "ns_code ResponseComplete = 7"
| "ns_code TLSTunnel = 8"
| "ns_code NsError = 9"

text \<open>\<open>static_cast<NotificationState>(ns_int + 1)\<close>.\<close>

fun ns_next :: "NotificationState \<Rightarrow> NotificationState" where
  "ns_next NsNone = RequestLine"
| "ns_next RequestLine = RequestHeaders"
| "ns_next RequestHeaders = RequestBody"
| "ns_next RequestBody = RequestComplete"
| "ns_next RequestComplete = ResponseHeaders"
| "ns_next ResponseHeaders = ResponseBody"
| "ns_next ResponseBody = ResponseComplete"
| "ns_next ResponseComplete = TLSTunnel"
| "ns_next TLSTunnel = NsError"
| "ns_next NsError = NsError"

lemma ns_code_inject [simp]: "(ns_code a = ns_code b) = (a = b)"
  by (cases a; cases b) simp_all

instantiation NotificationState :: linorder
begin

definition less_eq_NotificationState :: "NotificationState \<Rightarrow> NotificationState \<Rightarrow> bool" where
  "less_eq_NotificationState a b \<longleftrightarrow> ns_code a \<le> ns_code b"

definition less_NotificationState :: "NotificationState \<Rightarrow> NotificationState \<Rightarrow> bool" where
  "less_NotificationState a b \<longleftrightarrow> ns_code a < ns_code b"

instance
  by standard (auto simp: less_eq_NotificationState_def less_NotificationState_def)

end

lemmas ns_order = less_eq_NotificationState_def less_NotificationState_def

datatype Signal =
    on_transaction_start | on_request_read | on_response_headers_read | on_response_read
  | on_transaction_complete | on_transaction_failed

text \<open>What a transaction does and what it receives.\<close>

datatype Event =
    Emit Signal
  | Open bytes bytes
  | Write conn bytes
  | Received conn bytes
  | Close conn

text \<open>The asynchronous operations, named by the function that starts them.\<close>

datatype Pending =
    ReadRequest | OpenRemote | SendRequest | ReadResponse | SendResponse
  | OpenTunnel | SendConnectReply error_code
  | TunnelReadClient | TunnelWriteRemote nat | TunnelReadRemote | TunnelWriteClient nat

record Transaction =
  tx_error :: error_code
  client :: "conn option"
  remote :: "conn option"
  tx_parser :: HttpMessageParser
  raw_input :: bytes
  request_parse_phase :: ParsePhase
  request :: Request
  response_parse_phase :: ParsePhase
  response :: Response
  notification_state :: NotificationState
  mutex_locked :: bool
  pending :: "Pending list"
  trace :: "Event list"

definition Transaction_new :: "conn option \<Rightarrow> Transaction" where
  "Transaction_new clientConnection = \<lparr>tx_error = no_error, client = clientConnection, remote = None,
     tx_parser = HttpMessageParser_new, raw_input = [],
     request_parse_phase = Start, request = HttpMessage_new,
     response_parse_phase = Start, response = HttpMessage_new,
     notification_state = NsNone, mutex_locked = False, pending = [], trace = []\<rparr>"

section \<open>Sequencing\<close>

type_synonym action = "Transaction \<Rightarrow> Transaction outcome"

fun seq :: "action list \<Rightarrow> action" where
  "seq [] t = Inr t"
| "seq (a # as) t = (case a t of Inl e \<Rightarrow> Inl e | Inr t' \<Rightarrow> seq as t')"

text \<open>A scope with a \<open>std::lock_guard\<close> on the transaction's mutex.\<close>

definition guarded :: "action \<Rightarrow> action" where
  "guarded body t =
     (if mutex_locked t then Inl Deadlock
      else case body (t\<lparr>mutex_locked := True\<rparr>) of
          Inl e \<Rightarrow> Inl e
        | Inr t' \<Rightarrow> Inr (t'\<lparr>mutex_locked := False\<rparr>))"

definition record_event :: "Event \<Rightarrow> action" where
  "record_event e t = Inr (t\<lparr>trace := trace t @ [e]\<rparr>)"

abbreviation emit :: "Signal \<Rightarrow> action" where
  "emit s \<equiv> record_event (Emit s)"

definition start_op :: "Pending \<Rightarrow> action" where
  "start_op p t = Inr (t\<lparr>pending := pending t @ [p]\<rparr>)"

definition async_write :: "conn \<Rightarrow> bytes \<Rightarrow> Pending \<Rightarrow> action" where
  "async_write c data p = seq [record_event (Write c data), start_op p]"

section \<open>Notifications\<close>

text \<open>The signal that \<open>do_notification\<close> emits when it leaves a state.\<close>

definition emit_on_leaving :: "NotificationState \<Rightarrow> action" where
  "emit_on_leaving current_state t =
     (case current_state of
        RequestComplete \<Rightarrow> emit on_request_read t
      | ResponseHeaders \<Rightarrow> emit on_response_headers_read t
      | ResponseComplete \<Rightarrow> seq [emit on_response_read, emit on_transaction_complete] t
      | NsError \<Rightarrow> Inl (AssertFailed ''Errors should use notify_failure, not do_notification'')
      | _ \<Rightarrow> Inr t)"

lemma emit_on_leaving_state:
  "emit_on_leaving s t = Inr t' \<Longrightarrow> notification_state t' = notification_state t"
  by (auto simp: emit_on_leaving_def record_event_def split: NotificationState.splits)

lemma ns_next_code: "ns_code s < ns_code ns \<Longrightarrow> ns_code (ns_next s) = ns_code s + 1"
  by (cases s; cases ns) simp_all

function do_notification :: "NotificationState \<Rightarrow> action" where
  "do_notification ns t =
     (if notification_state t < ns then
        (case emit_on_leaving (notification_state t)
            (t\<lparr>notification_state := ns_next (notification_state t)\<rparr>) of
           Inl e \<Rightarrow> Inl e
         | Inr t' \<Rightarrow> do_notification ns t')
      else Inr t)"
  by pat_completeness auto
termination
  by (relation "measure (\<lambda>(ns, t). ns_code ns - ns_code (notification_state t))")
    (auto simp: ns_order ns_next_code dest!: emit_on_leaving_state)

declare do_notification.simps [simp del]

definition notify_phase_change :: "ParsePhase \<Rightarrow> action" where
  "notify_phase_change ph t =
     (case ph of
        Start \<Rightarrow> Inl (AssertFailed ''Should not notify on this phase'')
      | ReceivedMessageLine \<Rightarrow>
          if notification_state t \<ge> RequestComplete then Inr t else do_notification RequestLine t
      | ReceivedHeaders \<Rightarrow>
          do_notification (if notification_state t < RequestComplete then RequestHeaders else ResponseHeaders) t
      | ReceivedBody \<Rightarrow>
          do_notification (if notification_state t < RequestComplete then RequestBody else ResponseBody) t
      | ReceivedFullMessage \<Rightarrow>
          do_notification (if notification_state t < RequestComplete then RequestComplete else ResponseComplete) t)"

definition notify_phases :: "ParsePhase option list \<Rightarrow> action" where
  "notify_phases phs = seq (map (\<lambda>ph. notify_phase_change (the ph)) phs)"

section \<open>The end of a transaction\<close>

definition close_conn :: "conn option \<Rightarrow> action" where
  "close_conn c t = (case c of None \<Rightarrow> Inr t | Some c \<Rightarrow> record_event (Close c) t)"

definition release_connections :: action where
  "release_connections = guarded (\<lambda>t. seq
     [close_conn (client t), close_conn (remote t), \<lambda>t. Inr (t\<lparr>client := None, remote := None\<rparr>)] t)"

definition complete_transaction :: action where
  "complete_transaction = seq [release_connections, emit on_transaction_complete]"

definition notify_failure :: "error_code \<Rightarrow> action" where
  "notify_failure ec = seq
     [release_connections,
      \<lambda>t. Inr (t\<lparr>tx_error := ec, notification_state := NsError\<rparr>),
      emit on_transaction_failed,
      complete_transaction]"

abbreviation fail :: "ProxyError \<Rightarrow> action" where
  "fail pe \<equiv> notify_failure (make_error_code pe)"

section \<open>The request\<close>

definition read_client_request :: action where
  "read_client_request = guarded (\<lambda>t.
     if client t = None then fail ClientDisconnected t else start_op ReadRequest t)"

definition Transaction_begin :: action where
  "Transaction_begin = seq
     [emit on_transaction_start, \<lambda>t. Inr (t\<lparr>raw_input := []\<rparr>), read_client_request]"

text \<open>The part of an authority before and after its first colon.\<close>

definition host_port :: "bytes \<Rightarrow> qstring \<Rightarrow> qstring \<times> qstring" where
  "host_port default_port s =
     (if qch CHR '':'' \<in> set s
      then (takeWhile (\<lambda>c. c \<noteq> qch CHR '':'') s, tl (dropWhile (\<lambda>c. c \<noteq> qch CHR '':'') s))
      else (s, latin1 default_port))"

definition pool_try_open :: "qt \<Rightarrow> qstring \<times> qstring \<Rightarrow> Pending \<Rightarrow> action" where
  "pool_try_open Q hp p = seq [record_event (Open (toStdString Q (fst hp)) (toStdString Q (snd hp))), start_op p]"

definition open_remote_connection :: "qt \<Rightarrow> action" where
  "open_remote_connection Q t =
     (case find_by_name Q (msg_headers (request t)) (latin1 ''Host'') of
        [] \<Rightarrow> fail MalformedRequest t
      | host # _ \<Rightarrow> pool_try_open Q (host_port ''80'' host) OpenRemote t)"

definition establish_tls_tunnel :: "qt \<Rightarrow> action" where
  "establish_tls_tunnel Q t = pool_try_open Q (host_port ''443'' (msg_uri (request t))) OpenTunnel t"

definition request_cfg :: "Transaction \<Rightarrow> cfg" where
  "request_cfg t = \<lparr>parser = tx_parser t, message = request t, phase = Some (request_parse_phase t)\<rparr>"

definition store_request :: "cfg \<Rightarrow> action" where
  "store_request k t = Inr (t\<lparr>tx_parser := parser k, request := message k,
     request_parse_phase := the (phase k)\<rparr>)"

definition on_request_parsed :: "qt \<Rightarrow> State \<Rightarrow> action" where
  "on_request_parsed Q st t =
     (case st of
        Incomplete \<Rightarrow> read_client_request t
      | Invalid \<Rightarrow> fail MalformedRequest t
      | Valid \<Rightarrow>
          if msg_method (request t) = latin1 ''CONNECT'' then establish_tls_tunnel Q t
          else seq [do_notification RequestComplete, open_remote_connection Q] t)"

definition on_request_bytes :: "qt \<Rightarrow> error_code \<Rightarrow> bytes \<Rightarrow> action" where
  "on_request_bytes Q ec data t =
     (if ec = asio_eof then fail ClientDisconnected t
      else if failed ec then notify_failure ec t
      else case read_loop Q (request_cfg t) data of
          Inl e \<Rightarrow> Inl e
        | Inr (phs, st, k, rest) \<Rightarrow> seq [store_request k, notify_phases phs, on_request_parsed Q st] t)"

section \<open>The response\<close>

definition send_client_request_to_remote :: "qt \<Rightarrow> action" where
  "send_client_request_to_remote Q = guarded (\<lambda>t.
     case (client t, remote t) of
       (Some c, Some r) \<Rightarrow> async_write r (Request_format Q (request t)) SendRequest t
     | _ \<Rightarrow> fail ClientDisconnected t)"

definition on_remote_open :: "qt \<Rightarrow> conn option \<Rightarrow> error_code \<Rightarrow> action" where
  "on_remote_open Q conn ec t =
     (if failed ec then notify_failure ec t
      else seq [\<lambda>t. Inr (t\<lparr>remote := conn\<rparr>), send_client_request_to_remote Q] t)"

definition read_remote_response :: action where
  "read_remote_response = guarded (\<lambda>t.
     case (client t, remote t) of
       (Some c, Some r) \<Rightarrow> start_op ReadResponse t
     | _ \<Rightarrow> fail ClientDisconnected t)"

definition on_request_sent :: "error_code \<Rightarrow> action" where
  "on_request_sent ec t =
     (if failed ec then notify_failure ec t
      else seq [\<lambda>t. Inr (t\<lparr>raw_input := [], tx_parser := resetForResponse (tx_parser t)\<rparr>),
                read_remote_response] t)"

definition send_remote_response_to_client :: action where
  "send_remote_response_to_client = guarded (\<lambda>t.
     case client t of
       Some c \<Rightarrow> async_write c (raw_input t) SendResponse t
     | None \<Rightarrow> fail ClientDisconnected t)"

definition response_cfg :: "Transaction \<Rightarrow> cfg" where
  "response_cfg t = \<lparr>parser = tx_parser t, message = response t, phase = Some (response_parse_phase t)\<rparr>"

definition store_response :: "cfg \<Rightarrow> action" where
  "store_response k t = Inr (t\<lparr>tx_parser := parser k, response := message k,
     response_parse_phase := the (phase k)\<rparr>)"

definition on_response_parsed :: "State \<Rightarrow> action" where
  "on_response_parsed st t =
     (case st of
        Incomplete \<Rightarrow> read_remote_response t
      | Invalid \<Rightarrow> fail MalformedResponse t
      | Valid \<Rightarrow> seq [do_notification ResponseComplete, send_remote_response_to_client] t)"

definition on_response_bytes :: "qt \<Rightarrow> error_code \<Rightarrow> bytes \<Rightarrow> action" where
  "on_response_bytes Q ec data t =
     (if ec = asio_eof then fail RemoteDisconnected t
      else if failed ec then notify_failure ec t
      else let t = t\<lparr>raw_input := raw_input t @ data\<rparr>
        in case read_loop Q (response_cfg t) data of
            Inl e \<Rightarrow> Inl e
          | Inr (phs, st, k, rest) \<Rightarrow> seq [store_response k, notify_phases phs, on_response_parsed st] t)"

definition on_response_sent :: "error_code \<Rightarrow> action" where
  "on_response_sent ec t =
     (if ec = asio_eof then notify_failure ec t
      else if failed ec then notify_failure ec t
      else complete_transaction t)"

section \<open>TLS tunnels\<close>

definition connect_reply :: "bool \<Rightarrow> bytes" where
  "connect_reply success =
     (if success then ''HTTP/1.1 200 OK'' else ''HTTP/1.1 400 Bad Request'') @ [CR, LF] @
     ''Proxy-Agent: amanuensis 0.1.0'' @ [CR, LF, CR, LF]"

definition on_tunnel_open :: "conn option \<Rightarrow> error_code \<Rightarrow> action" where
  "on_tunnel_open conn ec t =
     (let success = (\<not> failed ec); t = (if success then t\<lparr>remote := conn\<rparr> else t)
      in guarded (\<lambda>t. case client t of
            None \<Rightarrow> fail ClientDisconnected t
          | Some c \<Rightarrow> async_write c (connect_reply success) (SendConnectReply ec) t) t)"

definition send_client_request_via_tunnel :: action where
  "send_client_request_via_tunnel = guarded (\<lambda>t.
     if client t = None \<or> remote t = None then Inr t else start_op TunnelReadClient t)"

definition send_server_response_via_tunnel :: action where
  "send_server_response_via_tunnel = guarded (\<lambda>t.
     if client t = None \<or> remote t = None then Inr t else start_op TunnelReadRemote t)"

text \<open>
  The reply went out or failed with \<open>ec2\<close>; \<open>ec\<close> is the answer of \<open>try_open\<close> that the callback captured.
\<close>

definition on_connect_reply_sent :: "error_code \<Rightarrow> error_code \<Rightarrow> action" where
  "on_connect_reply_sent ec ec2 t =
     (let success = (\<not> failed ec); localSuccess = (if failed ec2 then False else success)
      in if localSuccess then seq [send_client_request_via_tunnel, send_server_response_via_tunnel] t
         else notify_failure ec t)"

definition on_tunnel_client_bytes :: "error_code \<Rightarrow> bytes \<Rightarrow> action" where
  "on_tunnel_client_bytes ec data t =
     (if ec = asio_eof \<or> length data = 0 then release_connections t
      else if failed ec then notify_failure ec t
      else guarded (\<lambda>t. case remote t of
            None \<Rightarrow> Inr t
          | Some r \<Rightarrow> async_write r data (TunnelWriteRemote (length data)) t) t)"

definition on_tunnel_remote_written :: "nat \<Rightarrow> error_code \<Rightarrow> nat \<Rightarrow> action" where
  "on_tunnel_remote_written num_bytes_read ec num_bytes_written t =
     (if failed ec then notify_failure ec t
      else if num_bytes_read \<noteq> num_bytes_written then fail NetworkError t
      else send_client_request_via_tunnel t)"

definition on_tunnel_remote_bytes :: "error_code \<Rightarrow> bytes \<Rightarrow> action" where
  "on_tunnel_remote_bytes ec data t =
     (if ec = asio_eof \<or> length data = 0 then release_connections t
      else if failed ec then notify_failure ec t
      else guarded (\<lambda>t. case client t of
            None \<Rightarrow> Inr t
          | Some c \<Rightarrow> async_write c data (TunnelWriteClient (length data)) t) t)"

definition on_tunnel_client_written :: "nat \<Rightarrow> error_code \<Rightarrow> nat \<Rightarrow> action" where
  "on_tunnel_client_written num_bytes_read ec num_bytes_written t =
     (if failed ec then notify_failure ec t
      else if num_bytes_read \<noteq> num_bytes_written then fail NetworkError t
      else send_server_response_via_tunnel t)"

section \<open>Steps\<close>

text \<open>
  What asio can answer: a read gives an error code and at most a buffer of bytes, a write an error code
  and a count, an open the two error codes of \<open>try_open\<close> and the connection it made.
\<close>

datatype Answer = ReadDone error_code bytes | WriteDone error_code nat | OpenDone error_code error_code conn

text \<open>The connection that a pending read was started on.\<close>

definition receive :: "conn option \<Rightarrow> bytes \<Rightarrow> action" where
  "receive c data t = (case c of None \<Rightarrow> Inr t | Some c \<Rightarrow> record_event (Received c data) t)"

fun resume :: "qt \<Rightarrow> Pending \<Rightarrow> Answer \<Rightarrow> action option" where
  "resume Q ReadRequest (ReadDone ec data) =
     Some (\<lambda>t. seq [receive (client t) data, on_request_bytes Q ec data] t)"
| "resume Q OpenRemote (OpenDone rec cec c) =
     Some (case try_open rec cec c of (conn, ec) \<Rightarrow> on_remote_open Q conn ec)"
| "resume Q SendRequest (WriteDone ec n) = Some (on_request_sent ec)"
| "resume Q ReadResponse (ReadDone ec data) =
     Some (\<lambda>t. seq [receive (remote t) data, on_response_bytes Q ec data] t)"
| "resume Q SendResponse (WriteDone ec n) = Some (on_response_sent ec)"
| "resume Q OpenTunnel (OpenDone rec cec c) =
     Some (case try_open rec cec c of (conn, ec) \<Rightarrow> on_tunnel_open conn ec)"
| "resume Q (SendConnectReply ec) (WriteDone ec2 n) = Some (on_connect_reply_sent ec ec2)"
| "resume Q TunnelReadClient (ReadDone ec data) =
     Some (\<lambda>t. seq [receive (client t) data, on_tunnel_client_bytes ec data] t)"
| "resume Q (TunnelWriteRemote m) (WriteDone ec n) = Some (on_tunnel_remote_written m ec n)"
| "resume Q TunnelReadRemote (ReadDone ec data) =
     Some (\<lambda>t. seq [receive (remote t) data, on_tunnel_remote_bytes ec data] t)"
| "resume Q (TunnelWriteClient m) (WriteDone ec n) = Some (on_tunnel_client_written m ec n)"
| "resume Q _ _ = None"

text \<open>
  What asio guarantees of its answers: a read never exceeds the buffer and leaves no bytes when it
  fails; a connection made for the remote host is a new object.
\<close>

fun plausible :: "Transaction \<Rightarrow> Answer \<Rightarrow> bool" where
  "plausible t (ReadDone ec data) \<longleftrightarrow> length data \<le> 8192 \<and> (failed ec \<longrightarrow> data = [])"
| "plausible t (WriteDone ec n) \<longleftrightarrow> True"
| "plausible t (OpenDone rec cec d) \<longleftrightarrow> client t \<noteq> Some d"

text \<open>One step answers one pending operation.\<close>

inductive step :: "qt \<Rightarrow> Transaction \<Rightarrow> Transaction outcome \<Rightarrow> bool" for Q where
  answer: "pending t = ps @ p # qs \<Longrightarrow> plausible t a \<Longrightarrow> resume Q p a = Some act \<Longrightarrow>
    step Q t (act (t\<lparr>pending := ps @ qs\<rparr>))"

inductive reachable :: "qt \<Rightarrow> conn \<Rightarrow> Transaction outcome \<Rightarrow> bool" for Q c where
  begun: "reachable Q c (Transaction_begin (Transaction_new (Some c)))"
| stepped: "reachable Q c (Inr t) \<Longrightarrow> step Q t r \<Longrightarrow> reachable Q c r"

inductive_cases stepE: "step Q t r"

end
