(* ===== verification/TransactionLemmas.thy ===== *)
theory TransactionLemmas
  imports Transaction
begin

text \<open>
  What one callback of a transaction does, as equations: notifications, the end of a transaction, and
  the loop around the parser.
\<close>

section \<open>Projections of the history\<close>

definition signals :: "Event list \<Rightarrow> Signal list" where
  "signals tr = concat (map (\<lambda>e. case e of Emit s \<Rightarrow> [s] | _ \<Rightarrow> []) tr)"

definition opens :: "Event list \<Rightarrow> (bytes \<times> bytes) list" where
  "opens tr = concat (map (\<lambda>e. case e of Open h p \<Rightarrow> [(h, p)] | _ \<Rightarrow> []) tr)"

definition written :: "conn \<Rightarrow> Event list \<Rightarrow> bytes" where
  "written c tr = concat (map (\<lambda>e. case e of Write d data \<Rightarrow> if d = c then data else [] | _ \<Rightarrow> []) tr)"

definition received :: "conn \<Rightarrow> Event list \<Rightarrow> bytes" where
  "received c tr = concat (map (\<lambda>e. case e of Received d data \<Rightarrow> if d = c then data else [] | _ \<Rightarrow> []) tr)"

definition closes :: "Event list \<Rightarrow> conn list" where
  "closes tr = concat (map (\<lambda>e. case e of Close c \<Rightarrow> [c] | _ \<Rightarrow> []) tr)"

lemmas projection_defs = signals_def opens_def written_def received_def closes_def

lemma projection_append [simp]:
  "signals (xs @ ys) = signals xs @ signals ys"
  "opens (xs @ ys) = opens xs @ opens ys"
  "written c (xs @ ys) = written c xs @ written c ys"
  "received c (xs @ ys) = received c xs @ received c ys"
  "closes (xs @ ys) = closes xs @ closes ys"
  by (simp_all add: projection_defs)

lemma projection_Cons [simp]:
  "signals [] = []" "opens [] = []" "written c [] = []" "received c [] = []" "closes [] = []"
  "signals (e # xs) = (case e of Emit s \<Rightarrow> [s] | _ \<Rightarrow> []) @ signals xs"
  "opens (e # xs) = (case e of Open h p \<Rightarrow> [(h, p)] | _ \<Rightarrow> []) @ opens xs"
  "written c (e # xs) = (case e of Write d data \<Rightarrow> if d = c then data else [] | _ \<Rightarrow> []) @ written c xs"
  "received c (e # xs) = (case e of Received d data \<Rightarrow> if d = c then data else [] | _ \<Rightarrow> []) @ received c xs"
  "closes (e # xs) = (case e of Close c \<Rightarrow> [c] | _ \<Rightarrow> []) @ closes xs"
  by (simp_all add: projection_defs)

lemma projection_emits [simp]:
  "signals (map Emit ss) = ss"
  "opens (map Emit ss) = []" "written c (map Emit ss) = []" "received c (map Emit ss) = []"
  "closes (map Emit ss) = []"
  by (induction ss) simp_all

lemma projection_closes [simp]:
  "signals (map Close cs) = []" "opens (map Close cs) = []" "written c (map Close cs) = []"
  "received c (map Close cs) = []" "closes (map Close cs) = cs"
  by (induction cs) simp_all

section \<open>Actions\<close>

lemma seq_last [simp]: "(case x of Inl e \<Rightarrow> Inl e | Inr t \<Rightarrow> seq [] t) = x"
  by (cases x) simp_all

lemmas action_simps = record_event_def start_op_def async_write_def

definition conns :: "Transaction \<Rightarrow> conn list" where
  "conns t = (case client t of None \<Rightarrow> [] | Some c \<Rightarrow> [c]) @ (case remote t of None \<Rightarrow> [] | Some c \<Rightarrow> [c])"

lemma release_eq:
  "release_connections t =
     (if mutex_locked t then Inl Deadlock
      else Inr (t\<lparr>client := None, remote := None, trace := trace t @ map Close (conns t)\<rparr>))"
  by (cases t) (auto simp: release_connections_def guarded_def close_conn_def conns_def action_simps
      split: option.splits)

lemma complete_eq:
  "\<not> mutex_locked t \<Longrightarrow> complete_transaction t =
     Inr (t\<lparr>client := None, remote := None, trace := trace t @ map Close (conns t) @ [Emit on_transaction_complete]\<rparr>)"
  by (simp add: complete_transaction_def release_eq action_simps)

lemma notify_failure_eq:
  "\<not> mutex_locked t \<Longrightarrow> notify_failure ec t =
     Inr (t\<lparr>client := None, remote := None, tx_error := ec, notification_state := NsError,
       trace := trace t @ map Close (conns t) @ [Emit on_transaction_failed, Emit on_transaction_complete]\<rparr>)"
  by (simp add: notify_failure_def release_eq complete_eq action_simps conns_def)

lemma notify_failure_locked: "mutex_locked t \<Longrightarrow> notify_failure ec t = Inl Deadlock"
  by (simp add: notify_failure_def release_eq)

section \<open>Notifications\<close>

text \<open>The signals emitted on the way from state \<open>s\<close> to state \<open>ns\<close>.\<close>

definition news :: "NotificationState \<Rightarrow> NotificationState \<Rightarrow> Signal list" where
  "news s ns = (if s \<le> RequestComplete \<and> RequestComplete < ns then [on_request_read] else [])
     @ (if s \<le> ResponseHeaders \<and> ResponseHeaders < ns then [on_response_headers_read] else [])"

lemma ns_code_simps [simp]:
  "ns_code s < ns_code t \<Longrightarrow> ns_code (ns_next s) = Suc (ns_code s)"
  using ns_next_code [of s t] by simp

lemma do_notification_eq:
  "ns \<le> ResponseComplete \<Longrightarrow> do_notification ns t =
     Inr (t\<lparr>notification_state := max (notification_state t) ns, trace := trace t @ map Emit (news (notification_state t) ns)\<rparr>)"
proof (induction ns t rule: do_notification.induct)
  case (1 ns t)
  show ?case
  proof (cases "notification_state t < ns")
    case False
    then have "max (notification_state t) ns = notification_state t" "news (notification_state t) ns = []"
      by (auto simp: news_def ns_order max_def)
    with False show ?thesis by (simp add: do_notification.simps [of ns t])
  next
    case True
    let ?s = "notification_state t" and ?t = "t\<lparr>notification_state := ns_next (notification_state t)\<rparr>"
    define here where "here = (case ?s of RequestComplete \<Rightarrow> [on_request_read]
      | ResponseHeaders \<Rightarrow> [on_response_headers_read] | _ \<Rightarrow> [])"
    have leave: "emit_on_leaving ?s ?t = Inr (?t\<lparr>trace := trace t @ map Emit here\<rparr>)"
      using True "1.prems" unfolding here_def
      by (cases ?s) (auto simp: emit_on_leaving_def action_simps ns_order)
    have "max (ns_next ?s) ns = max ?s ns" and news: "news ?s ns = here @ news (ns_next ?s) ns"
      using True "1.prems" unfolding here_def news_def ns_order max_def
      by (cases ?s; cases ns; simp)+
    with "1.IH" [OF True leave] "1.prems" leave True show ?thesis
      by (simp add: do_notification.simps [of ns t])
  qed
qed

lemma phase_chain_phases:
  "phase_chain p phs \<Longrightarrow> p \<noteq> None \<Longrightarrow> set phs \<subseteq> {Some ReceivedMessageLine, Some ReceivedHeaders}"
  by (induction p phs rule: phase_chain.induct) (auto simp: phase_step_def)

text \<open>Where the reported phases take the notification state.\<close>

definition noted :: "NotificationState \<Rightarrow> ParsePhase option \<Rightarrow> NotificationState" where
  "noted s ph = (if ph = Some ReceivedHeaders then max s (if s < RequestComplete then RequestHeaders else ResponseHeaders)
     else if s < RequestComplete then max s RequestLine else s)"

lemma notify_phase_eq:
  assumes "ph \<in> {Some ReceivedMessageLine, Some ReceivedHeaders}"
  shows "notify_phase_change (the ph) t =
     Inr (t\<lparr>notification_state := noted (notification_state t) ph,
       trace := trace t @ map Emit (news (notification_state t) (noted (notification_state t) ph))\<rparr>)"
proof -
  have "news s (max s x) = news s x" and "news s s = []" for s x
    by (auto simp: news_def ns_order max_def)
  moreover have "RequestLine \<le> ResponseComplete" "RequestHeaders \<le> ResponseComplete" "ResponseHeaders \<le> ResponseComplete"
    by (simp_all add: ns_order)
  ultimately show ?thesis
    using assms by (auto simp: notify_phase_change_def noted_def do_notification_eq not_le)
qed

text \<open>The signals a transaction has emitted by the time it reaches a state before the end.\<close>

definition sigs :: "NotificationState \<Rightarrow> Signal list" where
  "sigs s = on_transaction_start # news NsNone s"

lemma sigs_news: "s \<le> s' \<Longrightarrow> sigs s @ news s s' = sigs s'"
  by (auto simp: sigs_def news_def ns_order)

lemma noted_bounds:
  "s \<le> noted s ph" "s < RequestComplete \<Longrightarrow> noted s ph < RequestComplete"
  "RequestComplete \<le> s \<Longrightarrow> s < ResponseComplete \<Longrightarrow> noted s ph < ResponseComplete"
  by (auto simp: noted_def ns_order max_def)

lemma notify_phases_eq:
  assumes "set phs \<subseteq> {Some ReceivedMessageLine, Some ReceivedHeaders}"
  shows "\<exists>s'. notification_state t \<le> s' \<and>
     (notification_state t < RequestComplete \<longrightarrow> s' < RequestComplete) \<and>
     (RequestComplete \<le> notification_state t \<and> notification_state t < ResponseComplete \<longrightarrow> s' < ResponseComplete) \<and>
     notify_phases phs t =
       Inr (t\<lparr>notification_state := s', trace := trace t @ map Emit (news (notification_state t) s')\<rparr>)"
  using assms
proof (induction phs arbitrary: t)
  case Nil
  have "news s s = []" for s by (simp add: news_def ns_order)
  then show ?case by (intro exI [of _ "notification_state t"]) (simp add: notify_phases_def)
next
  case (Cons ph phs)
  let ?s = "notification_state t" and ?n = "noted (notification_state t) ph"
  let ?t = "t\<lparr>notification_state := ?n, trace := trace t @ map Emit (news ?s ?n)\<rparr>"
  from Cons.prems have one: "notify_phase_change (the ph) t = Inr ?t"
    by (intro notify_phase_eq) auto
  from Cons.IH [of ?t] Cons.prems obtain s' where s': "?n \<le> s'" "?n < RequestComplete \<longrightarrow> s' < RequestComplete"
      "RequestComplete \<le> ?n \<and> ?n < ResponseComplete \<longrightarrow> s' < ResponseComplete"
      "notify_phases phs ?t = Inr (?t\<lparr>notification_state := s', trace := trace ?t @ map Emit (news ?n s')\<rparr>)"
    by auto
  have "?s \<le> ?n" by (rule noted_bounds)
  with s'(1) have "news ?s ?n @ news ?n s' = news ?s s'"
    by (auto simp: news_def ns_order)
  with one s' noted_bounds [of ?s ph] show ?case
    by (intro exI [of _ s']) (auto simp: notify_phases_def simp flip: map_append)
qed

section \<open>The loop around the parser\<close>

lemma read_loop_Inr:
  assumes "read_loop Q k data = Inr (phs, st, k', rest)" and "phase k \<noteq> None"
  shows "feed Q k data = Inr (st, erase k', rest)" and "set phs \<subseteq> {Some ReceivedMessageLine, Some ReceivedHeaders}"
  using read_loop_feed [of Q k data] assms read_loop_phases [OF assms(1)] phase_chain_phases by auto

lemma read_loop_Inl: "read_loop Q k data = Inl e \<Longrightarrow> feed Q k data = Inl e"
  using read_loop_feed [of Q k data] by simp

text \<open>The ways the parser can end the process.\<close>

definition parser_abort :: "fatal \<Rightarrow> bool" where
  "parser_abort e \<longleftrightarrow> e \<in> {SignedOverflow, BadAlloc, QFatal ''extensions not implemented'',
     QFatal ''Trailing headers not implemented''}"

lemma feed_abort: "feed Q k input = Inl e \<Longrightarrow> parser_inv k \<Longrightarrow> parser_abort e"
  using feed_fatal [of Q k input e] by (auto simp: expected_fatal_def parser_abort_def)

end
