(* ===== verification/TransactionInv.thy ===== *)
theory TransactionInv
  imports TransactionLemmas ParserRuns
begin

text \<open>
  The reachable states of a transaction: a predicate for each stage it goes through, and the proof that
  every answer of asio leads from a stage to a stage, or ends the process inside the parser. Nothing is
  assumed of Qt here.
\<close>

section \<open>Stages\<close>

abbreviation request_start :: cfg where
  "request_start \<equiv> conf method_start 0 [] [] HttpMessage_new"

abbreviation response_start_cfg :: cfg where
  "response_start_cfg \<equiv> conf response_start 0 [] [] HttpMessage_new"

text \<open>Connections are open, the mutex is free, and the signals are those of the state.\<close>

definition alive :: "conn \<Rightarrow> conn option \<Rightarrow> Transaction \<Rightarrow> bool" where
  "alive c r t \<longleftrightarrow> client t = Some c \<and> remote t = r \<and> r \<noteq> Some c \<and> \<not> mutex_locked t \<and> tx_error t = no_error \<and>
     notification_state t \<le> ResponseComplete \<and> signals (trace t) = sigs (notification_state t) \<and> closes (trace t) = []"

definition fresh_response :: "Transaction \<Rightarrow> bool" where
  "fresh_response t \<longleftrightarrow> response t = HttpMessage_new \<and> response_parse_phase t = Start"

definition silent :: "conn \<Rightarrow> Transaction \<Rightarrow> bool" where
  "silent c t \<longleftrightarrow> (\<forall>d. written d (trace t) = [] \<and> (d \<noteq> c \<longrightarrow> received d (trace t) = []))"

text \<open>The request is the message that the bytes from the client spell.\<close>

definition parsed_request :: "qt \<Rightarrow> bytes \<Rightarrow> Transaction \<Rightarrow> bool" where
  "parsed_request Q input t \<longleftrightarrow>
     (\<exists>k' rest. feed Q request_start input = Inr (Valid, k', rest) \<and> message k' = request t)"

definition parsed_response :: "qt \<Rightarrow> bytes \<Rightarrow> Transaction \<Rightarrow> bool" where
  "parsed_response Q input t \<longleftrightarrow>
     (\<exists>k' rest. feed Q response_start_cfg input = Inr (Valid, k', rest) \<and> message k' = response t)"

definition to_address :: "qt \<Rightarrow> qstring \<times> qstring \<Rightarrow> bytes \<times> bytes" where
  "to_address Q hp = (toStdString Q (fst hp), toStdString Q (snd hp))"

text \<open>A request for a host: not a tunnel, and the only address opened is that of its first \<open>Host\<close> value.\<close>

definition aimed :: "qt \<Rightarrow> Transaction \<Rightarrow> bool" where
  "aimed Q t \<longleftrightarrow> msg_method (request t) \<noteq> latin1 ''CONNECT'' \<and>
     (\<exists>host hosts. find_by_name Q (msg_headers (request t)) (latin1 ''Host'') = host # hosts \<and>
        opens (trace t) = [to_address Q (host_port ''80'' host)])"

definition tunnel_aimed :: "qt \<Rightarrow> Transaction \<Rightarrow> bool" where
  "tunnel_aimed Q t \<longleftrightarrow> msg_method (request t) = latin1 ''CONNECT'' \<and>
     opens (trace t) = [to_address Q (host_port ''443'' (msg_uri (request t)))]"

definition reading_request :: "qt \<Rightarrow> conn \<Rightarrow> Transaction \<Rightarrow> bool" where
  "reading_request Q c t \<longleftrightarrow> pending t = [ReadRequest] \<and> alive c None t \<and> notification_state t < RequestComplete \<and>
     fresh_response t \<and> silent c t \<and> opens (trace t) = [] \<and>
     feed Q request_start (received c (trace t)) = Inr (Incomplete, erase (request_cfg t), [])"

definition opening_remote :: "qt \<Rightarrow> conn \<Rightarrow> Transaction \<Rightarrow> bool" where
  "opening_remote Q c t \<longleftrightarrow> pending t = [OpenRemote] \<and> alive c None t \<and> notification_state t = RequestComplete \<and>
     fresh_response t \<and> silent c t \<and> parsed_request Q (received c (trace t)) t \<and> aimed Q t"

definition sending_request :: "qt \<Rightarrow> conn \<Rightarrow> conn \<Rightarrow> Transaction \<Rightarrow> bool" where
  "sending_request Q c r t \<longleftrightarrow> pending t = [SendRequest] \<and> alive c (Some r) t \<and>
     notification_state t = RequestComplete \<and> fresh_response t \<and>
     parsed_request Q (received c (trace t)) t \<and> aimed Q t \<and>
     written r (trace t) = Request_format Q (request t) \<and> written c (trace t) = [] \<and> received r (trace t) = []"

definition reading_response :: "qt \<Rightarrow> conn \<Rightarrow> conn \<Rightarrow> Transaction \<Rightarrow> bool" where
  "reading_response Q c r t \<longleftrightarrow> pending t = [ReadResponse] \<and> alive c (Some r) t \<and>
     RequestComplete \<le> notification_state t \<and> notification_state t < ResponseComplete \<and>
     parsed_request Q (received c (trace t)) t \<and> aimed Q t \<and>
     written r (trace t) = Request_format Q (request t) \<and> written c (trace t) = [] \<and>
     raw_input t = received r (trace t) \<and>
     feed Q response_start_cfg (received r (trace t)) = Inr (Incomplete, erase (response_cfg t), [])"

definition relayed :: "qt \<Rightarrow> conn \<Rightarrow> conn \<Rightarrow> Transaction \<Rightarrow> bool" where
  "relayed Q c r t \<longleftrightarrow> parsed_request Q (received c (trace t)) t \<and> aimed Q t \<and>
     written r (trace t) = Request_format Q (request t) \<and>
     parsed_response Q (received r (trace t)) t \<and> written c (trace t) = received r (trace t)"

definition sending_response :: "qt \<Rightarrow> conn \<Rightarrow> conn \<Rightarrow> Transaction \<Rightarrow> bool" where
  "sending_response Q c r t \<longleftrightarrow> pending t = [SendResponse] \<and> alive c (Some r) t \<and>
     notification_state t = ResponseComplete \<and> relayed Q c r t"

definition opening_tunnel :: "qt \<Rightarrow> conn \<Rightarrow> Transaction \<Rightarrow> bool" where
  "opening_tunnel Q c t \<longleftrightarrow> pending t = [OpenTunnel] \<and> alive c None t \<and> notification_state t < RequestComplete \<and>
     silent c t \<and> parsed_request Q (received c (trace t)) t \<and> tunnel_aimed Q t"

definition replying :: "qt \<Rightarrow> conn \<Rightarrow> conn \<Rightarrow> error_code \<Rightarrow> Transaction \<Rightarrow> bool" where
  "replying Q c r ec t \<longleftrightarrow> pending t = [SendConnectReply ec] \<and> alive c (if failed ec then None else Some r) t \<and>
     notification_state t < RequestComplete \<and> parsed_request Q (received c (trace t)) t \<and> tunnel_aimed Q t \<and>
     r \<noteq> c \<and> received r (trace t) = [] \<and> written r (trace t) = [] \<and> written c (trace t) = connect_reply (\<not> failed ec)"

text \<open>In a tunnel one operation is pending for each direction, in either order.\<close>

fun outbound :: "Pending \<Rightarrow> bool" where
  "outbound TunnelReadClient = True"
| "outbound (TunnelWriteRemote n) = True"
| "outbound _ = False"

fun inbound :: "Pending \<Rightarrow> bool" where
  "inbound TunnelReadRemote = True"
| "inbound (TunnelWriteClient n) = True"
| "inbound _ = False"

definition two_way :: "Pending list \<Rightarrow> bool" where
  "two_way ps \<longleftrightarrow> (\<exists>p q. outbound p \<and> inbound q \<and> (ps = [p, q] \<or> ps = [q, p]))"

definition tunneling :: "qt \<Rightarrow> conn \<Rightarrow> conn \<Rightarrow> Transaction \<Rightarrow> bool" where
  "tunneling Q c r t \<longleftrightarrow> two_way (pending t) \<and> alive c (Some r) t \<and> notification_state t < RequestComplete \<and>
     (\<exists>req. received c (trace t) = req @ written r (trace t) \<and> parsed_request Q req t) \<and> tunnel_aimed Q t \<and>
     written c (trace t) = connect_reply True @ received r (trace t)"

text \<open>The end: connections released, closed exactly once, and no operation left but those of a tunnel.\<close>

definition released :: "Transaction \<Rightarrow> bool" where
  "released t \<longleftrightarrow> client t = None \<and> remote t = None \<and> \<not> mutex_locked t"

definition completed :: "qt \<Rightarrow> conn \<Rightarrow> conn \<Rightarrow> Transaction \<Rightarrow> bool" where
  "completed Q c r t \<longleftrightarrow> pending t = [] \<and> released t \<and> tx_error t = no_error \<and>
     notification_state t = ResponseComplete \<and> relayed Q c r t \<and> closes (trace t) = [c, r] \<and> r \<noteq> c \<and>
     signals (trace t) = sigs ResponseComplete @ [on_transaction_complete]"

definition failed_early :: "conn \<Rightarrow> Transaction \<Rightarrow> bool" where
  "failed_early c t \<longleftrightarrow> pending t = [] \<and> released t \<and> notification_state t = NsError \<and>
     (\<exists>rs. closes (trace t) = c # rs \<and> length rs \<le> 1 \<and> c \<notin> set rs) \<and>
     (\<exists>s \<le> ResponseComplete. signals (trace t) = sigs s @ [on_transaction_failed, on_transaction_complete])"

definition tunnel_closed :: "conn \<Rightarrow> conn \<Rightarrow> Transaction \<Rightarrow> bool" where
  "tunnel_closed c r t \<longleftrightarrow> released t \<and> closes (trace t) = [c, r] \<and> r \<noteq> c \<and>
     msg_method (request t) = latin1 ''CONNECT'' \<and>
     (notification_state t < RequestComplete \<or> notification_state t = NsError) \<and>
     (\<forall>p \<in> set (pending t). outbound p \<or> inbound p) \<and>
     (\<exists>n. n + length (pending t) \<le> 2 \<and>
        signals (trace t) = on_transaction_start # concat (replicate n [on_transaction_failed, on_transaction_complete]))"

definition tx_inv :: "qt \<Rightarrow> conn \<Rightarrow> Transaction \<Rightarrow> bool" where
  "tx_inv Q c t \<longleftrightarrow> reading_request Q c t \<or> opening_remote Q c t \<or> opening_tunnel Q c t \<or> failed_early c t \<or>
     (\<exists>r. sending_request Q c r t \<or> reading_response Q c r t \<or> sending_response Q c r t \<or> completed Q c r t \<or>
        tunneling Q c r t \<or> tunnel_closed c r t \<or> (\<exists>ec. replying Q c r ec t))"

definition good :: "qt \<Rightarrow> conn \<Rightarrow> Transaction outcome \<Rightarrow> bool" where
  "good Q c r \<longleftrightarrow> (case r of Inl e \<Rightarrow> parser_abort e | Inr t \<Rightarrow> tx_inv Q c t)"

lemma good_simps [simp]:
  "good Q c (Inl e) = parser_abort e" "good Q c (Inr t) = tx_inv Q c t"
  by (simp_all add: good_def)

section \<open>From stage to stage\<close>

lemma alive_simps:
  assumes "alive c r t"
  shows "client t = Some c" "remote t = r" "r \<noteq> Some c" "\<not> mutex_locked t" "tx_error t = no_error"
    "notification_state t \<le> ResponseComplete" "signals (trace t) = sigs (notification_state t)" "closes (trace t) = []"
  using assms by (simp_all add: alive_def)

lemma fail_good: "alive c r t \<Longrightarrow> pending t = [] \<Longrightarrow> good Q c (notify_failure ec t)"
  by (auto simp: notify_failure_eq tx_inv_def failed_early_def released_def conns_def alive_def split: option.splits)

lemma unlock_id [simp]: "\<not> mutex_locked t \<Longrightarrow> t\<lparr>mutex_locked := False\<rparr> = t"
  by (cases t) simp

lemma guarded_start: "\<not> mutex_locked t \<Longrightarrow> guarded (start_op p) t = Inr (t\<lparr>pending := pending t @ [p]\<rparr>)"
  by (cases t) (simp add: guarded_def action_simps)

lemma guarded_write:
  "\<not> mutex_locked t \<Longrightarrow> guarded (async_write c data p) t =
     Inr (t\<lparr>trace := trace t @ [Write c data], pending := pending t @ [p]\<rparr>)"
  by (cases t) (simp add: guarded_def action_simps)

lemma guarded_cong: "\<not> mutex_locked t \<Longrightarrow> f (t\<lparr>mutex_locked := True\<rparr>) = g (t\<lparr>mutex_locked := True\<rparr>) \<Longrightarrow>
    guarded f t = guarded g t"
  by (simp add: guarded_def)

lemma read_client_eq:
  "\<not> mutex_locked t \<Longrightarrow> client t \<noteq> None \<Longrightarrow> read_client_request t = Inr (t\<lparr>pending := pending t @ [ReadRequest]\<rparr>)"
  unfolding read_client_request_def by (subst guarded_cong [where g = "start_op ReadRequest"]) (auto simp: guarded_start)

lemma read_remote_eq:
  "\<not> mutex_locked t \<Longrightarrow> client t = Some c \<Longrightarrow> remote t = Some r \<Longrightarrow>
   read_remote_response t = Inr (t\<lparr>pending := pending t @ [ReadResponse]\<rparr>)"
  unfolding read_remote_response_def by (subst guarded_cong [where g = "start_op ReadResponse"]) (auto simp: guarded_start)

lemma send_request_eq:
  "\<not> mutex_locked t \<Longrightarrow> client t = Some c \<Longrightarrow> remote t = Some r \<Longrightarrow> send_client_request_to_remote Q t =
     Inr (t\<lparr>trace := trace t @ [Write r (Request_format Q (request t))], pending := pending t @ [SendRequest]\<rparr>)"
  unfolding send_client_request_to_remote_def
  by (subst guarded_cong [where g = "async_write r (Request_format Q (request t)) SendRequest"]) (auto simp: guarded_write)

lemma send_response_eq:
  "\<not> mutex_locked t \<Longrightarrow> client t = Some c \<Longrightarrow> send_remote_response_to_client t =
     Inr (t\<lparr>trace := trace t @ [Write c (raw_input t)], pending := pending t @ [SendResponse]\<rparr>)"
  unfolding send_remote_response_to_client_def
  by (subst guarded_cong [where g = "async_write c (raw_input t) SendResponse"]) (auto simp: guarded_write)

lemma via_tunnel_eq:
  assumes "\<not> mutex_locked t"
  shows "send_client_request_via_tunnel t =
      Inr (if client t = None \<or> remote t = None then t else t\<lparr>pending := pending t @ [TunnelReadClient]\<rparr>)"
    and "send_server_response_via_tunnel t =
      Inr (if client t = None \<or> remote t = None then t else t\<lparr>pending := pending t @ [TunnelReadRemote]\<rparr>)"
  using assms by (cases t; auto simp: send_client_request_via_tunnel_def send_server_response_via_tunnel_def
      guarded_def action_simps)+

text \<open>Answering the only pending operation.\<close>

lemma step_single:
  "step Q t r \<Longrightarrow> pending t = [p] \<Longrightarrow>
   \<exists>a act. plausible t a \<and> resume Q p a = Some act \<and> r = act (t\<lparr>pending := []\<rparr>)"
  by (erule stepE) (auto simp: append_eq_Cons_conv)

lemma begin_good: "good Q c (Transaction_begin (Transaction_new (Some c)))"
proof -
  have "erase (request_cfg (Transaction_new (Some c))) = request_start"
    by (simp add: conf_def erase_def request_cfg_def Transaction_new_def HttpMessageParser_new_def)
  moreover have "Transaction_begin (Transaction_new (Some c)) =
      Inr ((Transaction_new (Some c))\<lparr>pending := [ReadRequest], trace := [Emit on_transaction_start]\<rparr>)"
    by (simp add: Transaction_begin_def action_simps read_client_eq Transaction_new_def)
  ultimately show ?thesis
    by (simp add: tx_inv_def reading_request_def alive_def fresh_response_def silent_def sigs_def news_def ns_order
        Transaction_new_def request_cfg_def feed_def parse_def)
qed

section \<open>The request\<close>

lemma alive_noted:
  "alive c r t \<Longrightarrow> notification_state t \<le> s \<Longrightarrow> s \<le> ResponseComplete \<Longrightarrow>
   alive c r (t\<lparr>notification_state := s, trace := trace t @ map Emit (news (notification_state t) s)\<rparr>)"
  by (simp add: alive_def sigs_news)

lemma read_more:
  assumes "feed Q k0 xs = Inr (Incomplete, erase k, [])" "parser_inv k0" "phase k \<noteq> None"
  shows "read_loop Q k data = Inl e \<Longrightarrow> parser_abort e"
    and "read_loop Q k data = Inr (phs, st, k', rest) \<Longrightarrow>
      feed Q k0 (xs @ data) = Inr (st, erase k', rest) \<and> set phs \<subseteq> {Some ReceivedMessageLine, Some ReceivedHeaders}"
proof -
  from assms(1) have both: "feed Q k0 (xs @ data) = feed Q k data" by (simp add: feed_append)
  show "parser_abort e" if "read_loop Q k data = Inl e"
    using feed_abort [OF _ assms(2), of Q "xs @ data" e] read_loop_Inl [OF that] both by simp
  show "feed Q k0 (xs @ data) = Inr (st, erase k', rest) \<and> set phs \<subseteq> {Some ReceivedMessageLine, Some ReceivedHeaders}"
    if "read_loop Q k data = Inr (phs, st, k', rest)"
    using read_loop_Inr [OF that assms(3)] both by simp
qed

lemma start_inv [simp]: "parser_inv request_start" "parser_inv response_start_cfg"
  by (simp_all add: parser_inv_def)

text \<open>The request as far as the bytes received go, when the read callback decides what to do next.\<close>

definition request_read :: "qt \<Rightarrow> conn \<Rightarrow> State \<Rightarrow> bytes \<Rightarrow> Transaction \<Rightarrow> bool" where
  "request_read Q c st left t \<longleftrightarrow> pending t = [] \<and> alive c None t \<and> notification_state t < RequestComplete \<and>
     fresh_response t \<and> silent c t \<and> opens (trace t) = [] \<and>
     feed Q request_start (received c (trace t)) = Inr (st, erase (request_cfg t), left)"

text \<open>The four ways on: read more, open a tunnel, open the host, fail.\<close>

lemma request_more:
  assumes "request_read Q c Incomplete left t"
  shows "\<exists>t'. on_request_parsed Q Incomplete t = Inr t' \<and> reading_request Q c t' \<and>
    received c (trace t') = received c (trace t)"
proof -
  from assms have "left = []" by (auto simp: request_read_def dest: feed_incomplete_rest)
  with assms show ?thesis
    by (simp add: on_request_parsed_def read_client_eq request_read_def reading_request_def alive_def
        fresh_response_def silent_def request_cfg_def)
qed

lemma request_connect:
  assumes t: "request_read Q c Valid left t" and connect: "msg_method (request t) = latin1 ''CONNECT''"
  shows "\<exists>t'. on_request_parsed Q Valid t = Inr t' \<and> opening_tunnel Q c t' \<and>
    received c (trace t') = received c (trace t)"
proof -
  from t have parsed: "parsed_request Q (received c (trace t)) t"
    by (auto simp: request_read_def parsed_request_def request_cfg_def erase_def)
  with t connect have "opening_tunnel Q c (t\<lparr>trace := trace t @ [Open (toStdString Q (fst (host_port ''443'' (msg_uri (request t)))))
        (toStdString Q (snd (host_port ''443'' (msg_uri (request t)))))], pending := [OpenTunnel]\<rparr>)"
    by (simp add: request_read_def opening_tunnel_def alive_def silent_def tunnel_aimed_def to_address_def
        parsed_request_def del: latin1_simps)
  with connect t show ?thesis
    by (simp add: request_read_def on_request_parsed_def establish_tls_tunnel_def pool_try_open_def action_simps
        del: latin1_simps)
qed

lemma request_complete:
  assumes t: "request_read Q c Valid left t"
  defines "u \<equiv> t\<lparr>notification_state := RequestComplete,
      trace := trace t @ map Emit (news (notification_state t) RequestComplete)\<rparr>"
  shows "do_notification RequestComplete t = Inr u" and "alive c None u"
proof -
  have ns: "notification_state t < RequestComplete" and "alive c None t" using t by (auto simp: request_read_def)
  then have "RequestComplete \<le> ResponseComplete" and mx: "max (notification_state t) RequestComplete = RequestComplete"
    by (simp_all add: ns_order max_def)
  then show "do_notification RequestComplete t = Inr u" by (simp add: do_notification_eq u_def)
  show "alive c None u"
    using alive_noted [of c None t RequestComplete] t ns by (simp add: request_read_def u_def less_imp_le ns_order)
qed

lemma request_host:
  assumes t: "request_read Q c Valid left t" and meth: "msg_method (request t) \<noteq> latin1 ''CONNECT''"
    and host: "find_by_name Q (msg_headers (request t)) (latin1 ''Host'') = host # hosts"
  shows "\<exists>t'. on_request_parsed Q Valid t = Inr t' \<and> opening_remote Q c t' \<and>
    received c (trace t') = received c (trace t)"
proof -
  let ?t = "t\<lparr>notification_state := RequestComplete,
      trace := trace t @ map Emit (news (notification_state t) RequestComplete)\<rparr>"
  let ?u = "?t\<lparr>trace := trace ?t @ [Open (toStdString Q (fst (host_port ''80'' host))) (toStdString Q (snd (host_port ''80'' host)))],
      pending := [OpenRemote]\<rparr>"
  from t have parsed: "parsed_request Q (received c (trace t)) t"
    by (auto simp: request_read_def parsed_request_def request_cfg_def erase_def)
  with t meth host request_complete(2) [OF t] have "opening_remote Q c ?u"
    by (simp add: request_read_def opening_remote_def alive_def fresh_response_def silent_def parsed_request_def
        aimed_def to_address_def del: latin1_simps)
  moreover have "on_request_parsed Q Valid t = Inr ?u"
    using t meth host request_complete(1) [OF t]
    by (simp add: request_read_def on_request_parsed_def open_remote_connection_def pool_try_open_def action_simps
        del: latin1_simps)
  ultimately show ?thesis by (intro exI [of _ ?u]) simp
qed

lemma request_parsed_good:
  assumes "request_read Q c st left t"
  shows "good Q c (on_request_parsed Q st t)"
proof (cases st)
  case Incomplete
  with request_more assms show ?thesis by (fastforce simp: tx_inv_def)
next
  case Invalid
  with fail_good [of c None t] assms show ?thesis by (simp add: request_read_def on_request_parsed_def)
next
  case Valid
  with assms have t: "request_read Q c Valid left t" by simp
  show ?thesis
  proof (cases "msg_method (request t) = latin1 ''CONNECT''")
    case True
    with request_connect [OF t] Valid show ?thesis by (auto simp: tx_inv_def)
  next
    case False
    show ?thesis
    proof (cases "find_by_name Q (msg_headers (request t)) (latin1 ''Host'')")
      case Nil
      with False Valid request_complete(1) [OF t] fail_good [OF request_complete(2) [OF t], of Q "make_error_code MalformedRequest"]
        t show ?thesis
        by (simp add: request_read_def on_request_parsed_def open_remote_connection_def del: latin1_simps)
    next
      case (Cons host hosts)
      from request_host [OF t False Cons] Valid show ?thesis by (auto simp: tx_inv_def)
    qed
  qed
qed

text \<open>A read that succeeds ends in the parser or at that decision, with the bytes added.\<close>

abbreviation (input) answered :: "qt \<Rightarrow> Pending \<Rightarrow> Answer \<Rightarrow> Transaction \<Rightarrow> Transaction outcome" where
  "answered Q p a t \<equiv> the (resume Q p a) (t\<lparr>pending := []\<rparr>)"

lemma request_bytes:
  assumes inv: "reading_request Q c t" and ok: "\<not> failed ec" "ec \<noteq> asio_eof"
  shows "(\<exists>e. answered Q ReadRequest (ReadDone ec data) t = Inl e \<and> parser_abort e \<and>
      feed Q request_start (received c (trace t) @ data) = Inl e) \<or>
    (\<exists>st left u. answered Q ReadRequest (ReadDone ec data) t = on_request_parsed Q st u \<and> request_read Q c st left u \<and>
      received c (trace u) = received c (trace t) @ data)"
proof -
  from inv have t: "pending t = [ReadRequest]" "alive c None t" "notification_state t < RequestComplete"
      "fresh_response t" "silent c t" "opens (trace t) = []"
    and fed: "feed Q request_start (received c (trace t)) = Inr (Incomplete, erase (request_cfg t), [])"
    by (auto simp: reading_request_def)
  let ?t = "t\<lparr>pending := [], trace := trace t @ [Received c data]\<rparr>"
  have r: "answered Q ReadRequest (ReadDone ec data) t = on_request_bytes Q ec data ?t"
    using t(2) by (simp add: receive_def action_simps alive_def)
  have alive: "alive c None ?t" using t(2) by (simp add: alive_def)
  have k: "request_cfg ?t = request_cfg t" "phase (request_cfg t) \<noteq> None" by (simp_all add: request_cfg_def)
  show ?thesis
  proof (cases "read_loop Q (request_cfg t) data")
    case (Inl e)
    from read_loop_Inl [OF Inl] fed have "feed Q request_start (received c (trace t) @ data) = Inl e"
      by (simp add: feed_append)
    with read_more(1) [OF fed start_inv(1) k(2) Inl] Inl ok show ?thesis
      unfolding r by (simp add: on_request_bytes_def k)
  next
    case (Inr res)
    obtain phs st k' rest where res: "res = (phs, st, k', rest)" by (cases res)
    from read_more(2) [OF fed start_inv(1) k(2) Inr [unfolded res]]
    have fed': "feed Q request_start (received c (trace t) @ data) = Inr (st, erase k', rest)"
      and phs: "set phs \<subseteq> {Some ReceivedMessageLine, Some ReceivedHeaders}" by auto
    let ?u = "?t\<lparr>tx_parser := parser k', request := message k', request_parse_phase := the (phase k')\<rparr>"
    from notify_phases_eq [OF phs, of ?u] t(3) obtain s where s: "notification_state t \<le> s" "s < RequestComplete"
      and noted: "notify_phases phs ?u = Inr (?u\<lparr>notification_state := s,
        trace := trace ?u @ map Emit (news (notification_state t) s)\<rparr>)" (is "_ = Inr ?v")
      by auto
    have "alive c None ?u" using alive by (simp add: alive_def)
    from alive_noted [OF this, of s] s have "alive c None ?v" by (simp add: ns_order)
    moreover have "erase (request_cfg ?v) = erase k'" by (simp add: request_cfg_def erase_def)
    ultimately have "request_read Q c st rest ?v"
      using s t fed' by (simp add: request_read_def fresh_response_def silent_def)
    moreover have "answered Q ReadRequest (ReadDone ec data) t = on_request_parsed Q st ?v"
      using ok Inr res noted unfolding r by (simp add: on_request_bytes_def k store_request_def)
    moreover have "received c (trace ?v) = received c (trace t) @ data" by simp
    ultimately show ?thesis by blast
  qed
qed

lemma reading_request_good:
  assumes inv: "reading_request Q c t" and step: "step Q t r"
  shows "good Q c r"
proof -
  from inv have t: "pending t = [ReadRequest]" "alive c None t" by (auto simp: reading_request_def)
  from step_single [OF step t(1)] obtain ec data where r: "r = answered Q ReadRequest (ReadDone ec data) t"
    by (auto elim: resume.elims)
  show ?thesis
  proof (cases "failed ec \<or> ec = asio_eof")
    case True
    have "alive c None (t\<lparr>pending := [], trace := trace t @ [Received c data]\<rparr>)" using t(2) by (simp add: alive_def)
    from fail_good [OF this] True t(2) show ?thesis
      by (auto simp: r on_request_bytes_def receive_def action_simps alive_def)
  next
    case False
    with request_bytes [OF inv, of ec data] request_parsed_good r show ?thesis by auto
  qed
qed

section \<open>The response\<close>

lemma alive_idle: "alive c r t \<Longrightarrow> alive c r (t\<lparr>pending := ps\<rparr>)"
  by (simp add: alive_def)

lemma remote_opened:
  assumes inv: "opening_remote Q c t" and d: "client t \<noteq> Some d" and ok: "try_open e1 e2 d = (conn, ec)" "\<not> failed ec"
  shows "\<exists>t'. answered Q OpenRemote (OpenDone e1 e2 d) t = Inr t' \<and> sending_request Q c d t' \<and>
    received c (trace t') = received c (trace t)"
proof -
  from inv have t: "alive c None t" by (auto simp: opening_remote_def)
  from pool.answers [OF ok(1)] ok(2) have conn: "conn = Some d" by simp
  have "answered Q OpenRemote (OpenDone e1 e2 d) t = Inr (t\<lparr>pending := [], remote := Some d,
      trace := trace t @ [Write d (Request_format Q (request t))], pending := [SendRequest]\<rparr>)" (is "_ = Inr ?u")
    using ok conn t by (simp add: on_remote_open_def send_request_eq alive_def)
  moreover have "sending_request Q c d ?u"
    using inv d
    by (auto simp: opening_remote_def sending_request_def alive_def fresh_response_def silent_def parsed_request_def
        aimed_def)
  ultimately show ?thesis by auto
qed

lemma opening_remote_good:
  assumes inv: "opening_remote Q c t" and step: "step Q t r"
  shows "good Q c r"
proof -
  from inv have t: "pending t = [OpenRemote]" "alive c None t" by (auto simp: opening_remote_def)
  from step_single [OF step t(1)] obtain e1 e2 d where d: "client t \<noteq> Some d" and
    r: "r = answered Q OpenRemote (OpenDone e1 e2 d) t"
    by (auto elim: resume.elims)
  obtain conn ec where answer: "try_open e1 e2 d = (conn, ec)" by (cases "try_open e1 e2 d")
  show ?thesis
  proof (cases "failed ec")
    case True
    with fail_good [OF alive_idle [OF t(2)], of "[]"] r answer show ?thesis by (simp add: on_remote_open_def)
  next
    case False
    from remote_opened [OF inv d answer False] r show ?thesis by (auto simp: tx_inv_def)
  qed
qed

lemma request_sent:
  assumes inv: "sending_request Q c d t" and ok: "\<not> failed ec"
  shows "\<exists>t'. answered Q SendRequest (WriteDone ec n) t = Inr t' \<and> reading_response Q c d t' \<and>
    received c (trace t') = received c (trace t) \<and> received d (trace t') = []"
proof -
  from inv have t: "alive c (Some d) t" by (auto simp: sending_request_def)
  have "answered Q SendRequest (WriteDone ec n) t = Inr (t\<lparr>pending := [], raw_input := [],
      tx_parser := resetForResponse (tx_parser t), pending := [ReadResponse]\<rparr>)" (is "_ = Inr ?u")
    using ok t by (simp add: on_request_sent_def read_remote_eq alive_def)
  moreover have "erase (response_cfg ?u) = response_start_cfg"
    using inv
    by (cases "tx_parser t") (simp add: sending_request_def fresh_response_def erase_def conf_def response_cfg_def
        resetForResponse_def)
  then have "reading_response Q c d ?u"
    using inv by (simp add: sending_request_def reading_response_def alive_def parsed_request_def aimed_def
        feed_def parse_def ns_order)
  ultimately show ?thesis using inv by (auto simp: sending_request_def)
qed

lemma sending_request_good:
  assumes inv: "sending_request Q c d t" and step: "step Q t r"
  shows "good Q c r"
proof -
  from inv have t: "pending t = [SendRequest]" "alive c (Some d) t" by (auto simp: sending_request_def)
  from step_single [OF step t(1)] obtain ec n where r: "r = answered Q SendRequest (WriteDone ec n) t"
    by (auto elim: resume.elims)
  show ?thesis
  proof (cases "failed ec")
    case True
    with fail_good [OF alive_idle [OF t(2)], of "[]"] r show ?thesis by (simp add: on_request_sent_def)
  next
    case False
    from request_sent [OF inv False] r show ?thesis by (auto simp: tx_inv_def)
  qed
qed

text \<open>The response as far as the bytes received go, when the read callback decides what to do next.\<close>

definition response_read :: "qt \<Rightarrow> conn \<Rightarrow> conn \<Rightarrow> State \<Rightarrow> bytes \<Rightarrow> Transaction \<Rightarrow> bool" where
  "response_read Q c d st left t \<longleftrightarrow> pending t = [] \<and> alive c (Some d) t \<and>
     RequestComplete \<le> notification_state t \<and> notification_state t < ResponseComplete \<and>
     parsed_request Q (received c (trace t)) t \<and> aimed Q t \<and>
     written d (trace t) = Request_format Q (request t) \<and> written c (trace t) = [] \<and>
     raw_input t = received d (trace t) \<and>
     feed Q response_start_cfg (received d (trace t)) = Inr (st, erase (response_cfg t), left)"

lemma response_more:
  assumes "response_read Q c d Incomplete left t"
  shows "\<exists>t'. on_response_parsed Incomplete t = Inr t' \<and> reading_response Q c d t' \<and>
    received c (trace t') = received c (trace t) \<and> received d (trace t') = received d (trace t)"
proof -
  from assms have "left = []" by (auto simp: response_read_def dest: feed_incomplete_rest)
  with assms have "reading_response Q c d (t\<lparr>pending := [ReadResponse]\<rparr>)"
    by (simp add: response_read_def reading_response_def alive_def response_cfg_def parsed_request_def aimed_def)
  with assms show ?thesis
    by (simp add: response_read_def on_response_parsed_def read_remote_eq alive_def)
qed

lemma response_complete:
  assumes t: "response_read Q c d Valid left t"
  shows "\<exists>t'. on_response_parsed Valid t = Inr t' \<and> sending_response Q c d t' \<and>
    received c (trace t') = received c (trace t) \<and> received d (trace t') = received d (trace t)"
proof -
  from t have alive: "alive c (Some d) t" and ns: "notification_state t < ResponseComplete" and idle: "pending t = []"
    by (auto simp: response_read_def)
  from t have parsed: "parsed_response Q (received d (trace t)) t"
    by (auto simp: response_read_def parsed_response_def response_cfg_def erase_def)
  let ?t = "t\<lparr>notification_state := ResponseComplete,
      trace := trace t @ map Emit (news (notification_state t) ResponseComplete)\<rparr>"
  have "max (notification_state t) ResponseComplete = ResponseComplete"
    using ns by (intro max_absorb2) simp
  then have noted: "do_notification ResponseComplete t = Inr ?t" by (simp add: do_notification_eq)
  have alive': "alive c (Some d) ?t"
    using alive_noted [OF alive, of ResponseComplete] ns by simp
  let ?u = "?t\<lparr>trace := trace ?t @ [Write c (raw_input t)], pending := [SendResponse]\<rparr>"
  have "on_response_parsed Valid t = Inr ?u"
    using noted alive' idle by (simp add: on_response_parsed_def send_response_eq alive_def)
  moreover have "sending_response Q c d ?u"
    using alive' t parsed
    by (auto simp: response_read_def sending_response_def relayed_def alive_def parsed_request_def parsed_response_def aimed_def)
  ultimately show ?thesis by (intro exI [of _ ?u]) simp
qed

lemma response_parsed_good:
  assumes "response_read Q c d st left t"
  shows "good Q c (on_response_parsed st t)"
proof (cases st)
  case Incomplete
  with response_more assms show ?thesis by (fastforce simp: tx_inv_def)
next
  case Invalid
  with fail_good [of c "Some d" t] assms show ?thesis by (simp add: response_read_def on_response_parsed_def)
next
  case Valid
  with response_complete assms show ?thesis by (fastforce simp: tx_inv_def)
qed

lemma response_bytes:
  assumes inv: "reading_response Q c d t" and ok: "\<not> failed ec" "ec \<noteq> asio_eof"
  shows "(\<exists>e. answered Q ReadResponse (ReadDone ec data) t = Inl e \<and> parser_abort e \<and>
      feed Q response_start_cfg (received d (trace t) @ data) = Inl e) \<or>
    (\<exists>st left u. answered Q ReadResponse (ReadDone ec data) t = on_response_parsed st u \<and> response_read Q c d st left u \<and>
      received c (trace u) = received c (trace t) \<and> received d (trace u) = received d (trace t) @ data)"
proof -
  from inv have t: "pending t = [ReadResponse]" "alive c (Some d) t" "RequestComplete \<le> notification_state t"
      "notification_state t < ResponseComplete"
    and req: "parsed_request Q (received c (trace t)) t" "aimed Q t" "written d (trace t) = Request_format Q (request t)"
      "written c (trace t) = []" and raw: "raw_input t = received d (trace t)"
    and fed: "feed Q response_start_cfg (received d (trace t)) = Inr (Incomplete, erase (response_cfg t), [])"
    by (auto simp: reading_response_def)
  let ?t = "t\<lparr>pending := [], trace := trace t @ [Received d data]\<rparr>"
  have r: "answered Q ReadResponse (ReadDone ec data) t = on_response_bytes Q ec data ?t"
    using t(2) by (simp add: receive_def action_simps alive_def)
  have alive: "alive c (Some d) ?t" and dc: "d \<noteq> c" using t(2) by (auto simp: alive_def)
  have k: "response_cfg (?t\<lparr>raw_input := x\<rparr>) = response_cfg t" "phase (response_cfg t) \<noteq> None" for x
    by (simp_all add: response_cfg_def)
  show ?thesis
  proof (cases "read_loop Q (response_cfg t) data")
    case (Inl e)
    from read_loop_Inl [OF Inl] fed have "feed Q response_start_cfg (received d (trace t) @ data) = Inl e"
      by (simp add: feed_append)
    with read_more(1) [OF fed start_inv(2) k(2) Inl] Inl ok show ?thesis
      unfolding r by (simp add: on_response_bytes_def k)
  next
    case (Inr res)
    obtain phs st k' rest where res: "res = (phs, st, k', rest)" by (cases res)
    from read_more(2) [OF fed start_inv(2) k(2) Inr [unfolded res]]
    have fed': "feed Q response_start_cfg (received d (trace t) @ data) = Inr (st, erase k', rest)"
      and phs: "set phs \<subseteq> {Some ReceivedMessageLine, Some ReceivedHeaders}" by auto
    let ?u = "?t\<lparr>raw_input := raw_input t @ data, tx_parser := parser k', response := message k',
        response_parse_phase := the (phase k')\<rparr>"
    from notify_phases_eq [OF phs, of ?u] t(3,4) obtain s where s: "notification_state t \<le> s" "s < ResponseComplete"
      and noted: "notify_phases phs ?u = Inr (?u\<lparr>notification_state := s,
        trace := trace ?u @ map Emit (news (notification_state t) s)\<rparr>)" (is "_ = Inr ?v")
      by auto
    have "alive c (Some d) ?u" using alive by (simp add: alive_def)
    from alive_noted [OF this, of s] s have "alive c (Some d) ?v" by simp
    moreover have "erase (response_cfg ?v) = erase k'" by (simp add: response_cfg_def erase_def)
    moreover have "RequestComplete \<le> s" using s(1) t(3) by (rule order_trans [rotated])
    ultimately have "response_read Q c d st rest ?v"
      using s req raw fed' dc by (auto simp: response_read_def parsed_request_def aimed_def)
    moreover have "answered Q ReadResponse (ReadDone ec data) t = on_response_parsed st ?v"
      using ok Inr res noted unfolding r by (simp add: on_response_bytes_def k store_response_def)
    moreover have "received c (trace ?v) = received c (trace t)" "received d (trace ?v) = received d (trace t) @ data"
      using dc by simp_all
    ultimately show ?thesis by blast
  qed
qed

lemma reading_response_good:
  assumes inv: "reading_response Q c d t" and step: "step Q t r"
  shows "good Q c r"
proof -
  from inv have t: "pending t = [ReadResponse]" "alive c (Some d) t" by (auto simp: reading_response_def)
  from step_single [OF step t(1)] obtain ec data where r: "r = answered Q ReadResponse (ReadDone ec data) t"
    by (auto elim: resume.elims)
  show ?thesis
  proof (cases "failed ec \<or> ec = asio_eof")
    case True
    have "alive c (Some d) (t\<lparr>pending := [], trace := trace t @ [Received d data]\<rparr>)" using t(2) by (simp add: alive_def)
    from fail_good [OF this] True t(2) show ?thesis
      by (auto simp: r on_response_bytes_def receive_def action_simps alive_def)
  next
    case False
    with response_bytes [OF inv, of ec data] response_parsed_good r show ?thesis by auto
  qed
qed

lemma response_sent:
  assumes inv: "sending_response Q c d t" and ok: "\<not> failed ec" "ec \<noteq> asio_eof"
  shows "\<exists>t'. answered Q SendResponse (WriteDone ec n) t = Inr t' \<and> completed Q c d t' \<and>
    received c (trace t') = received c (trace t) \<and> received d (trace t') = received d (trace t)"
proof -
  from inv have t: "alive c (Some d) t" "relayed Q c d t" "notification_state t = ResponseComplete"
    by (auto simp: sending_response_def)
  with ok have "answered Q SendResponse (WriteDone ec n) t = Inr (t\<lparr>pending := [], client := None, remote := None,
      trace := trace t @ [Close c, Close d, Emit on_transaction_complete]\<rparr>)" (is "_ = Inr ?u")
    by (simp add: on_response_sent_def complete_eq alive_def conns_def)
  moreover have "completed Q c d ?u"
    using t by (auto simp: completed_def released_def relayed_def alive_def parsed_request_def parsed_response_def aimed_def)
  ultimately show ?thesis by (intro exI [of _ ?u]) simp
qed

lemma sending_response_good:
  assumes inv: "sending_response Q c d t" and step: "step Q t r"
  shows "good Q c r"
proof -
  from inv have t: "pending t = [SendResponse]" "alive c (Some d) t" by (auto simp: sending_response_def)
  from step_single [OF step t(1)] obtain ec n where r: "r = answered Q SendResponse (WriteDone ec n) t"
    by (auto elim: resume.elims)
  show ?thesis
  proof (cases "failed ec \<or> ec = asio_eof")
    case True
    with fail_good [OF alive_idle [OF t(2)], of "[]"] r show ?thesis by (auto simp: on_response_sent_def)
  next
    case False
    with response_sent [OF inv, of ec n] r show ?thesis by (auto simp: tx_inv_def)
  qed
qed

section \<open>Tunnels\<close>

lemma opening_tunnel_good:
  assumes inv: "opening_tunnel Q c t" and step: "step Q t r"
  shows "good Q c r"
proof -
  from inv have t: "pending t = [OpenTunnel]" "alive c None t" by (auto simp: opening_tunnel_def)
  from step_single [OF step t(1)] obtain e1 e2 d where d: "client t \<noteq> Some d" and
    r: "r = (case try_open e1 e2 d of (conn, ec) \<Rightarrow> on_tunnel_open conn ec) (t\<lparr>pending := []\<rparr>)"
    by (auto elim: resume.elims)
  obtain conn ec where answer: "try_open e1 e2 d = (conn, ec)" by (cases "try_open e1 e2 d")
  with pool.answers have conn: "conn = (if failed ec then None else Some d)" by blast
  let ?t = "t\<lparr>pending := [], remote := conn\<rparr>"
  have same: "t\<lparr>pending := []\<rparr> = ?t" if "failed ec"
    using that t(2) conn by (cases t) (simp add: alive_def)
  let ?body = "\<lambda>t. case client t of None \<Rightarrow> fail ClientDisconnected t
      | Some c \<Rightarrow> async_write c (connect_reply (\<not> failed ec)) (SendConnectReply ec) t"
  have "r = guarded ?body (if failed ec then t\<lparr>pending := []\<rparr> else ?t)"
    using r answer by (simp add: on_tunnel_open_def Let_def)
  also have "\<dots> = guarded ?body ?t"
    using same by (cases "failed ec") (simp_all only: if_True if_False)
  also have "\<dots> = guarded (async_write c (connect_reply (\<not> failed ec)) (SendConnectReply ec)) ?t"
    using t(2) by (intro guarded_cong) (simp_all add: alive_def)
  finally have "r = Inr (?t\<lparr>trace := trace t @ [Write c (connect_reply (\<not> failed ec))], pending := [SendConnectReply ec]\<rparr>)"
      (is "_ = Inr ?u")
    using t(2) by (simp add: guarded_write alive_def)
  moreover have "replying Q c d ec ?u"
    using inv d conn
    by (auto simp: opening_tunnel_def replying_def alive_def silent_def parsed_request_def tunnel_aimed_def)
  ultimately show ?thesis by (auto simp: tx_inv_def)
qed

lemma replying_good:
  assumes inv: "replying Q c d ec t" and step: "step Q t r"
  shows "good Q c r"
proof -
  from inv have t: "pending t = [SendConnectReply ec]" "alive c (if failed ec then None else Some d) t"
    by (auto simp: replying_def)
  from step_single [OF step t(1)] obtain ec2 n where r: "r = on_connect_reply_sent ec ec2 (t\<lparr>pending := []\<rparr>)"
    by (auto elim: resume.elims)
  show ?thesis
  proof (cases "failed ec \<or> failed ec2")
    case True
    with fail_good [OF alive_idle [OF t(2)], of "[]"] r show ?thesis
      by (auto simp: on_connect_reply_sent_def Let_def)
  next
    case False
    with r t(2) have r: "r = Inr (t\<lparr>pending := [TunnelReadClient, TunnelReadRemote]\<rparr>)"
      by (simp add: on_connect_reply_sent_def via_tunnel_eq alive_def)
    have "two_way [TunnelReadClient, TunnelReadRemote]"
      unfolding two_way_def by (intro exI [of _ TunnelReadClient] exI [of _ TunnelReadRemote]) simp
    with inv False have "tunneling Q c d (t\<lparr>pending := [TunnelReadClient, TunnelReadRemote]\<rparr>)"
      by (auto simp: replying_def tunneling_def alive_def parsed_request_def tunnel_aimed_def)
    with r show ?thesis by (auto simp: tx_inv_def)
  qed
qed

text \<open>Taking an operation out of a tunnel, and putting its successor at the end.\<close>

lemma two_way_rest:
  assumes "two_way (ps @ p # qs)"
  shows "\<exists>o'. ps @ qs = [o'] \<and> (outbound o' \<or> inbound o') \<and>
    (outbound p \<longrightarrow> (\<forall>n. outbound n \<longrightarrow> two_way (ps @ qs @ [n]))) \<and> (inbound p \<longrightarrow> (\<forall>n. inbound n \<longrightarrow> two_way (ps @ qs @ [n])))"
proof -
  have excl: "\<not> (outbound p \<and> inbound p)" for p by (cases p) simp_all
  from assms excl show ?thesis
    by (auto simp: two_way_def append_eq_Cons_conv)
qed

lemma tunnel_released:
  "alive c (Some d) t \<Longrightarrow> msg_method (request t) = latin1 ''CONNECT'' \<Longrightarrow> notification_state t < RequestComplete \<Longrightarrow> length (pending t) \<le> 1 \<Longrightarrow>
   \<forall>p \<in> set (pending t). outbound p \<or> inbound p \<Longrightarrow>
   good Q c (release_connections t) \<and> good Q c (notify_failure ec t)"
proof -
  assume a: "alive c (Some d) t" "msg_method (request t) = latin1 ''CONNECT''" "notification_state t < RequestComplete" "length (pending t) \<le> 1"
    "\<forall>p \<in> set (pending t). outbound p \<or> inbound p"
  then have "sigs (notification_state t) = [on_transaction_start]"
    by (auto simp: sigs_def news_def ns_order)
  with a have "tunnel_closed c d (t\<lparr>client := None, remote := None, trace := trace t @ [Close c, Close d]\<rparr>)"
    and "tunnel_closed c d (t\<lparr>client := None, remote := None, tx_error := ec, notification_state := NsError,
      trace := trace t @ [Close c, Close d, Emit on_transaction_failed, Emit on_transaction_complete]\<rparr>)"
    by (auto simp: tunnel_closed_def released_def alive_def simp del: latin1_simps intro: exI [of _ 0] exI [of _ "1 :: nat"])
  with a(1) show ?thesis
    by (auto simp: release_eq notify_failure_eq alive_def conns_def tx_inv_def)
qed

lemma tunnel_op_cases:
  assumes "outbound p \<or> inbound p" "resume Q p a = Some act"
  shows "(\<exists>ec data. p = TunnelReadClient \<and> a = ReadDone ec data \<and>
        act = (\<lambda>t. seq [receive (client t) data, on_tunnel_client_bytes ec data] t)) \<or>
     (\<exists>m ec n. p = TunnelWriteRemote m \<and> a = WriteDone ec n \<and> act = on_tunnel_remote_written m ec n) \<or>
     (\<exists>ec data. p = TunnelReadRemote \<and> a = ReadDone ec data \<and>
        act = (\<lambda>t. seq [receive (remote t) data, on_tunnel_remote_bytes ec data] t)) \<or>
     (\<exists>m ec n. p = TunnelWriteClient m \<and> a = WriteDone ec n \<and> act = on_tunnel_client_written m ec n)"
  using assms by (cases p; cases a) auto

lemma tunneling_alive:
  "tunneling Q c d t \<Longrightarrow> alive c (Some d) t \<and> notification_state t < RequestComplete \<and> d \<noteq> c \<and>
     msg_method (request t) = latin1 ''CONNECT''"
  by (auto simp: tunneling_def alive_def tunnel_aimed_def)

lemma tunneling_pending: "tunneling Q c d t \<Longrightarrow> two_way ps \<Longrightarrow> tunneling Q c d (t\<lparr>pending := ps\<rparr>)"
  by (simp add: tunneling_def alive_def parsed_request_def tunnel_aimed_def)

lemma tunneling_relay:
  assumes "tunneling Q c d t" "two_way ps" "(x, y) \<in> {(c, d), (d, c)}"
  shows "tunneling Q c d (t\<lparr>pending := qs, trace := trace t @ [Received x data, Write y data], pending := ps\<rparr>)"
  using assms by (auto simp: tunneling_def alive_def parsed_request_def tunnel_aimed_def)

lemma tunneling_good:
  assumes inv: "tunneling Q c d t" and step: "step Q t r"
  shows "good Q c r"
  using step
proof cases
  case (answer ps p qs a act)
  from inv have two: "two_way (ps @ p # qs)" by (simp add: tunneling_def answer(2))
  from two_way_rest [OF two] obtain o' where rest: "ps @ qs = [o']" "outbound o' \<or> inbound o'"
    and again: "\<And>n. outbound p \<Longrightarrow> outbound n \<Longrightarrow> two_way (ps @ qs @ [n])"
      "\<And>n. inbound p \<Longrightarrow> inbound n \<Longrightarrow> two_way (ps @ qs @ [n])"
    by blast
  from tunneling_alive [OF inv] have t: "alive c (Some d) t" "notification_state t < RequestComplete" "d \<noteq> c"
    and connect: "msg_method (request t) = latin1 ''CONNECT''" by auto
  let ?t = "t\<lparr>pending := ps @ qs\<rparr>"
  have len: "length (ps @ qs) \<le> 1" "\<forall>p \<in> set (ps @ qs). outbound p \<or> inbound p" using rest by simp_all
  have over: "good Q c (release_connections (?t\<lparr>trace := trace t @ tr\<rparr>)) \<and> good Q c (notify_failure e (?t\<lparr>trace := trace t @ tr\<rparr>))"
    if "signals tr = []" "closes tr = []" for tr e
    by (rule tunnel_released) (use t connect len that in \<open>simp_all add: alive_def\<close>)
  from over [of "[]"] have over0: "good Q c (notify_failure e ?t)" for e by (cases t) simp
  have loop: "good Q c (send_client_request_via_tunnel ?t)" if "outbound p"
    using tunneling_pending [OF inv again(1) [OF that, of TunnelReadClient]] t
    by (auto simp: via_tunnel_eq alive_def tx_inv_def)
  have loop': "good Q c (send_server_response_via_tunnel ?t)" if "inbound p"
    using tunneling_pending [OF inv again(2) [OF that, of TunnelReadRemote]] t
    by (auto simp: via_tunnel_eq alive_def tx_inv_def)
  have "outbound p \<or> inbound p" using two by (auto simp: two_way_def append_eq_Cons_conv)
  from tunnel_op_cases [OF this answer(4)] consider
      (rc) ec data where "p = TunnelReadClient" "act = (\<lambda>t. seq [receive (client t) data, on_tunnel_client_bytes ec data] t)"
    | (wr) m ec n where "p = TunnelWriteRemote m" "act = on_tunnel_remote_written m ec n"
    | (rr) ec data where "p = TunnelReadRemote" "act = (\<lambda>t. seq [receive (remote t) data, on_tunnel_remote_bytes ec data] t)"
    | (wc) m ec n where "p = TunnelWriteClient m" "act = on_tunnel_client_written m ec n"
    by blast
  then show ?thesis
  proof cases
    case rc
    let ?u = "?t\<lparr>trace := trace t @ [Received c data]\<rparr>"
    have "guarded (\<lambda>t. case remote t of None \<Rightarrow> Inr t | Some r \<Rightarrow> async_write r data (TunnelWriteRemote (length data)) t) ?u =
        guarded (async_write d data (TunnelWriteRemote (length data))) ?u"
      using t by (intro guarded_cong) (simp_all add: alive_def)
    with tunneling_relay [OF inv again(1) [of "TunnelWriteRemote (length data)"], where x = c and y = d and qs = "ps @ qs" and data = data]
      t rc over [of "[Received c data]"] answer(1) show ?thesis
      by (auto simp: receive_def record_event_def alive_def on_tunnel_client_bytes_def guarded_write tx_inv_def)
  next
    case wr
    with over0 loop answer(1) show ?thesis by (auto simp: on_tunnel_remote_written_def)
  next
    case rr
    let ?u = "?t\<lparr>trace := trace t @ [Received d data]\<rparr>"
    have "guarded (\<lambda>t. case client t of None \<Rightarrow> Inr t | Some c \<Rightarrow> async_write c data (TunnelWriteClient (length data)) t) ?u =
        guarded (async_write c data (TunnelWriteClient (length data))) ?u"
      using t by (intro guarded_cong) (simp_all add: alive_def)
    with tunneling_relay [OF inv again(2) [of "TunnelWriteClient (length data)"], where x = d and y = c and qs = "ps @ qs" and data = data]
      t rr over [of "[Received d data]"] answer(1) show ?thesis
      by (auto simp: receive_def record_event_def alive_def on_tunnel_remote_bytes_def guarded_write tx_inv_def)
  next
    case wc
    with over0 loop' answer(1) show ?thesis by (auto simp: on_tunnel_client_written_def)
  qed
qed

lemma tunnel_closed_good:
  assumes inv: "tunnel_closed c d t" and step: "step Q t r"
  shows "good Q c r"
  using step
proof cases
  case (answer ps p qs a act)
  let ?t = "t\<lparr>pending := ps @ qs\<rparr>"
  from inv obtain n where n: "n + length (ps @ qs) \<le> 1"
      "signals (trace t) = on_transaction_start # concat (replicate n [on_transaction_failed, on_transaction_complete])"
    by (auto simp: tunnel_closed_def answer(2))
  from n have "n + length (ps @ qs) \<le> 2" by simp
  with inv n(2) have "tunnel_closed c d ?t"
    unfolding tunnel_closed_def released_def by (simp add: answer(2)) blast
  then have quiet: "tx_inv Q c ?t" by (auto simp: tx_inv_def)
  have none: "client t = None" "remote t = None" "\<not> mutex_locked t"
    using inv by (simp_all add: tunnel_closed_def released_def)
  then have same: "t\<lparr>pending := ps @ qs, client := None, remote := None\<rparr> = ?t" by (cases t) simp
  then have rel: "good Q c (release_connections ?t)"
    using none quiet by (simp add: release_eq conns_def same)
  have more: "concat (replicate n x) @ x = concat (replicate (Suc n) x)" for x :: "Signal list"
    by (induction n) simp_all
  have "\<exists>m. m + length (ps @ qs) \<le> 2 \<and> signals (trace t) @ [on_transaction_failed, on_transaction_complete] =
      on_transaction_start # concat (replicate m [on_transaction_failed, on_transaction_complete])"
    using n by (intro exI [of _ "Suc n"]) (simp add: more)
  then have "tunnel_closed c d (?t\<lparr>client := None, remote := None, tx_error := e, notification_state := NsError,
      trace := trace t @ [Emit on_transaction_failed, Emit on_transaction_complete]\<rparr>)" for e
    using inv by (simp add: tunnel_closed_def released_def answer(2))
  then have fails: "good Q c (notify_failure e ?t)" for e
    using none by (auto simp: notify_failure_eq conns_def tx_inv_def)
  have "outbound p \<or> inbound p" using inv by (simp add: tunnel_closed_def answer(2))
  from tunnel_op_cases [OF this answer(4)] show ?thesis
    using answer(1) none quiet rel fails
    by (auto simp: receive_def on_tunnel_client_bytes_def on_tunnel_remote_bytes_def on_tunnel_remote_written_def
        on_tunnel_client_written_def guarded_def via_tunnel_eq)
qed

section \<open>Reachable states\<close>

lemma step_good: "tx_inv Q c t \<Longrightarrow> step Q t r \<Longrightarrow> good Q c r"
  unfolding tx_inv_def
  by (elim disjE exE)
    (auto intro: reading_request_good opening_remote_good opening_tunnel_good sending_request_good
      reading_response_good sending_response_good tunneling_good tunnel_closed_good replying_good
      elim: stepE simp: failed_early_def completed_def)

lemma reachable_good: "reachable Q c r \<Longrightarrow> good Q c r"
  by (induction rule: reachable.induct) (auto intro: begin_good step_good)

end
