(* ===== verification/TransactionProps.thy ===== *)
theory TransactionProps
  imports TransactionInv RoundTrip
begin

text \<open>
  The properties of a transaction over all reachable states, and runs that show where the code does not
  do what its comments and signal names promise.
\<close>

section \<open>Runs\<close>

text \<open>A run answers pending operations by their position.\<close>

definition answer_nth :: "qt \<Rightarrow> nat \<times> Answer \<Rightarrow> Transaction \<Rightarrow> Transaction outcome option" where
  "answer_nth Q x t = (case x of (i, a) \<Rightarrow>
     if i < length (pending t) \<and> plausible t a
     then map_option (\<lambda>act. act (t\<lparr>pending := take i (pending t) @ drop (Suc i) (pending t)\<rparr>)) (resume Q (pending t ! i) a)
     else None)"

fun run :: "qt \<Rightarrow> (nat \<times> Answer) list \<Rightarrow> Transaction outcome \<Rightarrow> Transaction outcome option" where
  "run Q [] r = Some r"
| "run Q (x # xs) (Inl e) = None"
| "run Q (x # xs) (Inr t) = (case answer_nth Q x t of None \<Rightarrow> None | Some r \<Rightarrow> run Q xs r)"

lemma answer_nth_step: "answer_nth Q x t = Some r \<Longrightarrow> step Q t r"
  using step.answer [where Q = Q, OF id_take_nth_drop]
  by (auto simp: answer_nth_def split: prod.splits if_splits)

lemma run_reachable: "run Q xs r = Some r' \<Longrightarrow> reachable Q c r \<Longrightarrow> reachable Q c r'"
  by (induction Q xs r rule: run.induct) (auto split: option.splits dest: answer_nth_step intro: reachable.stepped)

abbreviation started :: "conn \<Rightarrow> Transaction outcome" where
  "started c \<equiv> Transaction_begin (Transaction_new (Some c))"

lemma run_started: "run Q xs (started c) = Some r \<Longrightarrow> reachable Q c r"
  by (erule run_reachable) (rule reachable.begun)

text \<open>What a run shows of its last state.\<close>

definition shown :: "Transaction outcome option \<Rightarrow> (conn option \<times> conn option \<times> Pending list \<times> Event list) outcome option" where
  "shown r = map_option (map_sum id (\<lambda>t. (client t, remote t, pending t, trace t))) r"

lemma shown_Inr: "shown r = Some (Inr (c, d, ps, tr)) \<Longrightarrow>
    \<exists>t. r = Some (Inr t) \<and> client t = c \<and> remote t = d \<and> pending t = ps \<and> trace t = tr"
  unfolding shown_def by (cases r; cases "the r") auto

lemma shown_Inl: "shown r = Some (Inl e) \<Longrightarrow> r = Some (Inl e)"
  unfolding shown_def by (cases r; cases "the r") auto

lemma reachable_inv: "reachable Q c (Inr t) \<Longrightarrow> tx_inv Q c t"
  using reachable_good [of Q c "Inr t"] by simp

section \<open>Safety\<close>

text \<open>C8: a transaction never locks its mutex twice and never fails an assertion: from any reachable
  state, whatever asio answers, the process can only end inside the parser, where it overflows a number,
  refuses a chunk extension or a trailer, or gets no memory for a body that a message announces.\<close>

theorem no_deadlock:
  assumes "reachable Q c (Inl e)"
  shows "e \<in> {SignedOverflow, BadAlloc, QFatal ''extensions not implemented'', QFatal ''Trailing headers not implemented''}"
  using reachable_good [OF assms] by (simp add: parser_abort_def)

lemma no_deadlock_witness:
  "reachable ascii_qt 0 (Inl SignedOverflow) \<and> SignedOverflow \<in>
     {SignedOverflow, BadAlloc, QFatal ''extensions not implemented'', QFatal ''Trailing headers not implemented''}"
proof
  have "shown (run ascii_qt [(0, ReadDone no_error ''G / HTTP/9999999999'')] (started 0)) = Some (Inl SignedOverflow)"
    by code_simp
  then show "reachable ascii_qt 0 (Inl SignedOverflow)" by (intro run_started shown_Inl)
  then show "SignedOverflow \<in> {SignedOverflow, BadAlloc, QFatal ''extensions not implemented'', QFatal ''Trailing headers not implemented''}"
    by (rule no_deadlock)
qed

text \<open>The null check on the client at the start of a transaction does not report the failure it means
  to report: \<open>notify_failure\<close> locks the mutex that the check already holds.\<close>

theorem null_client_deadlocks:
  "Transaction_begin (Transaction_new None) = Inl Deadlock"
  by (simp add: Transaction_begin_def Transaction_new_def read_client_request_def guarded_def record_event_def
      notify_failure_locked)


definition eof_run :: "Transaction outcome option" where
  "eof_run = run ascii_qt [(0, ReadDone asio_eof [])] (started 0)"

lemma eof_run_shown:
  "shown eof_run = Some (Inr (None, None, [], [Emit on_transaction_start, Received 0 [], Close 0,
      Emit on_transaction_failed, Emit on_transaction_complete]))"
  by code_simp


section \<open>The request goes out as it came in\<close>

lemma serving_remote:
  assumes "reachable Q c (Inr t)" "remote t = Some r" "msg_method (request t) \<noteq> latin1 ''CONNECT''"
  shows "sending_request Q c r t \<or> reading_response Q c r t \<or> sending_response Q c r t"
  using reachable_inv [OF assms(1)] assms(2,3) unfolding tx_inv_def
  by (elim disjE exE)
    (auto simp: reading_request_def opening_remote_def opening_tunnel_def failed_early_def sending_request_def
      reading_response_def sending_response_def completed_def tunneling_def tunnel_closed_def replying_def alive_def
      released_def tunnel_aimed_def simp del: latin1_simps split: if_splits)

text \<open>C1: what a transaction sends to the remote host, once connected, is exactly the formatted request,
  the request is the message spelled by the bytes of the client however the network split them, and the
  only address ever opened is that of the first \<open>Host\<close> value, port 80 unless it names one.\<close>

theorem request_relayed:
  assumes "reachable Q c (Inr t)" and "remote t = Some r" and "msg_method (request t) \<noteq> latin1 ''CONNECT''"
  shows "written r (trace t) = Request_format Q (request t) \<and>
    (\<exists>k' rest. parse Q request_start (received c (trace t)) = Inr (Valid, k', rest) \<and> message k' = request t) \<and>
    (\<exists>host hosts. find_by_name Q (msg_headers (request t)) (latin1 ''Host'') = host # hosts \<and>
       opens (trace t) = [to_address Q (host_port ''80'' host)])"
  using serving_remote [OF assms]
  by (auto simp: sending_request_def reading_response_def sending_response_def relayed_def parsed_request_def aimed_def
      feed_def simp del: latin1_simps)

text \<open>A request of 41 bytes, answered in three pieces.\<close>

definition get_bytes :: bytes where
  "get_bytes = ''GET / HTTP/1.1'' @ [CR, LF] @ ''Host: a:81'' @ [CR, LF, CR, LF]"

definition get_run :: "(nat \<times> Answer) list" where
  "get_run = [(0, ReadDone no_error (take 20 get_bytes)), (0, ReadDone no_error (drop 20 get_bytes)),
     (0, OpenDone no_error no_error 1)]"

definition response_bytes :: bytes where
  "response_bytes = ''HTTP/1.1 200 OK'' @ [CR, LF] @ ''Content-Length: 2'' @ [CR, LF, CR, LF] @ ''hi''"

definition answered_run :: "(nat \<times> Answer) list" where
  "answered_run = get_run @ [(0, WriteDone no_error 30), (0, ReadDone no_error (take 30 response_bytes)),
     (0, ReadDone no_error (drop 30 response_bytes))]"

definition full_run :: "(nat \<times> Answer) list" where
  "full_run = answered_run @ [(0, WriteDone no_error 40)]"

lemma get_run_shown:
  "shown (run ascii_qt get_run (started 0)) =
     Some (Inr (Some 0, Some 1, [SendRequest], [Emit on_transaction_start, Received 0 (take 20 get_bytes),
       Received 0 (drop 20 get_bytes), Open ''a'' ''81'', Write 1 get_bytes]))"
  by code_simp

lemma answered_run_shown:
  "shown (run ascii_qt answered_run (started 0)) =
     Some (Inr (Some 0, Some 1, [SendResponse], [Emit on_transaction_start, Received 0 (take 20 get_bytes),
       Received 0 (drop 20 get_bytes), Open ''a'' ''81'', Write 1 get_bytes,
       Received 1 (take 30 response_bytes), Received 1 (drop 30 response_bytes), Emit on_request_read,
       Emit on_response_headers_read, Write 0 response_bytes]))"
  by code_simp

lemma full_run_shown:
  "shown (run ascii_qt full_run (started 0)) =
     Some (Inr (None, None, [], [Emit on_transaction_start, Received 0 (take 20 get_bytes),
       Received 0 (drop 20 get_bytes), Open ''a'' ''81'', Write 1 get_bytes,
       Received 1 (take 30 response_bytes), Received 1 (drop 30 response_bytes), Emit on_request_read,
       Emit on_response_headers_read, Write 0 response_bytes, Close 0, Close 1, Emit on_transaction_complete]))"
  by code_simp

lemma request_relayed_witness:
  "\<exists>t. run ascii_qt get_run (started 0) = Some (Inr t) \<and> written 1 (trace t) = Request_format ascii_qt (request t) \<and>
    (\<exists>k' rest. parse ascii_qt request_start (received 0 (trace t)) = Inr (Valid, k', rest) \<and> message k' = request t) \<and>
    (\<exists>host hosts. find_by_name ascii_qt (msg_headers (request t)) (latin1 ''Host'') = host # hosts \<and>
       opens (trace t) = [to_address ascii_qt (host_port ''80'' host)])"
proof -
  have "map_option (map_sum id (\<lambda>t. msg_method (request t))) (run ascii_qt get_run (started 0)) = Some (Inr (latin1 ''GET''))"
    by code_simp
  moreover from shown_Inr [OF get_run_shown] obtain t where t: "run ascii_qt get_run (started 0) = Some (Inr t)"
    and r: "remote t = Some 1" by blast
  moreover have "latin1 ''GET'' \<noteq> latin1 ''CONNECT''" by simp
  ultimately have "msg_method (request t) \<noteq> latin1 ''CONNECT''" by (simp del: latin1_simps)
  from request_relayed [OF run_started [OF t] r this] show ?thesis by (intro exI [of _ t] conjI [OF t])
qed

text \<open>C15: if the bytes from the client are a request in the canonical spelling, without repeated fields and with a body of
  the announced length, the remote host gets them with every byte before the body unchanged, and the body as the two
  codecs of \<open>Request::format\<close> leave it: unchanged, too, if it is ASCII.\<close>

theorem canonical_request_unchanged:
  assumes "reachable Q c (Inr t)" and "remote t = Some r" and "meth \<noteq> ''CONNECT''"
    and "qt_laws Q" and "wf_request meth ur maj mnr hs body" and "canReserve Q (length body)"
    and "received c (trace t) = request_text meth ur maj mnr (map (\<lambda>(n, v). (canon_name n, v)) hs) body"
  shows "request t = request_of Q meth ur maj mnr hs body \<and>
    written r (trace t) = request_text meth ur maj mnr (map (\<lambda>(n, v). (canon_name n, v)) hs) (recoded Q body) \<and>
    (list_all ascii body \<longrightarrow> written r (trace t) = received c (trace t))"
proof -
  from feed_request_text [OF assms(4-6), of 0 "[]" "[]"] obtain k where
    k: "feed Q request_start (received c (trace t)) = Inr (Valid, k, [])"
    and msg: "message k = request_of Q meth ur maj mnr hs body" by (auto simp: assms(7))
  from reachable_inv [OF assms(1)] assms(2) have parsed: "parsed_request Q (received c (trace t)) t \<or>
      (\<exists>req more. received c (trace t) = req @ more \<and> parsed_request Q req t)"
    unfolding tx_inv_def
    by (elim disjE exE)
      (auto simp: reading_request_def opening_remote_def opening_tunnel_def failed_early_def sending_request_def
        reading_response_def sending_response_def relayed_def completed_def tunneling_def tunnel_closed_def replying_def
        alive_def released_def)
  then have req: "request t = request_of Q meth ur maj mnr hs body"
    using k msg by (auto simp: parsed_request_def feed_append)
  have "msg_method (request_of Q meth ur maj mnr hs body) = latin1 meth" by (simp add: request_of_def)
  with assms(3) req have "msg_method (request t) \<noteq> latin1 ''CONNECT''" by (simp del: latin1_simps)
  from serving_remote [OF assms(1,2) this] have "written r (trace t) = Request_format Q (request t)"
    by (auto simp: sending_request_def reading_response_def sending_response_def relayed_def simp del: latin1_simps)
  moreover from assms(5) have hs: "list_all field_ok hs" "distinct (map (canon_name \<circ> fst) hs)" by (simp_all add: wf_request_def)
  ultimately show ?thesis
    using req assms(7) Request_format_joined [OF assms(4) hs(1)] recoded_ascii [OF assms(4)]
    by (simp add: joined_distinct [OF hs(2)])
qed

lemma canonical_request_unchanged_witness:
  "\<exists>t. run ascii_qt get_run (started 0) = Some (Inr t) \<and> written 1 (trace t) = received 0 (trace t) \<and>
    request t = request_of ascii_qt ''GET'' ''/'' 1 1 [(''Host'', ''a:81'')] []"
proof -
  from shown_Inr [OF get_run_shown] obtain t where t: "run ascii_qt get_run (started 0) = Some (Inr t)"
    and r: "remote t = Some 1" "trace t = [Emit on_transaction_start, Received 0 (take 20 get_bytes),
       Received 0 (drop 20 get_bytes), Open ''a'' ''81'', Write 1 get_bytes]" by blast
  have "list_all token_char ''GET''" and "list_all (\<lambda>c. text_char c \<and> c \<noteq> SP) ''/''"
    and "list_all field_ok [(''Host'', ''a:81'')]" and "distinct (map (canon_name \<circ> fst) [(''Host'', ''a:81'')])"
    and "framed [(''Host'', ''a:81'')] []"
    by code_simp+
  then have wf: "wf_request ''GET'' ''/'' 1 1 [(''Host'', ''a:81'')] []" by (simp only: wf_request_def) simp
  have "get_bytes = request_text ''GET'' ''/'' 1 1 (map (\<lambda>(n, v). (canon_name n, v)) [(''Host'', ''a:81'')]) []"
    by code_simp
  with r(2) have "received 0 (trace t) =
      request_text ''GET'' ''/'' 1 1 (map (\<lambda>(n, v). (canon_name n, v)) [(''Host'', ''a:81'')]) []" by simp
  note same = canonical_request_unchanged [OF run_started [OF t] r(1) _ ascii_qt_laws wf _ this]
  have "''GET'' \<noteq> ''CONNECT''" and "canReserve ascii_qt (length ([] :: bytes))" and "list_all ascii []" by simp_all
  with same have "request t = request_of ascii_qt ''GET'' ''/'' 1 1 [(''Host'', ''a:81'')] []" and
    "written 1 (trace t) = received 0 (trace t)" by blast+
  with t show ?thesis by blast
qed

section \<open>The response comes back as it was received\<close>

text \<open>C2: a transaction that ends in \<open>ResponseComplete\<close> has written to the client exactly the bytes it
  received from the remote host, which spell a complete response; the signals are the start, the
  request, the response headers and the completion, in this order; both connections are closed.\<close>

theorem response_relayed:
  assumes "reachable Q c (Inr t)" and "client t = None" and "notification_state t = ResponseComplete"
  shows "\<exists>r. written c (trace t) = received r (trace t) \<and> closes (trace t) = [c, r] \<and>
    (\<exists>k' rest. parse Q response_start_cfg (received r (trace t)) = Inr (Valid, k', rest) \<and> message k' = response t) \<and>
    signals (trace t) = [on_transaction_start, on_request_read, on_response_headers_read, on_transaction_complete]"
proof -
  have "sigs ResponseComplete = [on_transaction_start, on_request_read, on_response_headers_read]"
    by (simp add: sigs_def news_def ns_order)
  then show ?thesis
    using reachable_inv [OF assms(1)] assms(2,3) unfolding tx_inv_def
    by (elim disjE exE)
      (auto simp: reading_request_def opening_remote_def opening_tunnel_def failed_early_def sending_request_def
        reading_response_def sending_response_def relayed_def completed_def tunneling_def tunnel_closed_def replying_def
        alive_def released_def parsed_response_def feed_def ns_order simp del: latin1_simps)
qed

lemma no_failure_state:
  assumes "reachable Q c (Inr t)" "client t = None" "on_transaction_failed \<notin> set (signals (trace t))"
    "on_transaction_complete \<in> set (signals (trace t))"
  shows "notification_state t = ResponseComplete"
proof -
  have r: "on_transaction_complete \<in> set (concat (replicate n [on_transaction_failed, on_transaction_complete])) \<longleftrightarrow>
      on_transaction_failed \<in> set (concat (replicate n [on_transaction_failed, on_transaction_complete]))" for n
    by (induction n) auto
  show ?thesis
    using reachable_inv [OF assms(1)] assms(2-4) unfolding tx_inv_def
    by (elim disjE exE)
      (auto simp: reading_request_def opening_remote_def opening_tunnel_def failed_early_def sending_request_def
        reading_response_def sending_response_def completed_def tunneling_def tunnel_closed_def replying_def
        alive_def released_def r simp del: set_concat)
qed

lemma response_relayed_witness:
  "\<exists>t r. run ascii_qt full_run (started 0) = Some (Inr t) \<and> written 0 (trace t) = received r (trace t) \<and>
    closes (trace t) = [0, r] \<and>
    (\<exists>k' rest. parse ascii_qt response_start_cfg (received r (trace t)) = Inr (Valid, k', rest) \<and> message k' = response t) \<and>
    signals (trace t) = [on_transaction_start, on_request_read, on_response_headers_read, on_transaction_complete]"
proof -
  from shown_Inr [OF full_run_shown] obtain t where t: "run ascii_qt full_run (started 0) = Some (Inr t)"
    and client: "client t = None" and tr: "signals (trace t) =
      [on_transaction_start, on_request_read, on_response_headers_read, on_transaction_complete]"
    by auto
  have reach: "reachable ascii_qt 0 (Inr t)" by (rule run_started [OF t])
  have "notification_state t = ResponseComplete"
    using no_failure_state [OF reach client] by (simp add: tr)
  from response_relayed [OF reach client this] t show ?thesis by auto
qed

text \<open>The client gets no byte of the response before all of it has been received and parsed.\<close>

theorem response_buffered:
  assumes "reachable Q c (Inr t)" and "remote t = Some r" and "msg_method (request t) \<noteq> latin1 ''CONNECT''"
    and "written c (trace t) \<noteq> []"
  shows "written c (trace t) = received r (trace t) \<and>
    (\<exists>k' rest. parse Q response_start_cfg (received r (trace t)) = Inr (Valid, k', rest))"
  using serving_remote [OF assms(1-3)] assms(4)
  by (auto simp: sending_request_def reading_response_def sending_response_def relayed_def parsed_response_def feed_def)

lemma response_buffered_witness:
  "\<exists>t. run ascii_qt answered_run (started 0) = Some (Inr t) \<and> written 0 (trace t) = received 1 (trace t) \<and>
    (\<exists>k' rest. parse ascii_qt response_start_cfg (received 1 (trace t)) = Inr (Valid, k', rest))"
proof -
  from shown_Inr [OF answered_run_shown] obtain t where t: "run ascii_qt answered_run (started 0) = Some (Inr t)"
    and r: "remote t = Some 1" "pending t = [SendResponse]" "written 0 (trace t) = response_bytes" by auto
  have "response_bytes \<noteq> []" by (simp add: response_bytes_def)
  moreover have "msg_method (request t) \<noteq> latin1 ''CONNECT''"
    using reachable_inv [OF run_started [OF t]] r(2) unfolding tx_inv_def
    by (elim disjE exE)
      (auto simp: reading_request_def opening_remote_def opening_tunnel_def failed_early_def sending_request_def
        reading_response_def sending_response_def relayed_def aimed_def completed_def tunneling_def two_way_def
        tunnel_closed_def replying_def simp del: latin1_simps)
  ultimately have "written 0 (trace t) = received 1 (trace t) \<and>
      (\<exists>k' rest. parse ascii_qt response_start_cfg (received 1 (trace t)) = Inr (Valid, k', rest))"
    using r by (intro response_buffered [OF run_started [OF t] r(1)]) simp_all
  with t show ?thesis by blast
qed

section \<open>Signals\<close>

text \<open>\<open>on_response_read\<close> is never emitted: \<open>do_notification\<close> emits the signal of the state it leaves, and
  no transaction leaves \<open>ResponseComplete\<close> through it. Every history starts with the start signal.\<close>

theorem response_read_never_emitted:
  assumes "reachable Q c (Inr t)"
  shows "on_response_read \<notin> set (signals (trace t)) \<and> hd (signals (trace t)) = on_transaction_start"
proof -
  have s: "on_response_read \<notin> set (sigs s)" "hd (sigs s @ xs) = on_transaction_start" "hd (sigs s) = on_transaction_start" for s xs
    by (auto simp: sigs_def news_def)
  have r: "on_response_read \<notin> set (concat (replicate n [on_transaction_failed, on_transaction_complete]))" for n
    by (induction n) auto
  show ?thesis
    using reachable_inv [OF assms] unfolding tx_inv_def
    by (elim disjE exE)
      (auto simp: reading_request_def opening_remote_def opening_tunnel_def failed_early_def sending_request_def
        reading_response_def sending_response_def completed_def tunneling_def tunnel_closed_def replying_def
        alive_def released_def s r simp del: set_concat)
qed

lemma response_read_never_emitted_witness:
  "\<exists>t. eof_run = Some (Inr t) \<and> on_response_read \<notin> set (signals (trace t)) \<and> hd (signals (trace t)) = on_transaction_start"
proof -
  from shown_Inr [OF eof_run_shown] obtain t where t: "eof_run = Some (Inr t)" by blast
  then have "reachable ascii_qt 0 (Inr t)" unfolding eof_run_def by (rule run_started)
  from response_read_never_emitted [OF this] t show ?thesis by blast
qed

text \<open>\<open>on_request_read\<close> is late: while the remote host is being opened and written to, the request has
  been read and parsed to its end, but the start is the only signal. It is emitted when the response
  has headers.\<close>

theorem request_read_late:
  assumes "reachable Q c (Inr t)" and "pending t \<in> {[OpenRemote], [SendRequest]}"
  shows "signals (trace t) = [on_transaction_start] \<and>
    (\<exists>k' rest. parse Q request_start (received c (trace t)) = Inr (Valid, k', rest) \<and> message k' = request t)"
proof -
  have "sigs RequestComplete = [on_transaction_start]" by (simp add: sigs_def news_def ns_order)
  then show ?thesis
    using reachable_inv [OF assms(1)] assms(2) unfolding tx_inv_def
    by (elim disjE exE)
      (auto simp: reading_request_def opening_remote_def opening_tunnel_def failed_early_def sending_request_def
        reading_response_def sending_response_def completed_def tunneling_def two_way_def tunnel_closed_def replying_def
        alive_def parsed_request_def feed_def)
qed

lemma request_read_late_witness:
  "\<exists>t. run ascii_qt get_run (started 0) = Some (Inr t) \<and> signals (trace t) = [on_transaction_start] \<and>
    (\<exists>k' rest. parse ascii_qt request_start (received 0 (trace t)) = Inr (Valid, k', rest) \<and> message k' = request t)"
proof -
  from shown_Inr [OF get_run_shown] obtain t where t: "run ascii_qt get_run (started 0) = Some (Inr t)"
    and p: "pending t \<in> {[OpenRemote], [SendRequest]}" by auto
  from request_read_late [OF run_started [OF t] p] t show ?thesis by blast
qed

section \<open>Failures\<close>

text \<open>The error code an answer carries, and the failure the transaction reports for it.\<close>

fun answer_error :: "Answer \<Rightarrow> error_code" where
  "answer_error (ReadDone ec data) = ec"
| "answer_error (WriteDone ec n) = ec"
| "answer_error (OpenDone rec cec c) = (if failed rec then rec else cec)"

fun reported :: "Pending \<Rightarrow> error_code \<Rightarrow> error_code" where
  "reported ReadRequest ec = (if ec = asio_eof then make_error_code ClientDisconnected else ec)"
| "reported ReadResponse ec = (if ec = asio_eof then make_error_code RemoteDisconnected else ec)"
| "reported _ ec = ec"



section \<open>Tunnels\<close>


definition connect_bytes :: bytes where
  "connect_bytes = ''CONNECT h:1 HTTP/1.1'' @ [CR, LF, CR, LF]"

definition tunnel_run :: "(nat \<times> Answer) list" where
  "tunnel_run = [(0, ReadDone no_error connect_bytes), (0, OpenDone no_error no_error 1), (0, WriteDone no_error 50)]"

definition pipe_run :: "(nat \<times> Answer) list" where
  "pipe_run = tunnel_run @ [(0, ReadDone no_error ''ab''), (0, ReadDone no_error ''xyz'')]"

lemma pipe_run_shown:
  "shown (run ascii_qt pipe_run (started 0)) =
     Some (Inr (Some 0, Some 1, [TunnelWriteRemote 2, TunnelWriteClient 3], [Emit on_transaction_start, Received 0 connect_bytes,
       Open ''h'' ''1'', Write 0 (connect_reply True), Received 0 ''ab'', Write 1 ''ab'', Received 1 ''xyz'', Write 0 ''xyz'']))"
  by code_simp


text \<open>A tunnel that both ends close is over without a word: no operation is pending and the connections
  are closed, but neither completion nor failure has been signalled.\<close>

theorem tunnel_ends_silently:
  "\<exists>t. reachable ascii_qt 0 (Inr t) \<and> pending t = [] \<and> closes (trace t) = [0, 1] \<and>
    signals (trace t) = [on_transaction_start]"
proof -
  have "shown (run ascii_qt (tunnel_run @ [(0, ReadDone asio_eof []), (0, ReadDone asio_eof [])]) (started 0)) =
     Some (Inr (None, None, [], [Emit on_transaction_start, Received 0 connect_bytes, Open ''h'' ''1'',
       Write 0 (connect_reply True), Received 0 [], Close 0, Close 1]))"
    by code_simp
  from shown_Inr [OF this] show ?thesis using run_started by force
qed

text \<open>A tunnel can fail twice: both directions report their write error, so failure and completion are
  each signalled two times.\<close>

theorem tunnel_fails_twice:
  "\<exists>t. reachable ascii_qt 0 (Inr t) \<and> signals (trace t) = [on_transaction_start, on_transaction_failed,
    on_transaction_complete, on_transaction_failed, on_transaction_complete]"
proof -
  have "shown (run ascii_qt (pipe_run @ [(0, WriteDone asio_eof 0), (0, WriteDone asio_eof 0)]) (started 0)) =
     Some (Inr (None, None, [], [Emit on_transaction_start, Received 0 connect_bytes,
       Open ''h'' ''1'', Write 0 (connect_reply True), Received 0 ''ab'', Write 1 ''ab'', Received 1 ''xyz'', Write 0 ''xyz'',
       Close 0, Close 1, Emit on_transaction_failed, Emit on_transaction_complete, Emit on_transaction_failed,
       Emit on_transaction_complete]))"
    by code_simp
  from shown_Inr [OF this] show ?thesis using run_started by force
qed

text \<open>C18: signals come in one of few orders: outside tunnels failure and completion occur at most once,
  completion is the last signal, and nothing follows it; a tunnel completes at most two times.\<close>

theorem signal_order:
  assumes "reachable Q c (Inr t)"
  shows "(client t \<noteq> None \<longrightarrow> on_transaction_complete \<notin> set (signals (trace t))) \<and>
    (msg_method (request t) \<noteq> latin1 ''CONNECT'' \<and> client t = None \<longrightarrow>
       pending t = [] \<and> (\<exists>ss. signals (trace t) = ss @ [on_transaction_complete] \<and> on_transaction_complete \<notin> set ss)) \<and>
    count_list (signals (trace t)) on_transaction_complete \<le> 2"
proof -
  have s: "on_transaction_complete \<notin> set (sigs s)" "count_list (sigs s) on_transaction_complete = 0" for s
    by (auto simp: sigs_def news_def)
  have r: "count_list (concat (replicate n [on_transaction_failed, on_transaction_complete])) on_transaction_complete = n" for n
    by (induction n) auto
  have two: "\<exists>ss. sigs s @ [on_transaction_failed, on_transaction_complete] = ss @ [on_transaction_complete] \<and>
      on_transaction_complete \<notin> set ss" for s
    by (intro exI [of _ "sigs s @ [on_transaction_failed]"]) (simp add: s)
  show ?thesis
    using reachable_inv [OF assms] unfolding tx_inv_def
    by (elim disjE exE)
      (auto simp: reading_request_def opening_remote_def opening_tunnel_def failed_early_def sending_request_def
        reading_response_def sending_response_def completed_def tunneling_def tunnel_closed_def replying_def
        alive_def released_def s r two simp del: latin1_simps set_concat)
qed

lemma signal_order_witness:
  "\<exists>t. eof_run = Some (Inr t) \<and> (client t \<noteq> None \<longrightarrow> on_transaction_complete \<notin> set (signals (trace t))) \<and>
    (msg_method (request t) \<noteq> latin1 ''CONNECT'' \<and> client t = None \<longrightarrow>
       pending t = [] \<and> (\<exists>ss. signals (trace t) = ss @ [on_transaction_complete] \<and> on_transaction_complete \<notin> set ss)) \<and>
    count_list (signals (trace t)) on_transaction_complete \<le> 2"
proof -
  from shown_Inr [OF eof_run_shown] obtain t where t: "eof_run = Some (Inr t)" by blast
  then have "reachable ascii_qt 0 (Inr t)" unfolding eof_run_def by (rule run_started)
  from signal_order [OF this] t show ?thesis by blast
qed

text \<open>When the host of a tunnel could be opened but the reply to the client cannot be written, the
  transaction fails with the error code of the open, which is no error at all.\<close>

theorem reply_error_lost:
  assumes "reachable Q c (Inr t)" and "pending t = [SendConnectReply ec]" and "\<not> failed ec" and "failed ec2"
  shows "\<exists>t'. on_connect_reply_sent ec ec2 (t\<lparr>pending := []\<rparr>) = Inr t' \<and> \<not> failed (tx_error t') \<and>
    notification_state t' = NsError \<and>
    signals (trace t') = [on_transaction_start, on_transaction_failed, on_transaction_complete]"
proof -
  have "sigs (notification_state t) = [on_transaction_start]" if "notification_state t < RequestComplete"
    using that by (auto simp: sigs_def news_def ns_order)
  then show ?thesis
    using reachable_inv [OF assms(1)] assms(2-4) unfolding tx_inv_def
    by (elim disjE exE)
      (auto simp: reading_request_def opening_remote_def opening_tunnel_def failed_early_def sending_request_def
        reading_response_def sending_response_def completed_def tunneling_def two_way_def tunnel_closed_def replying_def
        alive_def released_def on_connect_reply_sent_def notify_failure_eq conns_def)
qed

lemma reply_error_lost_witness:
  "\<exists>t t'. run ascii_qt (take 2 tunnel_run) (started 0) = Some (Inr t) \<and>
    on_connect_reply_sent no_error asio_eof (t\<lparr>pending := []\<rparr>) = Inr t' \<and> \<not> failed (tx_error t') \<and>
    signals (trace t') = [on_transaction_start, on_transaction_failed, on_transaction_complete]"
proof -
  have "shown (run ascii_qt (take 2 tunnel_run) (started 0)) = Some (Inr (Some 0, Some 1, [SendConnectReply no_error],
     [Emit on_transaction_start, Received 0 connect_bytes, Open ''h'' ''1'', Write 0 (connect_reply True)]))"
    by code_simp
  from shown_Inr [OF this] obtain t where t: "run ascii_qt (take 2 tunnel_run) (started 0) = Some (Inr t)"
    and p: "pending t = [SendConnectReply no_error]" by auto
  from reply_error_lost [OF run_started [OF t] p, of asio_eof] t show ?thesis by auto
qed

end
