(* ===== verification/Exchange.thy ===== *)
theory Exchange
  imports TransactionProps
begin

text \<open>
  That a transaction gets to its end: whatever pieces the network cuts a request and its response into, if
  all operations succeed, the transaction goes through its stages one after the other and completes.
\<close>

section \<open>Runs with one operation pending\<close>

lemma run_append:
  "run Q (xs @ ys) r = (case run Q xs r of None \<Rightarrow> None | Some r' \<Rightarrow> run Q ys r')"
  by (induction Q xs r rule: run.induct) (auto split: option.splits)

lemma run_single:
  assumes "pending t = [p]" "plausible t a" "resume Q p a \<noteq> None" "answered Q p a t = Inr t'"
  shows "run Q ((0, a) # xs) (Inr t) = run Q xs (Inr t')"
  using assms by (auto simp: answer_nth_def)

text \<open>Reads without an error, each of at least a byte and at most a buffer.\<close>

abbreviation reads_of :: "bytes list \<Rightarrow> (nat \<times> Answer) list" where
  "reads_of ps \<equiv> map (\<lambda>p. (0, ReadDone no_error p)) ps"

definition buffers :: "bytes list \<Rightarrow> bool" where
  "buffers ps \<longleftrightarrow> (\<forall>p \<in> set ps. p \<noteq> [] \<and> length p \<le> 8192)"

lemma buffers_Cons [simp]: "buffers (p # ps) \<longleftrightarrow> p \<noteq> [] \<and> length p \<le> 8192 \<and> buffers ps"
  by (auto simp: buffers_def)

lemma no_error_ok [simp]: "\<not> failed no_error" "no_error \<noteq> asio_eof"
  by (simp_all add: failed_def no_error_def asio_eof_def)

text \<open>A message that ends with the input has no complete message in front.\<close>

lemma feed_front:
  assumes "feed Q k0 (xs @ ys) = Inr (Valid, k, [])" "ys \<noteq> []"
  shows "\<exists>k'. feed Q k0 xs = Inr (Incomplete, k', [])"
  using assms by (auto simp: feed_append dest: feed_incomplete_rest split: sum.splits if_splits)

lemma feed_front_ok: "feed Q k0 (xs @ ys) = Inr r \<Longrightarrow> feed Q k0 xs \<noteq> Inl e"
  by (auto simp: feed_append)

lemma feed_nothing: "feed Q k [] = Inr (Incomplete, erase k, [])"
  by (simp add: feed_def parse_def)

section \<open>From stage to stage\<close>

lemma run_request:
  assumes "reading_request Q c t" and "feed Q request_start (received c (trace t) @ concat ps) = Inr (Valid, k, [])"
    and "ps \<noteq> []" "buffers ps"
    and k: "msg_method (message k) \<noteq> latin1 ''CONNECT''"
      "find_by_name Q (msg_headers (message k)) (latin1 ''Host'') = host # hosts"
  shows "\<exists>t'. run Q (reads_of ps) (Inr t) = Some (Inr t') \<and> opening_remote Q c t' \<and>
    received c (trace t') = received c (trace t) @ concat ps"
  using assms(1-4)
proof (induction ps arbitrary: t)
  case (Cons p ps)
  have t: "pending t = [ReadRequest]" using Cons.prems(1) by (simp add: reading_request_def)
  from Cons.prems(2) have "feed Q request_start ((received c (trace t) @ p) @ concat ps) = Inr (Valid, k, [])" by simp
  note feed_front_ok [OF this]
  with request_bytes [OF Cons.prems(1) no_error_ok, of p]
  obtain st left u where u: "answered Q ReadRequest (ReadDone no_error p) t = on_request_parsed Q st u"
      "request_read Q c st left u" "received c (trace u) = received c (trace t) @ p"
    by blast
  have go: "run Q (reads_of (p # ps)) (Inr t) = run Q (reads_of ps) (Inr t')" if "on_request_parsed Q st u = Inr t'" for t'
    using run_single [OF t, of "ReadDone no_error p" Q t' "reads_of ps"] that u(1) Cons.prems(4) by simp
  from u have fed: "feed Q request_start (received c (trace t) @ p) = Inr (st, erase (request_cfg u), left)"
    by (simp add: request_read_def)
  show ?case
  proof (cases "ps = []")
    case True
    with fed Cons.prems(2) have st: "st = Valid" "erase (request_cfg u) = k" by simp_all
    then have "request u = message k" by (auto simp: request_cfg_def erase_def)
    with request_host [of Q c left u host hosts] u(2) k st obtain t' where
      "on_request_parsed Q st u = Inr t'" "opening_remote Q c t'" "received c (trace t') = received c (trace u)"
      by auto
    with go True u(3) show ?thesis by auto
  next
    case False
    with Cons.prems(4) have "concat ps \<noteq> []" by (cases ps) auto
    with feed_front [of Q request_start "received c (trace t) @ p" "concat ps" k] Cons.prems(2) fed
    have "st = Incomplete" by auto
    with request_more u(2) obtain t' where t': "on_request_parsed Q st u = Inr t'" "reading_request Q c t'"
        "received c (trace t') = received c (trace u)" by blast
    from Cons.IH [OF t'(2) _ False] Cons.prems(2,4) u(3) t'(3) go [OF t'(1)] show ?thesis by auto
  qed
qed simp

lemma run_response:
  assumes "reading_response Q c d t" and "feed Q response_start_cfg (received d (trace t) @ concat ps) = Inr (Valid, k, [])"
    and "ps \<noteq> []" "buffers ps"
  shows "\<exists>t'. run Q (reads_of ps) (Inr t) = Some (Inr t') \<and> sending_response Q c d t' \<and>
    received c (trace t') = received c (trace t) \<and> received d (trace t') = received d (trace t) @ concat ps"
  using assms
proof (induction ps arbitrary: t)
  case (Cons p ps)
  have t: "pending t = [ReadResponse]" using Cons.prems(1) by (simp add: reading_response_def)
  from Cons.prems(2) have "feed Q response_start_cfg ((received d (trace t) @ p) @ concat ps) = Inr (Valid, k, [])" by simp
  note feed_front_ok [OF this]
  with response_bytes [OF Cons.prems(1) no_error_ok, of p]
  obtain st left u where u: "answered Q ReadResponse (ReadDone no_error p) t = on_response_parsed st u"
      "response_read Q c d st left u" "received c (trace u) = received c (trace t)"
      "received d (trace u) = received d (trace t) @ p"
    by blast
  have go: "run Q (reads_of (p # ps)) (Inr t) = run Q (reads_of ps) (Inr t')" if "on_response_parsed st u = Inr t'" for t'
    using run_single [OF t, of "ReadDone no_error p" Q t' "reads_of ps"] that u(1) Cons.prems(4) by simp
  from u have fed: "feed Q response_start_cfg (received d (trace t) @ p) = Inr (st, erase (response_cfg u), left)"
    by (simp add: response_read_def)
  show ?case
  proof (cases "ps = []")
    case True
    with fed Cons.prems(2) have "st = Valid" by simp
    with response_complete [of Q c d left u] u(2) obtain t' where "on_response_parsed st u = Inr t'" "sending_response Q c d t'"
        "received c (trace t') = received c (trace u)" "received d (trace t') = received d (trace u)"
      by auto
    with go True u(3,4) show ?thesis by auto
  next
    case False
    with Cons.prems(4) have "concat ps \<noteq> []" by (cases ps) auto
    with feed_front [of Q response_start_cfg "received d (trace t) @ p" "concat ps" k] Cons.prems(2) fed
    have "st = Incomplete" by auto
    with response_more u(2) obtain t' where t': "on_response_parsed st u = Inr t'" "reading_response Q c d t'"
        "received c (trace t') = received c (trace u)" "received d (trace t') = received d (trace u)" by blast
    from Cons.IH [OF t'(2) _ False] Cons.prems(2,4) u(3,4) t'(3,4) go [OF t'(1)] show ?thesis by auto
  qed
qed simp

lemma started_reads: "\<exists>t. started c = Inr t \<and> reading_request Q c t \<and> received c (trace t) = []"
proof -
  let ?t = "(Transaction_new (Some c))\<lparr>pending := [ReadRequest], trace := [Emit on_transaction_start]\<rparr>"
  have s: "started c = Inr ?t"
    by (simp add: Transaction_begin_def action_simps read_client_eq Transaction_new_def)
  have "tx_inv Q c ?t" using begin_good [of Q c] by (simp add: s)
  then have "reading_request Q c ?t"
    unfolding tx_inv_def
    by (elim disjE exE)
      (auto simp: opening_remote_def opening_tunnel_def failed_early_def sending_request_def reading_response_def
        sending_response_def completed_def tunneling_def two_way_def tunnel_closed_def replying_def released_def
        Transaction_new_def)
  with s show ?thesis by auto
qed

text \<open>An answer for each operation.\<close>

fun fitting_answer :: "conn \<Rightarrow> Pending \<Rightarrow> Answer" where
  "fitting_answer d ReadRequest = ReadDone no_error []"
| "fitting_answer d ReadResponse = ReadDone no_error []"
| "fitting_answer d TunnelReadClient = ReadDone no_error []"
| "fitting_answer d TunnelReadRemote = ReadDone no_error []"
| "fitting_answer d OpenRemote = OpenDone no_error no_error d"
| "fitting_answer d OpenTunnel = OpenDone no_error no_error d"
| "fitting_answer d p = WriteDone no_error 0"

lemma fitting: "client t \<noteq> Some d \<Longrightarrow> plausible t (fitting_answer d p) \<and> resume Q p (fitting_answer d p) \<noteq> None"
  by (cases p) simp_all

section \<open>Properties\<close>

text \<open>The answers of an exchange in which everything succeeds.\<close>

definition exchange :: "bytes list \<Rightarrow> conn \<Rightarrow> nat \<Rightarrow> bytes list \<Rightarrow> nat \<Rightarrow> (nat \<times> Answer) list" where
  "exchange reqs d n resps m = reads_of reqs @ [(0, OpenDone no_error no_error d), (0, WriteDone no_error n)]
     @ reads_of resps @ [(0, WriteDone no_error m)]"

text \<open>C4: an exchange completes: if the client sends a request that names a host, the host answers with a
  response, and no operation fails, then however both are cut into reads the transaction ends by itself in
  \<open>ResponseComplete\<close>: nothing is pending, the named host alone was opened and got the formatted request,
  the client got the response, and both connections are closed.\<close>

theorem exchange_completes:
  assumes "parse Q request_start (concat reqs) = Inr (Valid, k, [])" and "buffers reqs"
    and "msg_method (message k) \<noteq> latin1 ''CONNECT''"
    and "find_by_name Q (msg_headers (message k)) (latin1 ''Host'') = host # hosts"
    and "parse Q response_start_cfg (concat resps) = Inr (Valid, k', [])" and "buffers resps" and "c \<noteq> d"
  shows "\<exists>t. run Q (exchange reqs d n resps m) (started c) = Some (Inr t) \<and>
    pending t = [] \<and> client t = None \<and> remote t = None \<and> notification_state t = ResponseComplete \<and> tx_error t = no_error \<and>
    request t = message k \<and> response t = message k' \<and> opens (trace t) = [to_address Q (host_port ''80'' host)] \<and>
    written d (trace t) = Request_format Q (message k) \<and> written c (trace t) = concat resps \<and> closes (trace t) = [c, d]"
proof -
  have req: "feed Q request_start (concat reqs) = Inr (Valid, k, [])"
    and resp: "feed Q response_start_cfg (concat resps) = Inr (Valid, k', [])"
    using assms(1,5) by (simp_all add: feed_def)
  then have ne: "reqs \<noteq> []" "resps \<noteq> []" by (auto simp: feed_nothing)
  obtain t0 where t0: "started c = Inr t0" "reading_request Q c t0" "received c (trace t0) = []"
    using started_reads by blast
  from run_request [OF t0(2) _ ne(1) assms(2-4)] req t0(3) obtain t1 where
    t1: "run Q (reads_of reqs) (Inr t0) = Some (Inr t1)" "opening_remote Q c t1" "received c (trace t1) = concat reqs"
    by auto
  have p1: "pending t1 = [OpenRemote]" and c1: "client t1 = Some c" using t1(2) by (simp_all add: opening_remote_def alive_def)
  obtain conn ec where opened: "try_open no_error no_error d = (conn, ec)" "\<not> failed ec"
    by (simp add: try_open_def)
  from remote_opened [OF t1(2) _ opened] c1 assms(7) obtain t2 where
    t2: "answered Q OpenRemote (OpenDone no_error no_error d) t1 = Inr t2" "sending_request Q c d t2"
      "received c (trace t2) = concat reqs" using t1(3) by auto
  have p2: "pending t2 = [SendRequest]" using t2(2) by (simp add: sending_request_def)
  from request_sent [OF t2(2), of no_error n] obtain t3 where
    t3: "answered Q SendRequest (WriteDone no_error n) t2 = Inr t3" "reading_response Q c d t3"
      "received c (trace t3) = concat reqs" "received d (trace t3) = []" using t2(3) by auto
  from run_response [OF t3(2) _ ne(2) assms(6)] resp t3(3,4) obtain t4 where
    t4: "run Q (reads_of resps) (Inr t3) = Some (Inr t4)" "sending_response Q c d t4"
      "received c (trace t4) = concat reqs" "received d (trace t4) = concat resps" by auto
  have p4: "pending t4 = [SendResponse]" using t4(2) by (simp add: sending_response_def)
  from response_sent [OF t4(2), of no_error m] obtain t5 where
    t5: "answered Q SendResponse (WriteDone no_error m) t4 = Inr t5" "completed Q c d t5"
      "received c (trace t5) = concat reqs" "received d (trace t5) = concat resps" using t4(3,4) by auto
  have "run Q (exchange reqs d n resps m) (started c) = Some (Inr t5)"
    using t1(1) t4(1) run_single [OF p1 _ _ t2(1)] run_single [OF p2 _ _ t3(1)] run_single [OF p4 _ _ t5(1), of "[]"]
      c1 assms(7)
    by (simp add: exchange_def t0(1) run_append)
  moreover have "request t5 = message k" "response t5 = message k'"
    using t5(2-4) req resp by (auto simp: completed_def relayed_def parsed_request_def parsed_response_def)
  ultimately show ?thesis
    using t5(2-4) assms(4) by (auto simp: completed_def released_def relayed_def aimed_def)
qed

lemma exchange_completes_witness:
  "\<exists>t. run ascii_qt (exchange [take 20 get_bytes, drop 20 get_bytes] 1 7 [take 30 response_bytes, drop 30 response_bytes] 9)
      (started 0) = Some (Inr t) \<and> pending t = [] \<and> written 1 (trace t) = get_bytes \<and> written 0 (trace t) = response_bytes"
proof -
  define k where "k = fst (snd (projr (parse ascii_qt request_start get_bytes)))"
  define k' where "k' = fst (snd (projr (parse ascii_qt response_start_cfg response_bytes)))"
  have "(case parse ascii_qt request_start get_bytes of Inl e \<Rightarrow> False | Inr (st, k, rest) \<Rightarrow> st = Valid \<and> rest = [])"
    and "(case parse ascii_qt response_start_cfg response_bytes of Inl e \<Rightarrow> False | Inr (st, k, rest) \<Rightarrow> st = Valid \<and> rest = [])"
    by code_simp+
  then have "parse ascii_qt request_start get_bytes = Inr (Valid, k, [])"
    and "parse ascii_qt response_start_cfg response_bytes = Inr (Valid, k', [])"
    unfolding k_def k'_def by (auto split: sum.splits prod.splits)
  then have req: "parse ascii_qt request_start (concat [take 20 get_bytes, drop 20 get_bytes]) = Inr (Valid, k, [])"
    and resp: "parse ascii_qt response_start_cfg (concat [take 30 response_bytes, drop 30 response_bytes]) = Inr (Valid, k', [])"
    by simp_all
  have k: "msg_method (message k) = latin1 ''GET''"
    "find_by_name ascii_qt (msg_headers (message k)) (latin1 ''Host'') = [latin1 ''a:81'']"
    "Request_format ascii_qt (message k) = get_bytes"
    unfolding k_def by code_simp+
  have meth: "msg_method (message k) \<noteq> latin1 ''CONNECT''" unfolding k(1) by simp
  have buf: "buffers [take 20 get_bytes, drop 20 get_bytes]" "buffers [take 30 response_bytes, drop 30 response_bytes]"
    unfolding buffers_def by code_simp+
  show ?thesis
    using exchange_completes [OF req buf(1) meth k(2) resp buf(2), of 0 1 7 9] k(3) by auto
qed

text \<open>C9: no transaction is stuck: as long as a connection is open some operation is pending, every pending
  operation has an answer that the transaction takes, and when nothing is pending both connections are
  released.\<close>

theorem never_stuck:
  assumes "reachable Q c (Inr t)"
  shows "(pending t = [] \<longrightarrow> client t = None \<and> remote t = None) \<and>
    (\<forall>i < length (pending t). \<exists>a r. answer_nth Q (i, a) t = Some r)"
proof (intro conjI allI impI)
  have none: "client t = None \<and> remote t = None" if "pending t = []"
    using that reachable_inv [OF assms] unfolding tx_inv_def
    by (elim disjE exE)
      (auto simp: reading_request_def opening_remote_def opening_tunnel_def failed_early_def sending_request_def
        reading_response_def sending_response_def completed_def tunneling_def two_way_def tunnel_closed_def replying_def
        released_def)
  then show "pending t = [] \<Longrightarrow> client t = None" "pending t = [] \<Longrightarrow> remote t = None" by blast+
  fix i
  assume i: "i < length (pending t)"
  obtain d where d: "client t \<noteq> Some d" by (metis nat.simps(3) option.inject)
  from fitting [OF d, of "pending t ! i" Q] i show "\<exists>a r. answer_nth Q (i, a) t = Some r"
    by (intro exI [of _ "fitting_answer d (pending t ! i)"]) (auto simp: answer_nth_def)
qed

lemma never_stuck_witness:
  "\<exists>t. run ascii_qt get_run (started 0) = Some (Inr t) \<and> pending t = [SendRequest] \<and>
    (\<exists>a r. answer_nth ascii_qt (0, a) t = Some r)"
proof -
  from shown_Inr [OF get_run_shown] obtain t where t: "run ascii_qt get_run (started 0) = Some (Inr t)"
    and p: "pending t = [SendRequest]" by blast
  from never_stuck [OF run_started [OF t]] p have "\<exists>a r. answer_nth ascii_qt (0, a) t = Some r" by simp
  with t p show ?thesis by blast
qed

end
