(* ===== verification/TransactionFrames.thy ===== *)
theory TransactionFrames
  imports TransactionProps
begin

text \<open>
  What no operation of a transaction does: which connections it can touch, and when it can change its
  messages. Both follow from one contract, the locale \<open>frame\<close>, which every operation but the stores of
  the read callbacks meets.
\<close>

section \<open>The contract\<close>

text \<open>A frame is a relation between the states before and after an operation. It holds of everything that leaves connections,
  history and messages alone, of the events of the transaction's own connections, and of letting go of these.\<close>

definition own_event :: "Transaction \<Rightarrow> Event \<Rightarrow> bool" where
  "own_event t e \<longleftrightarrow> (case e of Emit s \<Rightarrow> True | Open h p \<Rightarrow> True | Write c data \<Rightarrow> c \<in> set (conns t)
     | Received c data \<Rightarrow> c \<in> set (conns t) | Close c \<Rightarrow> c \<in> set (conns t))"

definition same_core :: "Transaction \<Rightarrow> Transaction \<Rightarrow> bool" where
  "same_core t t' \<longleftrightarrow> client t' = client t \<and> remote t' = remote t \<and> trace t' = trace t \<and>
     request t' = request t \<and> response t' = response t"

locale frame =
  fixes R :: "Transaction \<Rightarrow> Transaction \<Rightarrow> bool"
  assumes core: "same_core t t' \<Longrightarrow> R t t'"
    and trans: "R t u \<Longrightarrow> R u v \<Longrightarrow> R t v"
    and event: "own_event t e \<Longrightarrow> R t (t\<lparr>trace := trace t @ [e]\<rparr>)"
    and let_go: "R t (t\<lparr>client := None, remote := None\<rparr>)"
begin

definition within :: "action \<Rightarrow> bool" where
  "within a \<longleftrightarrow> (\<forall>t t'. a t = Inr t' \<longrightarrow> R t t')"

lemma withinI: "(\<And>t t'. a t = Inr t' \<Longrightarrow> R t t') \<Longrightarrow> within a"
  by (simp add: within_def)

lemma withinD: "within a \<Longrightarrow> a t = Inr t' \<Longrightarrow> R t t'"
  by (simp add: within_def)

lemma refl: "R t t"
  by (rule core) (simp add: same_core_def)

lemma within_if: "within a \<Longrightarrow> within b \<Longrightarrow> within (\<lambda>t. if P t then a t else b t)"
  by (auto simp: within_def)

lemma within_update: "(\<And>t. R t (f t)) \<Longrightarrow> within (\<lambda>t. Inr (f t))"
  by (auto simp: within_def)

lemma within_seq: "list_all within as \<Longrightarrow> within (seq as)"
proof (induction "as")
  case Nil
  show ?case by (auto intro: withinI refl)
next
  case (Cons a "as")
  show ?case
  proof (rule withinI)
    fix t t'
    assume "seq (a # as) t = Inr t'"
    then obtain u where "a t = Inr u" "seq as u = Inr t'" by (auto split: sum.splits)
    with Cons show "R t t'" by (auto dest: withinD intro: trans)
  qed
qed

lemma within_guarded: "within a \<Longrightarrow> within (guarded a)"
proof (rule withinI)
  fix t t'
  assume a: "within a" "guarded a t = Inr t'"
  then obtain u where u: "a (t\<lparr>mutex_locked := True\<rparr>) = Inr u" "t' = u\<lparr>mutex_locked := False\<rparr>"
    by (auto simp: guarded_def split: if_splits sum.splits)
  have "R t (t\<lparr>mutex_locked := True\<rparr>)" "R u t'" unfolding u(2) by (rule core; simp add: same_core_def)+
  with withinD [OF a(1) u(1)] show "R t t'" by (blast intro: trans)
qed

text \<open>The way a state was changed, one field at a time.\<close>

lemma within_event: "(\<And>t. own_event t e) \<Longrightarrow> within (record_event e)"
  by (auto simp: within_def record_event_def intro: event)

lemma within_start: "within (start_op p)"
  by (auto simp: within_def start_op_def same_core_def intro: core)

lemma within_write: "c \<in> set (conns t) \<Longrightarrow> async_write c data p t = Inr t' \<Longrightarrow> R t t'"
  by (rule trans [OF event [of t "Write c data"]]) (auto simp: action_simps own_event_def same_core_def intro: core)

lemma within_release: "within release_connections"
proof -
  have closing: "R t (t\<lparr>trace := trace t @ map Close cs\<rparr>)" if "set cs \<subseteq> set (conns t)" for t cs
    using that
  proof (induction cs arbitrary: t)
    case (Cons c cs)
    let ?t = "t\<lparr>trace := trace t @ [Close c]\<rparr>"
    from Cons.prems have "R t ?t" by (auto simp: own_event_def intro: event)
    with Cons.IH [of ?t] Cons.prems show ?case by (auto simp: conns_def intro: trans)
  qed (simp add: refl)
  show ?thesis
  proof (rule withinI)
    fix t t'
    assume "release_connections t = Inr t'"
    then have "t' = (t\<lparr>trace := trace t @ map Close (conns t)\<rparr>)\<lparr>client := None, remote := None\<rparr>"
      by (auto simp: release_eq split: if_splits)
    with closing [of "conns t" t] let_go show "R t t'" by (auto intro: trans)
  qed
qed

lemma within_complete: "within complete_transaction"
  unfolding complete_transaction_def
  by (rule within_seq) (auto simp: own_event_def intro: within_release within_event)

lemma within_failure: "within (notify_failure ec)"
  unfolding notify_failure_def
  by (rule within_seq)
    (auto simp: own_event_def same_core_def intro: within_release within_event within_complete intro!: withinI [of "\<lambda>t. Inr (f t)" for f] core)

lemma within_notification: "do_notification ns t = Inr t' \<Longrightarrow> R t t'"
proof (induction ns t rule: do_notification.induct)
  case (1 ns t)
  have leaving: "within (emit_on_leaving s)" for s
    unfolding emit_on_leaving_def
    by (cases s) (auto simp: own_event_def simp del: seq.simps intro!: within_seq within_event
        withinI [of "\<lambda>t. Inr t"] withinI [of "\<lambda>t. Inl e" for e] refl)
  show ?case
  proof (cases "notification_state t < ns")
    case False
    with "1.prems" show ?thesis by (simp add: do_notification.simps [of ns t] refl)
  next
    case True
    let ?u = "t\<lparr>notification_state := ns_next (notification_state t)\<rparr>"
    from True "1.prems" obtain u where u: "emit_on_leaving (notification_state t) ?u = Inr u" "do_notification ns u = Inr t'"
      by (auto simp: do_notification.simps [of ns t] split: sum.splits)
    have "R t ?u" by (rule core) (simp add: same_core_def)
    with "1.IH" [OF True u(1,2)] withinD [OF leaving u(1)] show ?thesis by (blast intro: trans)
  qed
qed

lemma within_phase: "within (notify_phase_change ph)"
  by (rule withinI) (auto simp: notify_phase_change_def refl split: ParsePhase.splits if_splits dest: within_notification)

lemma within_phases: "within (notify_phases phs)"
  unfolding notify_phases_def by (rule within_seq) (simp add: list_all_iff within_phase)

section \<open>The operations\<close>

lemma within_idle: "within (\<lambda>t. Inr t)"
  by (auto intro: withinI refl)

lemma within_cases:
  "within b \<Longrightarrow> (\<And>t t' c. f t = Some c \<Longrightarrow> a c t = Inr t' \<Longrightarrow> R t t') \<Longrightarrow>
   within (\<lambda>t. case f t of None \<Rightarrow> b t | Some c \<Rightarrow> a c t)"
  by (auto simp: within_def split: option.splits)

lemma within_read_client: "within read_client_request"
  unfolding read_client_request_def by (intro within_guarded within_if within_failure within_start)

lemma within_read_remote: "within read_remote_response"
  unfolding read_remote_response_def
  by (intro within_guarded withinI) (auto split: option.splits dest: withinD [OF within_failure] withinD [OF within_start])

lemma within_send_request: "within (send_client_request_to_remote Q)"
  unfolding send_client_request_to_remote_def
  by (intro within_guarded withinI)
    (auto simp: conns_def split: option.splits dest: withinD [OF within_failure] intro: within_write [rotated])

lemma within_send_response: "within send_remote_response_to_client"
  unfolding send_remote_response_to_client_def
  by (intro within_guarded within_cases within_failure) (auto simp: conns_def intro: within_write [rotated])

lemma within_open: "within (pool_try_open Q hp p)"
  unfolding pool_try_open_def by (rule within_seq) (simp add: own_event_def within_event within_start)

lemma within_open_remote: "within (open_remote_connection Q)"
  by (rule withinI) (auto simp: open_remote_connection_def split: list.splits dest: withinD [OF within_failure] withinD [OF within_open])

lemma within_establish: "within (establish_tls_tunnel Q)"
  by (rule withinI) (auto simp: establish_tls_tunnel_def dest: withinD [OF within_open])

lemma within_via_tunnel: "within send_client_request_via_tunnel" "within send_server_response_via_tunnel"
  unfolding send_client_request_via_tunnel_def send_server_response_via_tunnel_def
  by (intro within_guarded within_if within_idle within_start)+

lemma within_request_parsed: "within (on_request_parsed Q st)"
proof -
  have "within (\<lambda>t. if msg_method (request t) = latin1 ''CONNECT'' then establish_tls_tunnel Q t
      else seq [do_notification RequestComplete, open_remote_connection Q] t)"
    by (intro within_if within_establish within_seq) (auto intro: within_open_remote withinI within_notification)
  then show ?thesis
    unfolding on_request_parsed_def by (cases st) (auto simp del: seq.simps intro: within_read_client within_failure)
qed

lemma within_response_parsed: "within (on_response_parsed st)"
  unfolding on_response_parsed_def
  by (cases st) (auto simp del: seq.simps intro!: within_read_remote within_failure within_seq within_send_response withinI [of "do_notification ns" for ns]
      intro: within_notification)

lemma within_receive_client: "within (\<lambda>t. receive (client t) data t)"
  by (rule withinI) (auto simp: receive_def record_event_def own_event_def conns_def split: option.splits intro: event refl)

lemma within_receive_remote: "within (\<lambda>t. receive (remote t) data t)"
  by (rule withinI) (auto simp: receive_def record_event_def own_event_def conns_def split: option.splits intro: event refl)

lemma within_received:
  "within a \<Longrightarrow> within (\<lambda>t. seq [receive (client t) data, a] t)"
  "within a \<Longrightarrow> within (\<lambda>t. seq [receive (remote t) data, a] t)"
  by (auto simp: within_def split: sum.splits
      intro: trans withinD [OF within_receive_client] withinD [OF within_receive_remote])

lemma within_request_sent: "within (on_request_sent ec)"
proof -
  have "within (\<lambda>t. Inr (t\<lparr>raw_input := [], tx_parser := resetForResponse (tx_parser t)\<rparr>))"
    by (rule within_update) (rule core, simp add: same_core_def)
  then show ?thesis
    unfolding on_request_sent_def by (intro within_if within_failure within_seq) (simp add: within_read_remote)
qed

lemma within_response_sent: "within (on_response_sent ec)"
  unfolding on_response_sent_def by (intro within_if within_failure within_complete)

lemma within_reply_sent: "within (on_connect_reply_sent ec ec2)"
  unfolding on_connect_reply_sent_def Let_def
  by (intro within_if within_failure within_seq) (simp add: within_via_tunnel)

lemma within_tunnel_bytes: "within (on_tunnel_client_bytes ec data)" "within (on_tunnel_remote_bytes ec data)"
  unfolding on_tunnel_client_bytes_def on_tunnel_remote_bytes_def
  by (intro within_if within_release within_failure within_guarded within_cases within_idle;
      auto simp: conns_def intro: within_write [rotated])+

lemma within_tunnel_written: "within (on_tunnel_remote_written n ec m)" "within (on_tunnel_client_written n ec m)"
  unfolding on_tunnel_remote_written_def on_tunnel_client_written_def
  by (intro within_if within_failure within_via_tunnel)+

end

text \<open>Frames that also allow the connection \<open>d\<close> to become the remote one.\<close>

locale opening_frame = frame +
  fixes d :: conn
  assumes opened: "R t (t\<lparr>remote := Some d\<rparr>)"
begin

lemma within_remote_open: "c = (if failed ec then None else Some d) \<Longrightarrow> within (on_remote_open Q c ec)"
  unfolding on_remote_open_def
  by (cases "failed ec") (auto simp del: seq.simps intro!: within_failure within_seq within_send_request withinI [of "\<lambda>t. Inr (f t)" for f] opened)

lemma within_tunnel_open: "c = (if failed ec then None else Some d) \<Longrightarrow> within (on_tunnel_open c ec)"
proof (rule withinI)
  fix t t'
  assume c: "c = (if failed ec then None else Some d)" and t: "on_tunnel_open c ec t = Inr t'"
  let ?reply = "guarded (\<lambda>t. case client t of None \<Rightarrow> fail ClientDisconnected t
          | Some c \<Rightarrow> async_write c (connect_reply (\<not> failed ec)) (SendConnectReply ec) t)"
  have "within ?reply"
    by (intro within_guarded within_cases within_failure) (auto simp: conns_def intro: within_write [rotated])
  from withinD [OF this] t c show "R t t'"
    by (auto simp: on_tunnel_open_def Let_def split: if_splits intro: trans [OF opened])
qed

theorem within_answer:
  assumes "resume Q p a = Some act" and "p \<notin> {ReadRequest, ReadResponse}" and "\<And>rec cec c. a = OpenDone rec cec c \<Longrightarrow> c = d"
  shows "within act"
  using assms pool.answers
  by (cases "(Q, p, a)" rule: resume.cases)
    (auto split: prod.splits intro!: within_remote_open within_tunnel_open within_request_sent within_response_sent
      within_reply_sent within_received within_tunnel_bytes within_tunnel_written simp del: seq.simps)

end

text \<open>Frames that allow the messages to change as well.\<close>

locale storing_frame = opening_frame +
  assumes stored: "R t (t\<lparr>request := m\<rparr>)" "R t (t\<lparr>response := m\<rparr>)"
begin

lemma within_store: "within (store_request k)" "within (store_response k)"
proof -
  have "R t (t\<lparr>tx_parser := parser k, request := message k, request_parse_phase := the (phase k)\<rparr>)" for t
    by (rule trans [OF stored(1) [of t "message k"] core]) (simp add: same_core_def)
  moreover have "R t (t\<lparr>tx_parser := parser k, response := message k, response_parse_phase := the (phase k)\<rparr>)" for t
    by (rule trans [OF stored(2) [of t "message k"] core]) (simp add: same_core_def)
  ultimately show "within (store_request k)" "within (store_response k)"
    by (auto simp: within_def store_request_def store_response_def)
qed

lemma within_request_bytes: "within (on_request_bytes Q ec data)"
proof (rule withinI)
  fix t t'
  assume t: "on_request_bytes Q ec data t = Inr t'"
  have "within (seq [store_request k, notify_phases phs, on_request_parsed Q st])" for k phs st
    by (rule within_seq) (simp add: within_store within_phases within_request_parsed)
  from withinD [OF this] withinD [OF within_failure] t show "R t t'"
    by (auto simp: on_request_bytes_def simp del: seq.simps split: if_splits sum.splits prod.splits)
qed

lemma within_response_bytes: "within (on_response_bytes Q ec data)"
proof (rule withinI)
  fix t t'
  assume t: "on_response_bytes Q ec data t = Inr t'"
  let ?u = "t\<lparr>raw_input := raw_input t @ data\<rparr>"
  have u: "R t ?u" by (rule core) (simp add: same_core_def)
  have "within (seq [store_response k, notify_phases phs, on_response_parsed st])" for k phs st
    by (rule within_seq) (simp add: within_store within_phases within_response_parsed)
  from withinD [OF this] withinD [OF within_failure] t show "R t t'"
    by (auto simp: on_response_bytes_def Let_def simp del: seq.simps split: if_splits sum.splits prod.splits intro: trans [OF u])
qed

theorem within_any_answer:
  assumes "resume Q p a = Some act" and "\<And>rec cec c. a = OpenDone rec cec c \<Longrightarrow> c = d"
  shows "within act"
proof (cases "p \<in> {ReadRequest, ReadResponse}")
  case True
  with assms(1) show ?thesis
    by (cases a) (auto simp del: seq.simps intro!: within_received within_request_bytes within_response_bytes)
next
  case False
  with within_answer assms show ?thesis by blast
qed

end

section \<open>Two frames\<close>

text \<open>The connections an event is about.\<close>

fun event_conns :: "Event \<Rightarrow> conn set" where
  "event_conns (Emit s) = {}"
| "event_conns (Open h p) = {}"
| "event_conns (Write c data) = {c}"
| "event_conns (Received c data) = {c}"
| "event_conns (Close c) = {c}"

definition touched :: "Event list \<Rightarrow> conn set" where
  "touched tr = (\<Union>e \<in> set tr. event_conns e)"

lemma touched_simps [simp]: "touched [] = {}" "touched (xs @ ys) = touched xs \<union> touched ys" "touched [e] = event_conns e"
  by (auto simp: touched_def)

text \<open>An operation only adds to the history, and only events of connections of its own.\<close>

definition extends :: "conn set \<Rightarrow> Transaction \<Rightarrow> Transaction \<Rightarrow> bool" where
  "extends K t t' \<longleftrightarrow> (set (conns t) \<subseteq> K \<longrightarrow> set (conns t') \<subseteq> K \<and>
     (\<exists>es. trace t' = trace t @ es \<and> touched es \<subseteq> K))"

interpretation own: storing_frame "extends (K \<union> {d})" d for d K
proof unfold_locales
  fix t u v
  assume "extends (K \<union> {d}) t u" "extends (K \<union> {d}) u v"
  then show "extends (K \<union> {d}) t v"
    unfolding extends_def by (metis Un_subset_iff append_assoc touched_simps(2))
next
  fix t e
  assume "own_event t e"
  then show "extends (K \<union> {d}) t (t\<lparr>trace := trace t @ [e]\<rparr>)"
    by (cases e) (auto simp: extends_def own_event_def conns_def)
qed (auto simp: extends_def same_core_def conns_def)

text \<open>Only the read callbacks change the messages.\<close>

definition same_messages :: "Transaction \<Rightarrow> Transaction \<Rightarrow> bool" where
  "same_messages t t' \<longleftrightarrow> request t' = request t \<and> response t' = response t"

interpretation messages: opening_frame same_messages d for d
  by unfold_locales (auto simp: same_messages_def same_core_def)

end
