(* ===== verification/Relay.thy ===== *)
theory Relay
  imports TransactionFrames
begin

text \<open>
  What a transaction of \<open>core/src/Transaction.cpp\<close> is meant to be, as a machine of ten states that knows nothing of parser
  states, buffers, phases, signals, locks or pending operations: it holds the bytes or messages its peers have sent, and goes on
  with each answer of the network. The transaction is shown to compute exactly this, up to where a tunnel is linked, from
  which on \<open>TunnelRaces\<close> says what happens.
\<close>

section \<open>The specification\<close>

datatype Relay =
    Hearing bytes  \<comment> \<open>the client has sent these bytes of its request\<close>
  | Calling Request | Passing Request
  | Awaiting Request bytes  \<comment> \<open>the host has sent these bytes of its response\<close>
  | Returning Request bytes | Delivered Request bytes
  | Dialling Request | Connecting Request error_code | Linked Request
  | Refused error_code

text \<open>A request that is heard to its end is for a tunnel or for the host it names.\<close>

definition heard :: "qt \<Rightarrow> bytes \<Rightarrow> Relay outcome" where
  "heard Q input =
     (case feed Q request_start input of
        Inl e \<Rightarrow> Inl e
      | Inr (Incomplete, k, rest) \<Rightarrow> Inr (Hearing input)
      | Inr (Invalid, k, rest) \<Rightarrow> Inr (Refused (make_error_code MalformedRequest))
      | Inr (Valid, k, rest) \<Rightarrow> Inr
          (if msg_method (message k) = latin1 ''CONNECT'' then Dialling (message k)
           else if find_by_name Q (msg_headers (message k)) (latin1 ''Host'') = []
             then Refused (make_error_code MalformedRequest)
           else Calling (message k)))"

definition answered_with :: "qt \<Rightarrow> Request \<Rightarrow> bytes \<Rightarrow> Relay outcome" where
  "answered_with Q m input =
     (case feed Q response_start_cfg input of
        Inl e \<Rightarrow> Inl e
      | Inr (Incomplete, k, rest) \<Rightarrow> Inr (Awaiting m input)
      | Inr (Invalid, k, rest) \<Rightarrow> Inr (Refused (make_error_code MalformedResponse))
      | Inr (Valid, k, rest) \<Rightarrow> Inr (Returning m input))"

fun relay_next :: "qt \<Rightarrow> Relay \<Rightarrow> Answer \<Rightarrow> Relay outcome option" where
  "relay_next Q (Hearing input) (ReadDone ec data) = Some
     (if ec = asio_eof then Inr (Refused (make_error_code ClientDisconnected))
      else if failed ec then Inr (Refused ec) else heard Q (input @ data))"
| "relay_next Q (Calling m) (OpenDone rec cec c) = Some (Inr
     (if failed rec then Refused rec else if failed cec then Refused cec else Passing m))"
| "relay_next Q (Passing m) (WriteDone ec n) = Some (Inr (if failed ec then Refused ec else Awaiting m []))"
| "relay_next Q (Awaiting m input) (ReadDone ec data) = Some
     (if ec = asio_eof then Inr (Refused (make_error_code RemoteDisconnected))
      else if failed ec then Inr (Refused ec) else answered_with Q m (input @ data))"
| "relay_next Q (Returning m input) (WriteDone ec n) = Some (Inr (if failed ec then Refused ec else Delivered m input))"
| "relay_next Q (Dialling m) (OpenDone rec cec c) = Some (Inr (Connecting m (if failed rec then rec else cec)))"
| "relay_next Q (Connecting m ec) (WriteDone ec2 n) = Some (Inr
     (if \<not> failed ec \<and> \<not> failed ec2 then Linked m else Refused ec))"
| "relay_next Q _ _ = None"

section \<open>The abstraction\<close>

definition relay :: "conn \<Rightarrow> Transaction \<Rightarrow> Relay" where
  "relay c t =
     (case pending t of
        [] \<Rightarrow> if notification_state t = NsError then Refused (tx_error t) else Delivered (request t) (written c (trace t))
      | p # ps \<Rightarrow>
          (case p of
             ReadRequest \<Rightarrow> Hearing (received c (trace t))
           | OpenRemote \<Rightarrow> Calling (request t)
           | SendRequest \<Rightarrow> Passing (request t)
           | ReadResponse \<Rightarrow> Awaiting (request t) (received (the (remote t)) (trace t))
           | SendResponse \<Rightarrow> Returning (request t) (written c (trace t))
           | OpenTunnel \<Rightarrow> Dialling (request t)
           | SendConnectReply ec \<Rightarrow> Connecting (request t) ec
           | _ \<Rightarrow> Linked (request t)))"

abbreviation relayed_outcome :: "conn \<Rightarrow> Transaction outcome \<Rightarrow> Relay outcome" where
  "relayed_outcome c r \<equiv> map_sum id (relay c) r"

lemma relay_failure:
  "\<not> mutex_locked t \<Longrightarrow> pending t = [] \<Longrightarrow> relayed_outcome c (notify_failure ec t) = Inr (Refused ec)"
  by (simp add: notify_failure_eq relay_def)

lemma relay_stage:
  "reading_request Q c t \<Longrightarrow> relay c t = Hearing (received c (trace t))"
  "opening_remote Q c t \<Longrightarrow> relay c t = Calling (request t)"
  "sending_request Q c d t \<Longrightarrow> relay c t = Passing (request t)"
  "reading_response Q c d t \<Longrightarrow> relay c t = Awaiting (request t) (received d (trace t))"
  "sending_response Q c d t \<Longrightarrow> relay c t = Returning (request t) (received d (trace t))"
  "completed Q c d t \<Longrightarrow> relay c t = Delivered (request t) (received d (trace t))"
  "opening_tunnel Q c t \<Longrightarrow> relay c t = Dialling (request t)"
  "replying Q c d ec t \<Longrightarrow> relay c t = Connecting (request t) ec"
  by (simp_all add: relay_def reading_request_def opening_remote_def sending_request_def reading_response_def sending_response_def
      completed_def opening_tunnel_def replying_def relayed_def alive_def)

section \<open>From state to state\<close>

text \<open>Only the callback that reads the request changes it.\<close>

definition same_request :: "Transaction \<Rightarrow> Transaction \<Rightarrow> bool" where
  "same_request t t' \<longleftrightarrow> request t' = request t"

interpretation asked: opening_frame same_request d for d
  by unfold_locales (auto simp: same_request_def same_core_def)

lemma response_bytes_keep_request:
  assumes "on_response_bytes Q ec data t = Inr t'"
  shows "request t' = request t"
proof -
  have "asked.within (seq [store_response k, notify_phases phs, on_response_parsed st])" for k phs st
    by (rule asked.within_seq)
      (auto simp: asked.within_def store_response_def same_request_def dest: asked.withinD [OF asked.within_phases]
        asked.withinD [OF asked.within_response_parsed])
  from asked.withinD [OF this] asked.withinD [OF asked.within_failure] assms show ?thesis
    by (fastforce simp: on_response_bytes_def Let_def same_request_def simp del: seq.simps split: if_splits sum.splits prod.splits)
qed

lemma parsed_keeps_request: "on_request_parsed Q st u = Inr t' \<Longrightarrow> request t' = request u"
  using asked.withinD [OF asked.within_request_parsed] by (simp add: same_request_def)

lemma hostless_refused:
  assumes "request_read Q c Valid left u" "msg_method (request u) \<noteq> latin1 ''CONNECT''"
    and "find_by_name Q (msg_headers (request u)) (latin1 ''Host'') = []"
  shows "relayed_outcome c (on_request_parsed Q Valid u) = Inr (Refused (make_error_code MalformedRequest))"
  using assms request_complete(1) [OF assms(1)]
  by (simp add: on_request_parsed_def open_remote_connection_def relay_failure request_read_def alive_def del: latin1_simps)

lemma relay_hearing:
  assumes inv: "reading_request Q c t" and act: "resume Q ReadRequest a = Some act"
  shows "relay_next Q (relay c t) a = Some (relayed_outcome c (act (t\<lparr>pending := []\<rparr>)))"
proof -
  from act obtain ec data where a: "a = ReadDone ec data" by (cases a) auto
  have alive: "alive c None t" using inv by (simp add: reading_request_def)
  show ?thesis
  proof (cases "failed ec \<or> ec = asio_eof")
    case True
    let ?t = "t\<lparr>pending := [], trace := trace t @ [Received c data]\<rparr>"
    have "act (t\<lparr>pending := []\<rparr>) = on_request_bytes Q ec data ?t"
      using act a alive by (auto simp: receive_def record_event_def alive_def)
    moreover have "relayed_outcome c (notify_failure e ?t) = Inr (Refused e)" for e
      using alive by (intro relay_failure) (simp_all add: alive_def)
    ultimately show ?thesis
      using True by (auto simp: a relay_stage(1) [OF inv] on_request_bytes_def)
  next
    case False
    have "act (t\<lparr>pending := []\<rparr>) = answered Q ReadRequest (ReadDone ec data) t" using act a by simp
    with request_bytes [OF inv, of ec data] False consider
        (dead) e where "act (t\<lparr>pending := []\<rparr>) = Inl e" "feed Q request_start (received c (trace t) @ data) = Inl e"
      | (live) st left u where "act (t\<lparr>pending := []\<rparr>) = on_request_parsed Q st u" "request_read Q c st left u"
          "received c (trace u) = received c (trace t) @ data"
      by metis
    then have "relayed_outcome c (act (t\<lparr>pending := []\<rparr>)) = heard Q (received c (trace t) @ data)"
    proof cases
      case dead
      then show ?thesis by (simp add: heard_def)
    next
      case live
      from live(2,3) have fed: "feed Q request_start (received c (trace t) @ data) = Inr (st, erase (request_cfg u), left)"
        and free: "\<not> mutex_locked u" "pending u = []" by (auto simp: request_read_def alive_def)
      have msg: "message (erase (request_cfg u)) = request u" by (simp add: request_cfg_def erase_def)
      show ?thesis
      proof (cases st)
        case Incomplete
        from request_more [of Q c left u] live(2) Incomplete obtain t' where
          "on_request_parsed Q Incomplete u = Inr t'" "reading_request Q c t'" "received c (trace t') = received c (trace u)" by blast
        with live fed Incomplete show ?thesis by (simp add: heard_def relay_stage)
      next
        case Invalid
        with live(1) fed relay_failure [OF free] show ?thesis by (simp add: heard_def on_request_parsed_def)
      next
        case Valid
        then have u: "request_read Q c Valid left u" using live(2) by simp
        show ?thesis
        proof (cases "msg_method (request u) = latin1 ''CONNECT''")
          case True
          from request_connect [OF u True] obtain t' where "on_request_parsed Q Valid u = Inr t'" "opening_tunnel Q c t'" by blast
          with parsed_keeps_request live(1) fed Valid msg True show ?thesis by (simp add: heard_def relay_stage del: latin1_simps)
        next
          case no_tunnel: False
          show ?thesis
          proof (cases "find_by_name Q (msg_headers (request u)) (latin1 ''Host'')")
            case Nil
            with hostless_refused [OF u no_tunnel] live(1) fed Valid msg no_tunnel Nil show ?thesis by (simp add: heard_def del: latin1_simps)
          next
            case (Cons host hosts)
            from request_host [OF u no_tunnel Cons] obtain t' where "on_request_parsed Q Valid u = Inr t'" "opening_remote Q c t'" by blast
            with parsed_keeps_request live(1) fed Valid msg no_tunnel Cons show ?thesis by (simp add: heard_def relay_stage del: latin1_simps)
          qed
        qed
      qed
    qed
    with False show ?thesis by (simp add: a relay_stage(1) [OF inv])
  qed
qed

lemma relay_calling:
  assumes inv: "opening_remote Q c t" and act: "resume Q OpenRemote a = Some act" and pl: "plausible t a"
  shows "relay_next Q (relay c t) a = Some (relayed_outcome c (act (t\<lparr>pending := []\<rparr>)))"
proof -
  from act obtain e1 e2 d where a: "a = OpenDone e1 e2 d" by (cases a) auto
  have alive: "alive c None t" "pending t = [OpenRemote]" using inv by (simp_all add: opening_remote_def)
  have "relayed_outcome c (notify_failure e (t\<lparr>pending := []\<rparr>)) = Inr (Refused e)" for e
    using alive by (intro relay_failure) (simp_all add: alive_def)
  with act alive show ?thesis
    by (auto simp: a try_open_def find_open_connection_def on_remote_open_def send_request_eq alive_def relay_def
        split: if_splits)
qed

lemma relay_passing:
  assumes inv: "sending_request Q c d t" and act: "resume Q SendRequest a = Some act"
  shows "relay_next Q (relay c t) a = Some (relayed_outcome c (act (t\<lparr>pending := []\<rparr>)))"
proof -
  from act obtain ec n where a: "a = WriteDone ec n" by (cases a) auto
  have t: "alive c (Some d) t" "received d (trace t) = []" "pending t = [SendRequest]" using inv by (simp_all add: sending_request_def)
  have "relayed_outcome c (notify_failure e (t\<lparr>pending := []\<rparr>)) = Inr (Refused e)" for e
    using t by (intro relay_failure) (simp_all add: alive_def)
  with act t show ?thesis
    by (auto simp: a on_request_sent_def read_remote_eq alive_def relay_def split: if_splits)
qed

lemma relay_awaiting:
  assumes inv: "reading_response Q c d t" and act: "resume Q ReadResponse a = Some act"
  shows "relay_next Q (relay c t) a = Some (relayed_outcome c (act (t\<lparr>pending := []\<rparr>)))"
proof -
  from act obtain ec data where a: "a = ReadDone ec data" by (cases a) auto
  have alive: "alive c (Some d) t" using inv by (simp add: reading_response_def)
  show ?thesis
  proof (cases "failed ec \<or> ec = asio_eof")
    case True
    let ?t = "t\<lparr>pending := [], trace := trace t @ [Received d data]\<rparr>"
    have "act (t\<lparr>pending := []\<rparr>) = on_response_bytes Q ec data ?t"
      using act a alive by (auto simp: receive_def record_event_def alive_def)
    moreover have "relayed_outcome c (notify_failure e ?t) = Inr (Refused e)" for e
      using alive by (intro relay_failure) (simp_all add: alive_def)
    ultimately show ?thesis
      using True by (auto simp: a relay_stage(4) [OF inv] on_response_bytes_def)
  next
    case False
    have "act (t\<lparr>pending := []\<rparr>) = answered Q ReadResponse (ReadDone ec data) t" using act a by simp
    with response_bytes [OF inv, of ec data] False have cases: "(\<exists>e. act (t\<lparr>pending := []\<rparr>) = Inl e \<and>
        feed Q response_start_cfg (received d (trace t) @ data) = Inl e) \<or>
      (\<exists>st left u. act (t\<lparr>pending := []\<rparr>) = on_response_parsed st u \<and> response_read Q c d st left u \<and>
        received d (trace u) = received d (trace t) @ data)"
      by metis
    consider
        (dead) e where "act (t\<lparr>pending := []\<rparr>) = Inl e" "feed Q response_start_cfg (received d (trace t) @ data) = Inl e"
      | (live) st left u where "act (t\<lparr>pending := []\<rparr>) = on_response_parsed st u" "response_read Q c d st left u"
          "received d (trace u) = received d (trace t) @ data"
      using cases by blast
    note cases = this
    have same: "request t' = request t" if "act (t\<lparr>pending := []\<rparr>) = Inr t'" for t'
    proof -
      from that act a alive have "on_response_bytes Q ec data (t\<lparr>pending := [], trace := trace t @ [Received d data]\<rparr>) = Inr t'"
        by (auto simp: receive_def record_event_def alive_def)
      from response_bytes_keep_request [OF this] show ?thesis by simp
    qed
    from cases have "relayed_outcome c (act (t\<lparr>pending := []\<rparr>)) = answered_with Q (request t) (received d (trace t) @ data)"
    proof cases
      case dead
      then show ?thesis by (simp add: answered_with_def)
    next
      case live
      from live(2,3) have fed: "feed Q response_start_cfg (received d (trace t) @ data) = Inr (st, erase (response_cfg u), left)"
        and free: "\<not> mutex_locked u" "pending u = []" by (auto simp: response_read_def alive_def)
      show ?thesis
      proof (cases st)
        case Incomplete
        from response_more [of Q c d left u] live(2) Incomplete obtain t' where "on_response_parsed Incomplete u = Inr t'"
          "reading_response Q c d t'" "received d (trace t') = received d (trace u)" by blast
        with live fed Incomplete same show ?thesis by (simp add: answered_with_def relay_stage)
      next
        case Invalid
        with live(1) fed relay_failure [OF free] show ?thesis by (simp add: answered_with_def on_response_parsed_def)
      next
        case Valid
        with live(2) response_complete [of Q c d left u] obtain t' where "on_response_parsed Valid u = Inr t'"
          "sending_response Q c d t'" "received d (trace t') = received d (trace u)" by blast
        with live fed Valid same show ?thesis by (simp add: answered_with_def relay_stage)
      qed
    qed
    with False show ?thesis by (simp add: a relay_stage(4) [OF inv])
  qed
qed

lemma relay_returning:
  assumes inv: "sending_response Q c d t" and act: "resume Q SendResponse a = Some act"
  shows "relay_next Q (relay c t) a = Some (relayed_outcome c (act (t\<lparr>pending := []\<rparr>)))"
proof -
  from act obtain ec n where a: "a = WriteDone ec n" by (cases a) auto
  have t: "alive c (Some d) t" "notification_state t = ResponseComplete" "pending t = [SendResponse]"
    using inv by (simp_all add: sending_response_def relayed_def)
  have "relayed_outcome c (notify_failure e (t\<lparr>pending := []\<rparr>)) = Inr (Refused e)" for e
    using t by (intro relay_failure) (simp_all add: alive_def)
  with act t show ?thesis
    by (auto simp: a on_response_sent_def complete_eq alive_def relay_def conns_def split: if_splits)
qed

lemma relay_dialling:
  assumes inv: "opening_tunnel Q c t" and act: "resume Q OpenTunnel a = Some act" and pl: "plausible t a"
  shows "relay_next Q (relay c t) a = Some (relayed_outcome c (act (t\<lparr>pending := []\<rparr>)))"
proof -
  from act obtain e1 e2 d where a: "a = OpenDone e1 e2 d" by (cases a) auto
  have alive: "alive c None t" "pending t = [OpenTunnel]" using inv by (simp_all add: opening_tunnel_def)
  with act show ?thesis
    by (auto simp: a try_open_def find_open_connection_def on_tunnel_open_def Let_def guarded_def
        action_simps alive_def relay_def split: if_splits)
qed

lemma relay_connecting:
  assumes inv: "replying Q c d ec t" and act: "resume Q (SendConnectReply ec) a = Some act"
  shows "relay_next Q (relay c t) a = Some (relayed_outcome c (act (t\<lparr>pending := []\<rparr>)))"
proof -
  from act obtain ec2 n where a: "a = WriteDone ec2 n" by (cases a) auto
  have alive: "alive c (if failed ec then None else Some d) t" "pending t = [SendConnectReply ec]" using inv by (simp_all add: replying_def)
  have "relayed_outcome c (notify_failure e (t\<lparr>pending := []\<rparr>)) = Inr (Refused e)" for e
    using alive by (intro relay_failure) (simp_all add: alive_def)
  with act alive show ?thesis
    by (auto simp: a on_connect_reply_sent_def Let_def via_tunnel_eq alive_def relay_def split: if_splits)
qed

lemma relay_step:
  assumes "reachable Q c (Inr t)" and "pending t = [p]" and "\<not> outbound p" and "\<not> inbound p" and "plausible t a"
    and "resume Q p a = Some act"
  shows "relay_next Q (relay c t) a = Some (relayed_outcome c (act (t\<lparr>pending := []\<rparr>)))"
proof -
  from reachable_inv [OF assms(1)] consider "reading_request Q c t" | "opening_remote Q c t" | "opening_tunnel Q c t"
    | d where "sending_request Q c d t" | d where "reading_response Q c d t" | d where "sending_response Q c d t"
    | d ec where "replying Q c d ec t"
    using assms(2-4) unfolding tx_inv_def
    by (elim disjE exE) (auto simp: failed_early_def completed_def tunneling_def two_way_def tunnel_closed_def)
  then show ?thesis
  proof cases
    case 1
    then have "p = ReadRequest" using assms(2) by (simp add: reading_request_def)
    with 1 relay_hearing assms(6) show ?thesis by simp
  next
    case 2
    then have "p = OpenRemote" using assms(2) by (simp add: opening_remote_def)
    with 2 relay_calling assms(5,6) show ?thesis by simp
  next
    case 3
    then have "p = OpenTunnel" using assms(2) by (simp add: opening_tunnel_def)
    with 3 relay_dialling assms(5,6) show ?thesis by simp
  next
    case 4
    then have "p = SendRequest" using assms(2) by (simp add: sending_request_def)
    with 4 relay_passing assms(6) show ?thesis by simp
  next
    case 5
    then have "p = ReadResponse" using assms(2) by (simp add: reading_response_def)
    with 5 relay_awaiting assms(6) show ?thesis by simp
  next
    case 6
    then have "p = SendResponse" using assms(2) by (simp add: sending_response_def)
    with 6 relay_returning assms(6) show ?thesis by simp
  next
    case (7 d ec)
    then have "p = SendConnectReply ec" using assms(2) by (simp add: replying_def)
    with 7 relay_connecting assms(6) show ?thesis by simp
  qed
qed

lemma relay_linked:
  assumes "reachable Q c (Inr t)" and "pending t = ps" and "length ps \<noteq> 1 \<or> outbound (hd ps) \<or> inbound (hd ps)" and "ps \<noteq> []"
  shows "relay c t = Linked (request t)"
proof -
  have "relay c t = Linked (request t)" if "outbound p \<or> inbound p" "pending t = p # qs" for p qs
    using that by (cases p) (simp_all add: relay_def)
  moreover have "outbound (hd ps) \<or> inbound (hd ps)"
    using reachable_inv [OF assms(1)] assms(2-4) unfolding tx_inv_def
    by (elim disjE exE)
      (auto simp: reading_request_def opening_remote_def opening_tunnel_def failed_early_def sending_request_def
        reading_response_def sending_response_def completed_def tunneling_def two_way_def tunnel_closed_def replying_def)
  ultimately show ?thesis using assms(2,4) by (cases ps) auto
qed

section \<open>Properties\<close>

fun relay_run :: "qt \<Rightarrow> Answer list \<Rightarrow> Relay outcome \<Rightarrow> Relay outcome option" where
  "relay_run Q [] r = Some r"
| "relay_run Q (a # as) (Inl e) = None"
| "relay_run Q (a # as) (Inr R) = (case relay_next Q R a of None \<Rightarrow> None | Some r \<Rightarrow> relay_run Q as r)"

lemma relay_runs:
  "run Q xs (Inr t) = Some r \<Longrightarrow> reachable Q c (Inr t) \<Longrightarrow>
   relay_run Q (map snd xs) (Inr (relay c t)) = Some (relayed_outcome c r) \<or>
   (\<exists>k m. relay_run Q (take k (map snd xs)) (Inr (relay c t)) = Some (Inr (Linked m)))"
proof (induction xs arbitrary: t)
  case (Cons x xs)
  obtain k a where x: "x = (k, a)" by (cases x)
  from Cons.prems(1) obtain r' where r': "answer_nth Q (k, a) t = Some r'" "run Q xs r' = Some r"
    by (auto simp: x split: option.splits)
  then obtain act where act: "k < length (pending t)" "plausible t a" "resume Q (pending t ! k) a = Some act"
    "r' = act (t\<lparr>pending := take k (pending t) @ drop (Suc k) (pending t)\<rparr>)"
    by (auto simp: answer_nth_def split: if_splits)
  show ?case
  proof (cases "length (pending t) \<noteq> 1 \<or> outbound (hd (pending t)) \<or> inbound (hd (pending t))")
    case True
    moreover have "pending t \<noteq> []" using act(1) by auto
    ultimately have "relay c t = Linked (request t)" by (rule relay_linked [OF Cons.prems(2) refl])
    then show ?thesis by (intro disjI2 exI [of _ 0]) simp
  next
    case False
    then obtain p where p: "pending t = [p]" "\<not> outbound p" "\<not> inbound p" by (auto simp: length_Suc_conv)
    with act have "k = 0" "resume Q p a = Some act" "r' = act (t\<lparr>pending := []\<rparr>)" by auto
    with relay_step [OF Cons.prems(2) p act(2)] have step: "relay_next Q (relay c t) a = Some (relayed_outcome c r')" by simp
    show ?thesis
    proof (cases r')
      case (Inl e)
      with r'(2) have "xs = []" "r = Inl e" by (cases xs; simp)+
      with step Inl x show ?thesis by simp
    next
      case (Inr u)
      with Cons.prems(2) answer_nth_step [OF r'(1)] have "reachable Q c (Inr u)" by (auto intro: reachable.stepped)
      with Cons.IH [of u] r'(2) Inr consider
          "relay_run Q (map snd xs) (Inr (relay c u)) = Some (relayed_outcome c r)"
        | j m where "relay_run Q (take j (map snd xs)) (Inr (relay c u)) = Some (Inr (Linked m))" by blast
      then show ?thesis
      proof cases
        case 1
        with step Inr show ?thesis by (intro disjI1) (simp add: x id_def)
      next
        case (2 j m)
        with step Inr x show ?thesis by (intro disjI2 exI [of _ "Suc j"] exI [of _ m]) simp
      qed
    qed
  qed
qed auto

text \<open>C3: a transaction is this machine. Whatever the network answers, and however it splits what the peers send, after any series
  of answers the transaction is where the specification is after the same answers, the end of the process included; only where
  a tunnel is linked does the specification stop.\<close>

theorem transaction_relays:
  assumes "run Q xs (Transaction_begin (Transaction_new (Some c))) = Some r"
  shows "relay_run Q (map snd xs) (Inr (Hearing [])) = Some (map_sum id (relay c) r) \<or>
    (\<exists>k m. relay_run Q (take k (map snd xs)) (Inr (Hearing [])) = Some (Inr (Linked m)))"
proof -
  let ?t = "(Transaction_new (Some c))\<lparr>pending := [ReadRequest], trace := [Emit on_transaction_start]\<rparr>"
  have first: "Transaction_begin (Transaction_new (Some c)) = Inr ?t"
    by (simp add: Transaction_begin_def action_simps read_client_eq Transaction_new_def)
  with reachable.begun [of Q c] have "reachable Q c (Inr ?t)" by simp
  moreover have "relay c ?t = Hearing []" by (simp add: relay_def)
  ultimately show ?thesis using relay_runs [of Q xs ?t r c] assms first by simp
qed

definition delivery :: "Relay \<Rightarrow> (qstring \<times> bytes) option" where
  "delivery R = (case R of Delivered m output \<Rightarrow> Some (msg_method m, output) | _ \<Rightarrow> None)"

lemma delivery_Some: "delivery R = Some (meth, output) \<Longrightarrow> \<exists>m. R = Delivered m output \<and> msg_method m = meth"
  by (auto simp: delivery_def split: Relay.splits)

lemma never_linked:
  "relay_run Q as r = Some r' \<Longrightarrow> (\<And>m. r' \<noteq> Inr (Linked m)) \<Longrightarrow> relay_run Q (take k as) r \<noteq> Some (Inr (Linked m))"
proof (induction Q "as" r arbitrary: k rule: relay_run.induct)
  case (3 Q a "as" R)
  show ?case
  proof (cases k)
    case 0
    with "3.prems" show ?thesis by auto
  next
    case (Suc j)
    with "3.prems"(1) obtain r1 where "relay_next Q R a = Some r1" "relay_run Q as r1 = Some r'" by (auto split: option.splits)
    with "3.IH" [OF this(1) this(2) "3.prems"(2), of j] Suc show ?thesis by simp
  qed
qed auto

lemma transaction_relays_witness:
  "\<exists>t m. run ascii_qt full_run (Transaction_begin (Transaction_new (Some 0))) = Some (Inr t) \<and>
     relay 0 t = Delivered m response_bytes \<and> msg_method m = latin1 ''GET''"
proof -
  from shown_Inr [OF full_run_shown] obtain t where t: "run ascii_qt full_run (started 0) = Some (Inr t)" by blast
  let ?as = "map snd full_run"
  have visible: "\<exists>R. x = Some (Inr R) \<and> f R = y" if "map_option (map_sum id f) x = Some (Inr y)" for f x and y :: 'b
    using that by (cases x; cases "the x") auto
  have "map_option (map_sum id delivery) (relay_run ascii_qt ?as (Inr (Hearing []))) = Some (Inr (Some (latin1 ''GET'', response_bytes)))"
    by code_simp
  from visible [OF this] obtain R where R: "relay_run ascii_qt ?as (Inr (Hearing [])) = Some (Inr R)"
    "delivery R = Some (latin1 ''GET'', response_bytes)" by (elim exE conjE)
  from delivery_Some [OF R(2)] obtain m where "R = Delivered m response_bytes" and meth: "msg_method m = latin1 ''GET''"
    by (elim exE conjE)
  with R(1) have m: "relay_run ascii_qt ?as (Inr (Hearing [])) = Some (Inr (Delivered m response_bytes))" by (simp only:)
  have "relay_run ascii_qt (take k ?as) (Inr (Hearing [])) \<noteq> Some (Inr (Linked n))" for k n
    by (rule never_linked [OF m]) simp
  with transaction_relays [OF t] m have "relay 0 t = Delivered m response_bytes" by simp
  with t meth show ?thesis by (intro exI conjI)
qed

end
