(* ===== verification/TunnelRaces.thy ===== *)
theory TunnelRaces
  imports TransactionProps "HOL-Library.Sublist"
begin

text \<open>
  The two directions of a tunnel run on different threads: \<open>core/src/Server.cpp\<close> runs its \<open>io_context\<close> on at least four of
  them, and no strand orders the callbacks of a tunnel. A callback is not one step there: it takes the mutex for
  some sections of its body and gives it back in between, and \<open>notify_failure\<close> writes its members outside of them.
  Here the callbacks of \<open>core/src/Transaction.cpp\<close> that work on a tunnel are cut into these sections, which any other
  callback may come between. Each section is one step, as if memory were sequentially consistent.
\<close>

section \<open>The sections of a callback\<close>

text \<open>What one thread does before another one can come in between: a scope of the mutex, an assignment, or a signal.\<close>

datatype Section =
    Release | SetError error_code | SetFailed | Raise Signal
  | ToRemote bytes | ToClient bytes | AgainClient | AgainRemote

fun exec_section :: "Section \<Rightarrow> action" where
  "exec_section Release = release_connections"
| "exec_section (SetError ec) = (\<lambda>t. Inr (t\<lparr>tx_error := ec\<rparr>))"
| "exec_section SetFailed = (\<lambda>t. Inr (t\<lparr>notification_state := NsError\<rparr>))"
| "exec_section (Raise s) = emit s"
| "exec_section (ToRemote data) = guarded (\<lambda>t. case remote t of
     None \<Rightarrow> Inr t | Some r \<Rightarrow> async_write r data (TunnelWriteRemote (length data)) t)"
| "exec_section (ToClient data) = guarded (\<lambda>t. case client t of
     None \<Rightarrow> Inr t | Some c \<Rightarrow> async_write c data (TunnelWriteClient (length data)) t)"
| "exec_section AgainClient = send_client_request_via_tunnel"
| "exec_section AgainRemote = send_server_response_via_tunnel"

definition failure_sections :: "error_code \<Rightarrow> Section list" where
  "failure_sections ec =
     [Release, SetError ec, SetFailed, Raise on_transaction_failed, Release, Raise on_transaction_complete]"

fun callback_sections :: "Pending \<Rightarrow> Answer \<Rightarrow> Section list option" where
  "callback_sections (SendConnectReply ec) (WriteDone ec2 n) =
     Some (if \<not> failed ec \<and> \<not> failed ec2 then [AgainClient, AgainRemote] else failure_sections ec)"
| "callback_sections TunnelReadClient (ReadDone ec data) =
     Some (if ec = asio_eof \<or> length data = 0 then [Release]
       else if failed ec then failure_sections ec else [ToRemote data])"
| "callback_sections (TunnelWriteRemote num_bytes_read) (WriteDone ec num_bytes_written) =
     Some (if failed ec then failure_sections ec
       else if num_bytes_read \<noteq> num_bytes_written then failure_sections (make_error_code NetworkError)
       else [AgainClient])"
| "callback_sections TunnelReadRemote (ReadDone ec data) =
     Some (if ec = asio_eof \<or> length data = 0 then [Release]
       else if failed ec then failure_sections ec else [ToClient data])"
| "callback_sections (TunnelWriteClient num_bytes_read) (WriteDone ec num_bytes_written) =
     Some (if failed ec then failure_sections ec
       else if num_bytes_read \<noteq> num_bytes_written then failure_sections (make_error_code NetworkError)
       else [AgainRemote])"
| "callback_sections _ _ = None"

text \<open>The bytes of a read arrive when asio completes it, before its callback runs.\<close>

fun arrival :: "Pending \<Rightarrow> Answer \<Rightarrow> action" where
  "arrival TunnelReadClient (ReadDone ec data) = (\<lambda>t. receive (client t) data t)"
| "arrival TunnelReadRemote (ReadDone ec data) = (\<lambda>t. receive (remote t) data t)"
| "arrival _ _ = Inr"

text \<open>Run without interruption, the sections are the callback.\<close>

lemma seq_append: "seq (as @ bs) t = (case seq as t of Inl e \<Rightarrow> Inl e | Inr t' \<Rightarrow> seq bs t')"
  by (induction as arbitrary: t) (auto split: sum.splits)

lemma failure_sections_eq: "seq (map exec_section (failure_sections ec)) = notify_failure ec"
  by (auto simp: fun_eq_iff failure_sections_def notify_failure_def complete_transaction_def split: sum.splits)

lemma sections_resume:
  assumes "callback_sections p a = Some ss"
  shows "\<exists>act. resume Q p a = Some act \<and> (\<forall>t. act t = seq (arrival p a # map exec_section ss) t)"
proof -
  have one: "seq [f] t = f t" for f :: action and t by (simp add: seq_last)
  have failing: "seq (exec_section Release # map exec_section (tl (failure_sections ec))) t = notify_failure ec t" for ec t
    by (simp add: failure_sections_eq [symmetric] failure_sections_def)
  have idle: "seq (Inr # as) t = seq as t" for as t by simp
  from assms show ?thesis
    by (cases p; cases a)
      (auto simp: failure_sections_eq idle one on_connect_reply_sent_def on_tunnel_client_bytes_def on_tunnel_remote_written_def
        on_tunnel_remote_bytes_def on_tunnel_client_written_def split: sum.splits)
qed

section \<open>Threads\<close>

text \<open>The transaction, and for each callback that is under way what it still has to do.\<close>

record Race =
  shared :: Transaction
  threads :: "Section list list"

text \<open>Next, asio answers the pending operation \<open>k\<close>, or the thread \<open>i\<close> runs its next section.\<close>

datatype Choice = Answers nat Answer | Runs nat

fun race_event :: "Choice \<Rightarrow> Race \<Rightarrow> Race outcome option" where
  "race_event (Answers k a) R =
     (let t = shared R
      in if k < length (pending t) \<and> plausible t a then
          (case callback_sections (pending t ! k) a of
             None \<Rightarrow> None
           | Some ss \<Rightarrow> Some (map_sum id (\<lambda>t'. \<lparr>shared = t', threads = threads R @ [ss]\<rparr>)
               (arrival (pending t ! k) a (t\<lparr>pending := take k (pending t) @ drop (Suc k) (pending t)\<rparr>))))
        else None)"
| "race_event (Runs i) R =
     (if i < length (threads R) then
        (case threads R ! i of
           [] \<Rightarrow> None
         | s # ss \<Rightarrow> Some (map_sum id (\<lambda>t'. \<lparr>shared = t', threads = (threads R)[i := ss]\<rparr>) (exec_section s (shared R))))
      else None)"

text \<open>A tunnel is entered when the host has been opened and the reply to the client is on its way.\<close>

inductive race :: "qt \<Rightarrow> conn \<Rightarrow> conn \<Rightarrow> Race outcome \<Rightarrow> bool" for Q c d where
  entered: "reachable Q c (Inr t) \<Longrightarrow> remote t = Some d \<Longrightarrow> pending t = [SendConnectReply ec] \<Longrightarrow>
    race Q c d (Inr \<lparr>shared = t, threads = []\<rparr>)"
| raced: "race Q c d (Inr R) \<Longrightarrow> race_event ch R = Some r \<Longrightarrow> race Q c d r"

fun race_run :: "Choice list \<Rightarrow> Race outcome \<Rightarrow> Race outcome option" where
  "race_run [] r = Some r"
| "race_run (ch # chs) (Inl e) = None"
| "race_run (ch # chs) (Inr R) = (case race_event ch R of None \<Rightarrow> None | Some r \<Rightarrow> race_run chs r)"

lemma race_run_race: "race_run chs r = Some r' \<Longrightarrow> race Q c d r \<Longrightarrow> race Q c d r'"
  by (induction chs r rule: race_run.induct) (auto split: option.splits intro: race.raced)

lemma race_run_append: "race_run (xs @ ys) r = (case race_run xs r of None \<Rightarrow> None | Some r' \<Rightarrow> race_run ys r')"
  by (induction xs r rule: race_run.induct) (auto split: option.splits elim: race_run.elims)

lemma race_answers:
  assumes "race_event (Answers k a) R = Some r"
  shows "\<exists>ps p qs ss. pending (shared R) = ps @ p # qs \<and> plausible (shared R) a \<and> callback_sections p a = Some ss \<and>
    r = map_sum id (\<lambda>t'. \<lparr>shared = t', threads = threads R @ [ss]\<rparr>) (arrival p a (shared R\<lparr>pending := ps @ qs\<rparr>))"
  using assms id_take_nth_drop [of k "pending (shared R)"]
  by (fastforce simp: Let_def split: if_splits option.splits)

lemma race_runs:
  assumes "race_event (Runs i) R = Some r"
  shows "\<exists>us s ss vs. threads R = us @ (s # ss) # vs \<and>
    r = map_sum id (\<lambda>t'. \<lparr>shared = t', threads = us @ ss # vs\<rparr>) (exec_section s (shared R))"
proof -
  from assms obtain s ss where i: "i < length (threads R)" "threads R ! i = s # ss"
    and r: "r = map_sum id (\<lambda>t'. \<lparr>shared = t', threads = (threads R)[i := ss]\<rparr>) (exec_section s (shared R))"
    by (auto split: if_splits list.splits)
  from id_take_nth_drop [OF i(1)] upd_conv_take_nth_drop [OF i(1), of ss] i(2) r show ?thesis by metis
qed

section \<open>Counting\<close>

text \<open>Each direction has one operation pending or one section to run, until it fails or ends.\<close>

fun op_out :: "Pending \<Rightarrow> nat" where
  "op_out (SendConnectReply ec) = 1"
| "op_out TunnelReadClient = 1"
| "op_out (TunnelWriteRemote n) = 1"
| "op_out _ = 0"

fun op_in :: "Pending \<Rightarrow> nat" where
  "op_in (SendConnectReply ec) = 1"
| "op_in TunnelReadRemote = 1"
| "op_in (TunnelWriteClient n) = 1"
| "op_in _ = 0"

fun section_out :: "Section \<Rightarrow> nat" where
  "section_out (ToRemote data) = 1"
| "section_out AgainClient = 1"
| "section_out _ = 0"

fun section_in :: "Section \<Rightarrow> nat" where
  "section_in (ToClient data) = 1"
| "section_in AgainRemote = 1"
| "section_in _ = 0"

definition total :: "('a \<Rightarrow> nat) \<Rightarrow> 'a list \<Rightarrow> nat" where
  "total f xs = sum_list (map f xs)"

lemma total_simps [simp]:
  "total f [] = 0" "total f (x # xs) = f x + total f xs" "total f (xs @ ys) = total f xs + total f ys"
  by (simp_all add: total_def)

abbreviation failures_due :: "Section list \<Rightarrow> nat" where
  "failures_due ss \<equiv> count_list ss (Raise on_transaction_failed)"

abbreviation completions_due :: "Section list \<Rightarrow> nat" where
  "completions_due ss \<equiv> count_list ss (Raise on_transaction_complete)"

text \<open>The bytes on their way in a thread.\<close>

definition out_data :: "Section list \<Rightarrow> bytes" where
  "out_data ss = concat (map (\<lambda>s. case s of ToRemote data \<Rightarrow> data | _ \<Rightarrow> []) ss)"

definition in_data :: "Section list \<Rightarrow> bytes" where
  "in_data ss = concat (map (\<lambda>s. case s of ToClient data \<Rightarrow> data | _ \<Rightarrow> []) ss)"

lemma data_simps [simp]:
  "out_data [] = []" "out_data (s # ss) = (case s of ToRemote data \<Rightarrow> data | _ \<Rightarrow> []) @ out_data ss"
  "out_data (xs @ ys) = out_data xs @ out_data ys"
  "in_data [] = []" "in_data (s # ss) = (case s of ToClient data \<Rightarrow> data | _ \<Rightarrow> []) @ in_data ss"
  "in_data (xs @ ys) = in_data xs @ in_data ys"
  by (simp_all add: out_data_def in_data_def)

lemma no_data: "total section_out ss = 0 \<Longrightarrow> out_data ss = []" "total section_in ss = 0 \<Longrightarrow> in_data ss = []"
proof (induction ss)
  case (Cons s ss)
  {
    case 1
    with Cons.IH show ?case by (cases s) simp_all
  next
    case 2
    with Cons.IH show ?case by (cases s) simp_all
  }
qed simp_all

text \<open>The threads of an open tunnel, and those of one that is closed, where a failing callback may have any of its
  sections left.\<close>

definition fresh_thread :: "Section list \<Rightarrow> bool" where
  "fresh_thread ss \<longleftrightarrow> ss \<in> {[], [Release], [AgainClient, AgainRemote], [AgainClient], [AgainRemote]} \<or>
     (\<exists>data. ss = [ToRemote data] \<or> ss = [ToClient data]) \<or> (\<exists>ec. ss = failure_sections ec)"

definition any_thread :: "Section list \<Rightarrow> bool" where
  "any_thread ss \<longleftrightarrow> fresh_thread ss \<or> (\<exists>ec. ss \<in> set (suffixes (failure_sections ec)))"

lemma fresh_threads [simp]:
  "fresh_thread []" "fresh_thread [Release]" "fresh_thread [AgainClient, AgainRemote]" "fresh_thread [AgainClient]"
  "fresh_thread [AgainRemote]" "fresh_thread [ToRemote data]" "fresh_thread [ToClient data]" "fresh_thread (failure_sections ec)"
  by (auto simp: fresh_thread_def)

lemma failure_counts [simp]:
  "total section_out (failure_sections ec) = 0" "total section_in (failure_sections ec) = 0"
  "failures_due (failure_sections ec) = 1" "completions_due (failure_sections ec) = 1" "failure_sections ec \<noteq> []"
  "out_data (failure_sections ec) = []" "in_data (failure_sections ec) = []"
  by (simp_all add: failure_sections_def)

lemmas thread_cases = any_thread_def fresh_thread_def failure_sections_def

lemma any_thread_rest: "any_thread (s # ss) \<Longrightarrow> any_thread ss"
proof -
  have "suffix ss (failure_sections ec)" if "s # ss = failure_sections ec" for ec
    using that by (metis suffix_ConsD suffix_order.refl)
  then show "any_thread (s # ss) \<Longrightarrow> any_thread ss"
    unfolding any_thread_def in_set_suffixes by (auto simp: fresh_thread_def dest: suffix_ConsD)
qed

lemma any_thread_due: "any_thread ss \<Longrightarrow> failures_due ss \<le> completions_due ss"
  by (auto simp: thread_cases)

lemma threads_due: "\<forall>ss \<in> set ths. any_thread ss \<Longrightarrow> failures_due (concat ths) \<le> completions_due (concat ths)"
  by (induction ths) (auto dest: any_thread_due intro: add_mono)

text \<open>A callback takes over the place of its operation.\<close>

lemma callback_fresh:
  assumes "callback_sections p a = Some ss"
  shows "fresh_thread ss" "ss \<noteq> []" "total section_out ss \<le> op_out p" "total section_in ss \<le> op_in p"
    "failures_due ss = completions_due ss"
    "total section_out ss + total section_in ss + failures_due ss \<le> op_out p + op_in p"
  using assms by (elim callback_sections.elims; auto split: if_splits)+

section \<open>Open and closed tunnels\<close>

text \<open>Each direction passes on what it has received, apart from what is under way or lost.\<close>

definition pipe :: "qt \<Rightarrow> conn \<Rightarrow> conn \<Rightarrow> bytes \<Rightarrow> bytes \<Rightarrow> Transaction \<Rightarrow> bool" where
  "pipe Q c d out inc t \<longleftrightarrow>
     (\<exists>req. received c (trace t) = req @ written d (trace t) @ out \<and> parsed_request Q req t) \<and>
     written c (trace t) @ inc = connect_reply True @ received d (trace t)"

definition places :: "Race \<Rightarrow> nat" where
  "places R = total op_out (pending (shared R)) + total op_in (pending (shared R)) + total section_out (concat (threads R)) +
     total section_in (concat (threads R)) + failures_due (concat (threads R))"

definition racing :: "qt \<Rightarrow> conn \<Rightarrow> conn \<Rightarrow> Race \<Rightarrow> bool" where
  "racing Q c d R \<longleftrightarrow> (let t = shared R; todo = concat (threads R)
     in alive c (Some d) t \<and> notification_state t < RequestComplete \<and> tunnel_aimed Q t \<and>
       pipe Q c d (out_data todo) (in_data todo) t \<and> (pending t \<noteq> [] \<or> todo \<noteq> []) \<and>
       total op_out (pending t) + total section_out todo \<le> 1 \<and> total op_in (pending t) + total section_in todo \<le> 1 \<and>
       places R \<le> 2 \<and> failures_due todo = completions_due todo \<and> (\<forall>ss \<in> set (threads R). fresh_thread ss))"

text \<open>The signals of a closed tunnel, after the start.\<close>

definition endings :: "Signal list list" where
  "endings = (let f = on_transaction_failed; c = on_transaction_complete
     in [[], [f], [f, c], [f, f], [f, c, f], [f, f, c], [f, c, f, c], [f, f, c, c]])"

definition over :: "qt \<Rightarrow> conn \<Rightarrow> conn \<Rightarrow> Signal list \<Rightarrow> Race \<Rightarrow> bool" where
  "over Q c d sig R \<longleftrightarrow> (let t = shared R; todo = concat (threads R); failures = count_list sig on_transaction_failed
     in released t \<and> closes (trace t) = [c, d] \<and> d \<noteq> c \<and> tunnel_aimed Q t \<and> (\<exists>out inc. pipe Q c d out inc t) \<and>
       signals (trace t) = on_transaction_start # sig \<and> sig \<in> set endings \<and> failures + places R \<le> 2 \<and>
       failures + failures_due todo = count_list sig on_transaction_complete + completions_due todo \<and>
       (\<forall>ss \<in> set (threads R). any_thread ss) \<and>
       (if notification_state t = NsError then 0 < failures + failures_due todo
        else notification_state t < RequestComplete \<and> failures = 0 \<and>
          (\<forall>ss \<in> set (threads R). Raise on_transaction_failed \<in> set ss \<longrightarrow> SetFailed \<in> set ss)))"

lemma arrival_open:
  assumes "callback_sections p a = Some ss" "plausible u a" "client t = Some c" "remote t = Some d" "d \<noteq> c"
  shows "\<exists>tr. arrival p a t = Inr (t\<lparr>trace := trace t @ tr\<rparr>) \<and> received c tr = out_data ss \<and> received d tr = in_data ss \<and>
    written c tr = [] \<and> written d tr = [] \<and> signals tr = [] \<and> closes tr = [] \<and> opens tr = []"
proof -
  have quiet: ?thesis if "arrival p a = Inr" "out_data ss = []" "in_data ss = []"
    using that by (intro exI [of _ "[]"]) simp
  have eof: "data = []" if "a = ReadDone asio_eof data" for data
    using assms(2) that by simp
  show ?thesis
  proof (cases "p = TunnelReadClient \<or> p = TunnelReadRemote")
    case False
    with assms(1) have "arrival p a = Inr" "out_data ss = [] \<and> in_data ss = []"
      by (cases p; cases a; auto split: if_splits)+
    with quiet show ?thesis by blast
  next
    case True
    with assms(1) obtain ec data where a: "a = ReadDone ec data" by (cases a) auto
    with assms(2) have "failed ec \<Longrightarrow> data = []" "ec = asio_eof \<Longrightarrow> data = []" using eof by auto
    with True assms(1,3-5) a show ?thesis
      by (intro exI [of _ "[Received (if p = TunnelReadClient then c else d) data]"])
        (auto simp: receive_def record_event_def split: if_splits)
  qed
qed

lemma arrival_closed:
  "callback_sections p a = Some ss \<Longrightarrow> client t = None \<Longrightarrow> remote t = None \<Longrightarrow> arrival p a t = Inr t"
  by (elim callback_sections.elims) (simp_all add: receive_def)

lemma racing_answers:
  assumes inv: "racing Q c d R" and ev: "race_event (Answers k a) R = Some r"
  shows "\<exists>R'. r = Inr R' \<and> racing Q c d R'"
proof -
  from race_answers [OF ev] obtain ps p qs ss where pend: "pending (shared R) = ps @ p # qs" and pl: "plausible (shared R) a"
    and ss: "callback_sections p a = Some ss"
    and r: "r = map_sum id (\<lambda>t'. \<lparr>shared = t', threads = threads R @ [ss]\<rparr>) (arrival p a (shared R\<lparr>pending := ps @ qs\<rparr>))"
    by blast
  let ?t = "shared R\<lparr>pending := ps @ qs\<rparr>"
  from inv have open': "client ?t = Some c" "remote ?t = Some d" "d \<noteq> c" by (auto simp: racing_def Let_def alive_def)
  from arrival_open [OF ss pl open'] obtain tr where tr: "arrival p a ?t = Inr (?t\<lparr>trace := trace ?t @ tr\<rparr>)"
    "received c tr = out_data ss" "received d tr = in_data ss"
    "written c tr = []" "written d tr = []" "signals tr = []" "closes tr = []" "opens tr = []" by blast
  let ?R = "\<lparr>shared = ?t\<lparr>trace := trace ?t @ tr\<rparr>, threads = threads R @ [ss]\<rparr>"
  note fresh = callback_fresh [OF ss]
  have data: "out_data (concat (threads R)) = [] \<or> out_data ss = []" "in_data (concat (threads R)) = [] \<or> in_data ss = []"
  proof -
    have "total section_out (concat (threads R)) = 0 \<or> total section_out ss = 0"
      "total section_in (concat (threads R)) = 0 \<or> total section_in ss = 0"
      using inv fresh(3,4) pend by (auto simp: racing_def Let_def)
    then show "out_data (concat (threads R)) = [] \<or> out_data ss = []" "in_data (concat (threads R)) = [] \<or> in_data ss = []"
      using no_data by blast+
  qed
  have "pipe Q c d (out_data (concat (threads R @ [ss]))) (in_data (concat (threads R @ [ss]))) (shared ?R)"
    using inv tr data by (auto simp: racing_def Let_def pipe_def parsed_request_def)
  moreover have "places ?R \<le> places R" using fresh(6) by (simp add: places_def pend)
  moreover have "total op_out (pending (shared ?R)) + total section_out (concat (threads ?R)) \<le> 1"
    "total op_in (pending (shared ?R)) + total section_in (concat (threads ?R)) \<le> 1"
    using inv fresh(3,4) by (auto simp: racing_def Let_def pend)
  ultimately have "racing Q c d ?R"
    using inv tr fresh(1,2,5) by (auto simp: racing_def Let_def alive_def tunnel_aimed_def)
  with r tr show ?thesis by auto
qed

lemma data_once:
  "total section_out (xs @ s # ys) \<le> 1 \<Longrightarrow> out_data (xs @ s # ys) = out_data [s] @ out_data (xs @ ys)"
  "total section_in (xs @ s # ys) \<le> 1 \<Longrightarrow> in_data (xs @ s # ys) = in_data [s] @ in_data (xs @ ys)"
  using no_data [of xs] no_data [of ys] by (cases s; simp)+

text \<open>A section that passes bytes on, or reads on, starts the next operation of its direction.\<close>

lemma relay_eq:
  assumes "0 < section_out s + section_in s" "alive c (Some d) t"
  shows "\<exists>tr p. exec_section s t = Inr (t\<lparr>trace := trace t @ tr, pending := pending t @ [p]\<rparr>) \<and>
    op_out p = section_out s \<and> op_in p = section_in s \<and> written d tr = out_data [s] \<and> written c tr = in_data [s] \<and>
    received c tr = [] \<and> received d tr = [] \<and> signals tr = [] \<and> closes tr = [] \<and> opens tr = []"
proof -
  from assms(2) have t: "client t = Some c" "remote t = Some d" "d \<noteq> c" "\<not> mutex_locked t" by (auto simp: alive_def)
  have idle: "t = t\<lparr>trace := trace t @ []\<rparr>" by simp
  from assms(1) consider (rem) data where "s = ToRemote data" | (cl) data where "s = ToClient data"
    | (ac) "s = AgainClient" | (ar) "s = AgainRemote"
    by (cases s) auto
  then show ?thesis
  proof cases
    case rem
    then have "exec_section s t = guarded (async_write d data (TunnelWriteRemote (length data))) t"
      using t by (simp only: exec_section.simps) (intro guarded_cong; simp)
    with t rem show ?thesis
      by (intro exI [of _ "[Write d data]"] exI [of _ "TunnelWriteRemote (length data)"]) (simp add: guarded_write)
  next
    case cl
    then have "exec_section s t = guarded (async_write c data (TunnelWriteClient (length data))) t"
      using t by (simp only: exec_section.simps) (intro guarded_cong; simp)
    with t cl show ?thesis
      by (intro exI [of _ "[Write c data]"] exI [of _ "TunnelWriteClient (length data)"]) (simp add: guarded_write)
  next
    case ac
    with t show ?thesis by (intro exI [of _ "[]"] exI [of _ TunnelReadClient]) (simp add: via_tunnel_eq)
  next
    case ar
    with t show ?thesis by (intro exI [of _ "[]"] exI [of _ TunnelReadRemote]) (simp add: via_tunnel_eq)
  qed
qed

lemma exec_released:
  "released t \<Longrightarrow> exec_section s t = Inr (case s of SetError ec \<Rightarrow> t\<lparr>tx_error := ec\<rparr> | SetFailed \<Rightarrow> t\<lparr>notification_state := NsError\<rparr>
     | Raise x \<Rightarrow> t\<lparr>trace := trace t @ [Emit x]\<rparr> | _ \<Rightarrow> t)"
  by (cases t; cases s) (auto simp: released_def release_eq conns_def record_event_def guarded_def via_tunnel_eq)

lemma fresh_heads:
  assumes "fresh_thread (s # ss)"
  shows "s = Release \<and> any_thread ss \<or> 0 < section_out s + section_in s \<and> fresh_thread ss"
    "failures_due (s # ss) = failures_due ss" "completions_due (s # ss) = completions_due ss"
    "Raise on_transaction_failed \<in> set ss \<Longrightarrow> SetFailed \<in> set ss"
  using assms any_thread_rest [of s ss]
  by (auto simp: fresh_thread_def failure_sections_def any_thread_def)

lemma fresh_any:
  "fresh_thread ss \<Longrightarrow> any_thread ss \<and> (Raise on_transaction_failed \<in> set ss \<longrightarrow> SetFailed \<in> set ss)"
  by (auto simp: fresh_thread_def failure_sections_def any_thread_def)

lemma any_heads:
  assumes "any_thread (s # ss)"
  shows "s = SetFailed \<Longrightarrow> Raise on_transaction_failed \<in> set ss"
    "s = Raise x \<Longrightarrow> x \<in> {on_transaction_failed, on_transaction_complete} \<and> SetFailed \<notin> set ss \<and>
      Raise on_transaction_failed \<notin> set ss"
  using assms by (auto simp: thread_cases)

lemma racing_runs:
  assumes inv: "racing Q c d R" and ev: "race_event (Runs i) R = Some r"
  shows "\<exists>R'. r = Inr R' \<and> (racing Q c d R' \<or> over Q c d [] R')"
proof -
  from race_runs [OF ev] obtain us s ss vs where ths: "threads R = us @ (s # ss) # vs"
    and r: "r = map_sum id (\<lambda>t'. \<lparr>shared = t', threads = us @ ss # vs\<rparr>) (exec_section s (shared R))" by blast
  let ?t = "shared R" and ?todo = "concat us @ ss @ concat vs"
  have todo: "concat (threads R) = concat us @ s # ss @ concat vs" "concat (us @ ss # vs) = ?todo" by (simp_all add: ths)
  from inv have alive: "alive c (Some d) ?t" and ns: "notification_state ?t < RequestComplete" and aimed: "tunnel_aimed Q ?t"
    and pipe: "pipe Q c d (out_data (concat (threads R))) (in_data (concat (threads R))) ?t"
    and one: "total op_out (pending ?t) + total section_out (concat (threads R)) \<le> 1"
      "total op_in (pending ?t) + total section_in (concat (threads R)) \<le> 1"
    and two: "places R \<le> 2" and due: "failures_due (concat (threads R)) = completions_due (concat (threads R))"
    and fresh: "\<forall>ss \<in> set (threads R). fresh_thread ss"
    by (simp_all add: racing_def Let_def)
  from fresh ths have "fresh_thread (s # ss)" by simp
  note heads = fresh_heads [OF this]
  from heads(2,3) due have due': "failures_due ?todo = completions_due ?todo" by (simp add: todo(1) split: if_splits)
  have places': "places \<lparr>shared = u, threads = us @ ss # vs\<rparr> + section_out s + section_in s \<le>
      places R + total op_out qs + total op_in qs" if "pending u = pending ?t @ qs" for u qs
    using that by (simp add: places_def todo ths)
  from heads(1) show ?thesis
  proof
    assume s: "s = Release \<and> any_thread ss"
    let ?u = "?t\<lparr>client := None, remote := None, trace := trace ?t @ [Close c, Close d]\<rparr>"
    let ?R = "\<lparr>shared = ?u, threads = us @ ss # vs\<rparr>"
    have "exec_section s ?t = Inr ?u" using s alive by (simp add: release_eq conns_def alive_def)
    moreover have "sigs (notification_state ?t) = [on_transaction_start]"
      using ns by (auto simp: sigs_def news_def ns_order)
    moreover have "\<forall>ss \<in> set (us @ ss # vs). any_thread ss \<and>
        (Raise on_transaction_failed \<in> set ss \<longrightarrow> SetFailed \<in> set ss)"
      using fresh ths s heads(4) fresh_any by auto
    moreover have "places ?R \<le> 2" using two places' [of ?u "[]"] by simp
    moreover have "\<exists>out inc. pipe Q c d out inc ?u" using pipe by (auto simp: pipe_def parsed_request_def)
    moreover have "[] \<in> set endings" by (simp add: endings_def Let_def)
    moreover have "notification_state ?t \<noteq> NsError" using ns by (auto simp: ns_order)
    ultimately have "over Q c d [] ?R"
      using alive aimed ns due' todo(2) by (auto simp: over_def Let_def released_def alive_def tunnel_aimed_def)
    with \<open>exec_section s ?t = Inr ?u\<close> r show ?thesis by auto
  next
    assume s: "0 < section_out s + section_in s \<and> fresh_thread ss"
    from relay_eq [OF conjunct1 [OF s] alive] obtain tr p where
      ex: "exec_section s ?t = Inr (?t\<lparr>trace := trace ?t @ tr, pending := pending ?t @ [p]\<rparr>)" (is "_ = Inr ?u")
      and p: "op_out p = section_out s" "op_in p = section_in s"
      and tr: "written d tr = out_data [s]" "written c tr = in_data [s]" "received c tr = []" "received d tr = []"
        "signals tr = []" "closes tr = []" "opens tr = []" by blast
    let ?R = "\<lparr>shared = ?u, threads = us @ ss # vs\<rparr>"
    have "out_data (concat (threads R)) = out_data [s] @ out_data ?todo" "in_data (concat (threads R)) = in_data [s] @ in_data ?todo"
      using one unfolding todo by (intro data_once; simp)+
    with pipe tr have "pipe Q c d (out_data ?todo) (in_data ?todo) ?u"
      by (auto simp: pipe_def parsed_request_def)
    moreover have "places ?R \<le> 2" using two places' [of ?u "[p]"] p by simp
    moreover have "total op_out (pending ?u) + total section_out ?todo \<le> 1" "total op_in (pending ?u) + total section_in ?todo \<le> 1"
      using one p by (simp_all add: todo)
    ultimately have "racing Q c d ?R"
      using alive aimed ns due' todo(2) fresh ths s tr
      by (auto simp: racing_def Let_def alive_def tunnel_aimed_def)
    with ex r show ?thesis by auto
  qed
qed

text \<open>A closed tunnel after something that leaves its history alone.\<close>

lemma over_same:
  assumes inv: "over Q c d sig R" and R': "shared R' = shared R\<lparr>tx_error := e, pending := ps\<rparr>" "places R' \<le> places R"
    and due: "failures_due (concat (threads R)) \<le> failures_due (concat (threads R'))"
      "failures_due (concat (threads R')) + completions_due (concat (threads R)) =
       completions_due (concat (threads R')) + failures_due (concat (threads R))"
    and ok: "\<And>ss. ss \<in> set (threads R') \<Longrightarrow> any_thread ss"
      "\<And>ss. ss \<in> set (threads R') \<Longrightarrow> notification_state (shared R) \<noteq> NsError \<Longrightarrow>
        Raise on_transaction_failed \<in> set ss \<Longrightarrow> SetFailed \<in> set ss"
  shows "over Q c d sig R'"
proof -
  have "pipe Q c d out inc (shared R') = pipe Q c d out inc (shared R)" for out inc
    by (simp add: R'(1) pipe_def parsed_request_def)
  moreover have "tunnel_aimed Q (shared R') = tunnel_aimed Q (shared R)" "released (shared R') = released (shared R)"
    by (simp_all add: R'(1) tunnel_aimed_def released_def)
  ultimately show ?thesis
    using inv R'(2) due ok unfolding over_def Let_def
    by (simp add: R'(1) split: if_splits) (elim conjE disjE; linarith)
qed

lemma over_threads:
  assumes "over Q c d sig R" "ss \<in> set (threads R)"
  shows "any_thread ss"
    "notification_state (shared R) \<noteq> NsError \<Longrightarrow> Raise on_transaction_failed \<in> set ss \<Longrightarrow> SetFailed \<in> set ss"
  using assms by (auto simp: over_def Let_def)

lemma over_answers:
  assumes inv: "over Q c d sig R" and ev: "race_event (Answers k a) R = Some r"
  shows "\<exists>R'. r = Inr R' \<and> over Q c d sig R'"
proof -
  from race_answers [OF ev] obtain ps p qs ss where pend: "pending (shared R) = ps @ p # qs"
    and ss: "callback_sections p a = Some ss"
    and r: "r = map_sum id (\<lambda>t'. \<lparr>shared = t', threads = threads R @ [ss]\<rparr>) (arrival p a (shared R\<lparr>pending := ps @ qs\<rparr>))"
    by blast
  let ?t = "shared R\<lparr>pending := ps @ qs\<rparr>"
  let ?R = "\<lparr>shared = ?t, threads = threads R @ [ss]\<rparr>"
  from inv have t: "client ?t = None" "remote ?t = None" by (simp_all add: over_def Let_def released_def)
  note fresh = callback_fresh [OF ss]
  have "over Q c d sig ?R"
  proof (rule over_same [OF inv])
    show "shared ?R = shared R\<lparr>tx_error := tx_error (shared R), pending := ps @ qs\<rparr>" by simp
    show "places ?R \<le> places R" using fresh(6) by (simp add: places_def pend)
  qed (use fresh(1,5) fresh_any [of ss] over_threads [OF inv] in auto)
  with r arrival_closed [OF ss t] show ?thesis by auto
qed

lemma over_quiet:
  assumes inv: "over Q c d sig R" and ths: "threads R = us @ (s # ss) # vs"
    and s: "s \<notin> {Raise on_transaction_failed, Raise on_transaction_complete, SetFailed}"
    and u: "u = shared R \<or> (\<exists>ec. u = shared R\<lparr>tx_error := ec\<rparr>)"
  shows "over Q c d sig \<lparr>shared = u, threads = us @ ss # vs\<rparr>"
proof (rule over_same [OF inv])
  show "shared \<lparr>shared = u, threads = us @ ss # vs\<rparr> = shared R\<lparr>tx_error := tx_error u, pending := pending (shared R)\<rparr>"
    using u by auto
  show "places \<lparr>shared = u, threads = us @ ss # vs\<rparr> \<le> places R" using u by (auto simp: places_def ths)
  have rest: "s # ss \<in> set (threads R)" by (simp add: ths)
  show "any_thread x" if "x \<in> set (threads \<lparr>shared = u, threads = us @ ss # vs\<rparr>)" for x
    using that over_threads(1) [OF inv] any_thread_rest [OF over_threads(1) [OF inv rest]] by (auto simp: ths)
  show "SetFailed \<in> set x" if "x \<in> set (threads \<lparr>shared = u, threads = us @ ss # vs\<rparr>)"
    "notification_state (shared R) \<noteq> NsError" "Raise on_transaction_failed \<in> set x" for x
    using that over_threads(2) [OF inv] over_threads(2) [OF inv rest] s by (auto simp: ths)
qed (use s in \<open>auto simp: ths\<close>)

lemma over_runs:
  assumes inv: "over Q c d sig R" and ev: "race_event (Runs i) R = Some r"
  shows "\<exists>R' sig'. r = Inr R' \<and> over Q c d sig' R'"
proof -
  from race_runs [OF ev] obtain us s ss vs where ths: "threads R = us @ (s # ss) # vs"
    and r: "r = map_sum id (\<lambda>t'. \<lparr>shared = t', threads = us @ ss # vs\<rparr>) (exec_section s (shared R))" by blast
  let ?t = "shared R" and ?todo = "concat us @ ss @ concat vs"
  have todo: "concat (threads R) = concat us @ s # ss @ concat vs" "concat (us @ ss # vs) = ?todo" by (simp_all add: ths)
  from inv have rel: "released ?t" and any: "\<forall>ss \<in> set (threads R). any_thread ss" by (simp_all add: over_def Let_def)
  from any ths have this_thread: "any_thread (s # ss)" by simp
  then have ss: "any_thread ss" by (rule any_thread_rest)
  have less: "failures_due ?todo \<le> completions_due ?todo"
    using threads_due [of "us @ ss # vs"] any ths ss by auto
  let ?u = "case s of SetError ec \<Rightarrow> ?t\<lparr>tx_error := ec\<rparr> | SetFailed \<Rightarrow> ?t\<lparr>notification_state := NsError\<rparr>
     | Raise x \<Rightarrow> ?t\<lparr>trace := trace ?t @ [Emit x]\<rparr> | _ \<Rightarrow> ?t"
  let ?R = "\<lparr>shared = ?u, threads = us @ ss # vs\<rparr>"
  from r exec_released [OF rel, of s] have r: "r = Inr ?R" by simp
  show ?thesis
  proof (cases "s \<in> {Raise on_transaction_failed, Raise on_transaction_complete, SetFailed}")
    case False
    with any_heads(2) [OF this_thread] have "?u = ?t \<or> (\<exists>ec. ?u = ?t\<lparr>tx_error := ec\<rparr>)" by (cases s) auto
    with over_quiet [OF inv ths False] r show ?thesis by blast
  next
    case True
    have places': "places ?R + (if s = Raise on_transaction_failed then 1 else 0) = places R"
      using True by (auto simp: places_def ths)
    define sig' where "sig' = (case s of Raise x \<Rightarrow> sig @ [x] | _ \<Rightarrow> sig)"
    have "sig' \<in> set endings"
      using True inv places' less
      by (auto simp: sig'_def over_def Let_def endings_def todo(1) split: if_splits)
    moreover have "signals (trace ?u) = on_transaction_start # sig'"
      using True inv by (auto simp: sig'_def over_def Let_def)
    moreover have "pipe Q c d out inc ?u" if "pipe Q c d out inc ?t" for out inc
      using that True by (auto simp: pipe_def parsed_request_def)
    moreover have "released ?u" "closes (trace ?u) = [c, d]" "tunnel_aimed Q ?u"
      using True inv by (auto simp: over_def Let_def released_def tunnel_aimed_def)
    moreover have "count_list sig' on_transaction_failed + places ?R \<le> 2"
      using True inv places' by (auto simp: sig'_def over_def Let_def)
    moreover have "count_list sig' on_transaction_failed + failures_due ?todo =
        count_list sig' on_transaction_complete + completions_due ?todo"
      using True inv by (auto simp: sig'_def over_def Let_def todo(1))
    moreover have "if notification_state ?u = NsError then 0 < count_list sig' on_transaction_failed + failures_due ?todo
        else notification_state ?u < RequestComplete \<and> count_list sig' on_transaction_failed = 0 \<and>
          (\<forall>ss \<in> set (us @ ss # vs). Raise on_transaction_failed \<in> set ss \<longrightarrow> SetFailed \<in> set ss)"
      using True inv any_heads [OF this_thread]
      by (auto simp: sig'_def over_def Let_def todo(1) ths count_list_0_iff neq0_conv [symmetric] simp del: neq0_conv split: if_splits)
    moreover have "d \<noteq> c" "\<exists>out inc. pipe Q c d out inc ?t" using inv by (simp_all add: over_def Let_def)
    ultimately have "over Q c d sig' ?R"
      using any ss ths todo(2) unfolding over_def Let_def by (simp only: Race.select_convs) auto
    with r show ?thesis by blast
  qed
qed

section \<open>Every interleaving\<close>

lemma race_entered:
  assumes "reachable Q c (Inr t)" "remote t = Some d" "pending t = [SendConnectReply ec]"
  shows "racing Q c d \<lparr>shared = t, threads = []\<rparr>"
proof -
  from reachable_inv [OF assms(1)] assms(2,3) have "replying Q c d ec t"
    unfolding tx_inv_def
    by (elim disjE exE)
      (auto simp: reading_request_def opening_remote_def opening_tunnel_def failed_early_def sending_request_def
        reading_response_def sending_response_def completed_def tunneling_def two_way_def tunnel_closed_def replying_def
        alive_def released_def split: if_splits)
  with assms(2,3) show ?thesis
    by (auto simp: racing_def Let_def replying_def places_def pipe_def alive_def split: if_splits)
qed

lemma race_inv: "race Q c d r \<Longrightarrow> \<exists>R. r = Inr R \<and> (racing Q c d R \<or> (\<exists>sig. over Q c d sig R))"
proof (induction rule: race.induct)
  case (entered t ec)
  then show ?case using race_entered by blast
next
  case (raced R ch r)
  then have inv: "racing Q c d R \<or> (\<exists>sig. over Q c d sig R)" by simp
  show ?case
  proof (cases ch)
    case (Answers k a)
    with inv raced.hyps(2) racing_answers [of Q c d R k a r] over_answers [of Q c d _ R k a r] show ?thesis by blast
  next
    case (Runs i)
    with inv raced.hyps(2) racing_runs [of Q c d R i r] over_runs [of Q c d _ R i r] show ?thesis by blast
  qed
qed

text \<open>The atomic callbacks of \<open>Transaction\<close> are among the interleavings.\<close>

lemma race_uninterrupted:
  "seq (map exec_section ss) t = Inr t' \<Longrightarrow>
   race_run (replicate (length ss) (Runs (length us))) (Inr \<lparr>shared = t, threads = us @ ss # vs\<rparr>) =
     Some (Inr \<lparr>shared = t', threads = us @ [] # vs\<rparr>)"
  by (induction ss arbitrary: t) (auto split: sum.splits)

theorem atomic_callbacks_race:
  assumes "race Q c d (Inr R)" and "step Q (shared R) (Inr t')"
    and "\<And>p. p \<in> set (pending (shared R)) \<Longrightarrow> 0 < op_out p + op_in p"
  shows "\<exists>R'. race Q c d (Inr R') \<and> shared R' = t' \<and> concat (threads R') = concat (threads R)"
  using assms(2)
proof cases
  case (answer ps p qs a act)
  have "0 < op_out p + op_in p" using assms(3) answer(2) by simp
  with answer(4) obtain ss where ss: "callback_sections p a = Some ss"
    by (cases p; cases a) auto
  with sections_resume [OF ss, of Q] answer(4) have act: "act u = seq (arrival p a # map exec_section ss) u" for u by auto
  let ?t = "shared R\<lparr>pending := ps @ qs\<rparr>"
  from act answer(1) obtain u where u: "arrival p a ?t = Inr u" "seq (map exec_section ss) u = Inr t'"
    by (auto split: sum.splits)
  have "race_event (Answers (length ps) a) R = Some (Inr \<lparr>shared = u, threads = threads R @ ss # []\<rparr>)"
    using answer(2,3) ss u(1) by (simp add: Let_def)
  from race.raced [OF assms(1) this] race_run_race [OF race_uninterrupted [OF u(2), of "threads R" "[]"]]
  have "race Q c d (Inr \<lparr>shared = t', threads = threads R @ [] # []\<rparr>)" by blast
  then show ?thesis by (intro exI [of _ "\<lparr>shared = t', threads = threads R @ [] # []\<rparr>"]) simp
qed

text \<open>Outside tunnels there is nothing to interleave: one operation is pending, and starting it is the last thing a callback
  does.\<close>

theorem one_callback_at_a_time:
  assumes "reachable Q c (Inr t)"
  shows "length (pending t) \<le> 1 \<or> msg_method (request t) = latin1 ''CONNECT'' \<and> length (pending t) \<le> 2"
  using reachable_inv [OF assms] unfolding tx_inv_def
  by (elim disjE exE)
    (auto simp: reading_request_def opening_remote_def opening_tunnel_def failed_early_def sending_request_def
      reading_response_def sending_response_def completed_def tunneling_def two_way_def tunnel_aimed_def tunnel_closed_def replying_def
      simp del: latin1_simps)

section \<open>Properties\<close>

text \<open>What is left when nothing is under way any more.\<close>

definition idle :: "Race \<Rightarrow> bool" where
  "idle R \<longleftrightarrow> pending (shared R) = [] \<and> concat (threads R) = []"

lemma over_idle:
  assumes "over Q c d sig R" "idle R"
  shows "sig \<in> {[], [on_transaction_failed, on_transaction_complete],
      [on_transaction_failed, on_transaction_complete, on_transaction_failed, on_transaction_complete],
      [on_transaction_failed, on_transaction_failed, on_transaction_complete, on_transaction_complete]} \<and>
    (notification_state (shared R) = NsError \<longleftrightarrow> sig \<noteq> [])"
proof -
  have "sig \<in> set endings" and same: "count_list sig on_transaction_failed = count_list sig on_transaction_complete"
    and ns: "notification_state (shared R) = NsError \<longleftrightarrow> 0 < count_list sig on_transaction_failed"
    using assms by (auto simp: over_def Let_def idle_def simp del: concat_eq_Nil_conv split: if_splits)
  then show ?thesis by (auto simp: endings_def Let_def)
qed

lemma pipe_shows:
  assumes "pipe Q c d out inc t" "B \<Longrightarrow> out = [] \<and> inc = []"
  shows "\<exists>req out inc. received c (trace t) = req @ written d (trace t) @ out \<and>
       written c (trace t) @ inc = connect_reply True @ received d (trace t) \<and>
       (\<exists>k' rest. parse Q request_start req = Inr (Valid, k', rest) \<and> message k' = request t) \<and>
       (B \<longrightarrow> out = [] \<and> inc = [])"
proof -
  from assms(1) obtain req k' rest where "received c (trace t) = req @ written d (trace t) @ out"
    "written c (trace t) @ inc = connect_reply True @ received d (trace t)"
    "parse Q request_start req = Inr (Valid, k', rest)" "message k' = request t"
    by (auto simp: pipe_def parsed_request_def feed_def)
  with assms(2) show ?thesis by (intro exI [of _ req] exI [of _ out] exI [of _ inc]) blast
qed


text \<open>Both directions fail at a write; the second one begins before the first one is done.\<close>

definition race_start :: "Choice list" where
  "race_start = [Answers 0 (WriteDone no_error 50), Runs 0, Runs 0, Answers 0 (ReadDone no_error ''ab''), Runs 1,
     Answers 0 (ReadDone no_error ''xyz''), Runs 2]"

definition race_failures :: "Choice list" where
  "race_failures = race_start @ [Answers 0 (WriteDone asio_eof 0), Answers 0 (WriteDone asio_eof 0), Runs 3, Runs 3, Runs 3,
     Runs 3, Runs 4, Runs 4, Runs 4, Runs 4, Runs 3, Runs 3, Runs 4, Runs 4]"

definition raced_shown :: "Choice list \<Rightarrow> (conn option \<times> Pending list \<times> Section list list \<times> Event list) outcome option option" where
  "raced_shown chs = map_option (\<lambda>r. map_option
     (map_sum id (\<lambda>R. (client (shared R), pending (shared R), threads R, trace (shared R))))
     (race_run chs (map_sum id (\<lambda>t. \<lparr>shared = t, threads = []\<rparr>) r))) (run ascii_qt (take 2 tunnel_run) (started 0))"

lemma raced_run:
  assumes "raced_shown chs = Some (Some (Inr (cl, ps, todo, tr)))"
  shows "\<exists>R. race ascii_qt 0 1 (Inr R) \<and> client (shared R) = cl \<and> pending (shared R) = ps \<and> threads R = todo \<and>
    trace (shared R) = tr"
proof -
  have "shown (run ascii_qt (take 2 tunnel_run) (started 0)) = Some (Inr (Some 0, Some 1, [SendConnectReply no_error],
     [Emit on_transaction_start, Received 0 connect_bytes, Open ''h'' ''1'', Write 0 (connect_reply True)]))"
    by code_simp
  from shown_Inr [OF this] obtain t where t: "run ascii_qt (take 2 tunnel_run) (started 0) = Some (Inr t)"
    and p: "remote t = Some 1" "pending t = [SendConnectReply no_error]" by auto
  from assms t obtain r where r: "race_run chs (Inr \<lparr>shared = t, threads = []\<rparr>) = Some r"
    "map_sum id (\<lambda>R. (client (shared R), pending (shared R), threads R, trace (shared R))) r = Inr (cl, ps, todo, tr)"
    by (auto simp: raced_shown_def)
  then obtain R where R: "r = Inr R" "client (shared R) = cl \<and> pending (shared R) = ps \<and> threads R = todo \<and>
      trace (shared R) = tr" by (cases r) auto
  from race_run_race [OF r(1) entered [OF run_started [OF t] p]] R show ?thesis by blast
qed

lemma race_failures_shown:
  "raced_shown race_failures = Some (Some (Inr (None, [], replicate 5 [], [Emit on_transaction_start, Received 0 connect_bytes,
     Open ''h'' ''1'', Write 0 (connect_reply True), Received 0 ''ab'', Write 1 ''ab'', Received 1 ''xyz'', Write 0 ''xyz'',
     Close 0, Close 1, Emit on_transaction_failed, Emit on_transaction_failed, Emit on_transaction_complete,
     Emit on_transaction_complete])))"
  by code_simp


text \<open>\<open>notify_failure\<close> writes \<open>error_\<close> and \<open>notification_state_\<close> after it has given the mutex back: two directions that fail can both
  be about to write them, on two threads, with nothing to order the writes.\<close>

theorem failures_race:
  "\<exists>R i j. race ascii_qt 0 1 (Inr R) \<and> i < j \<and> j < length (threads R) \<and>
     hd (threads R ! i) = SetError asio_eof \<and> hd (threads R ! j) = SetError asio_eof \<and>
     hd (tl (threads R ! i)) = SetFailed \<and> hd (tl (threads R ! j)) = SetFailed"
proof -
  have "raced_shown (race_start @ [Answers 0 (WriteDone asio_eof 0), Answers 0 (WriteDone asio_eof 0), Runs 3, Runs 4]) =
    Some (Some (Inr (None, [], [[], [], [], tl (failure_sections asio_eof), tl (failure_sections asio_eof)],
      [Emit on_transaction_start, Received 0 connect_bytes, Open ''h'' ''1'', Write 0 (connect_reply True), Received 0 ''ab'',
       Write 1 ''ab'', Received 1 ''xyz'', Write 0 ''xyz'', Close 0, Close 1])))"
    by code_simp
  from raced_run [OF this] obtain R where "race ascii_qt 0 1 (Inr R)"
    "threads R = [[], [], [], tl (failure_sections asio_eof), tl (failure_sections asio_eof)]" by blast
  then show ?thesis
    by (intro exI [of _ R] exI [of _ 3] exI [of _ 4]) (simp add: failure_sections_def)
qed

text \<open>A closed tunnel comes to rest: each operation still pending costs its answer and at most the six sections of
  a failure, and nothing new is started.\<close>

definition work_left :: "Race \<Rightarrow> nat" where
  "work_left R = 7 * length (pending (shared R)) + length (concat (threads R))"

lemma closed_work:
  assumes "released (shared R)" "race_event ch R = Some r"
  shows "\<exists>R'. r = Inr R' \<and> released (shared R') \<and> work_left R' < work_left R"
proof (cases ch)
  case (Answers k a)
  from race_answers [OF assms(2) [unfolded Answers]] obtain ps p qs ss where
    pend: "pending (shared R) = ps @ p # qs" and ss: "callback_sections p a = Some ss" and
    r: "r = map_sum id (\<lambda>t'. \<lparr>shared = t', threads = threads R @ [ss]\<rparr>) (arrival p a (shared R\<lparr>pending := ps @ qs\<rparr>))"
    by blast
  have "length ss \<le> 6"
    using callback_fresh(1) [OF ss] by (auto simp: fresh_thread_def failure_sections_def)
  with arrival_closed [OF ss, of "shared R\<lparr>pending := ps @ qs\<rparr>"] r assms(1) show ?thesis
    by (auto simp: released_def work_left_def pend)
next
  case (Runs i)
  from race_runs [OF assms(2) [unfolded Runs]] obtain us s ss vs where ths: "threads R = us @ (s # ss) # vs"
    and r: "r = map_sum id (\<lambda>t'. \<lparr>shared = t', threads = us @ ss # vs\<rparr>) (exec_section s (shared R))" by blast
  with exec_released [OF assms(1), of s] assms(1) show ?thesis
    by (cases s) (auto simp: released_def work_left_def)
qed

theorem tunnel_winds_down:
  assumes "race Q c d (Inr R)" and "client (shared R) = None" and "race_run chs (Inr R) = Some r"
  shows "length chs \<le> work_left R"
proof -
  have "released (shared R)"
    using race_inv [OF assms(1)] assms(2) by (auto simp: racing_def over_def Let_def alive_def)
  moreover have "released (shared R) \<Longrightarrow> race_run chs (Inr R) = Some r \<Longrightarrow> length chs \<le> work_left R" for R
  proof (induction chs arbitrary: R)
    case (Cons ch chs)
    from Cons.prems(2) obtain r' where r': "race_event ch R = Some r'" "race_run chs r' = Some r"
      by (auto split: option.splits)
    from closed_work [OF Cons.prems(1) r'(1)] obtain R' where "r' = Inr R'" "released (shared R')" "work_left R' < work_left R"
      by blast
    with Cons.IH [of R'] r'(2) show ?case by simp
  qed simp
  ultimately show ?thesis using assms(3) by blast
qed

end
