(* ===== verification/Progress.thy ===== *)
theory Progress
  imports TransactionProps
begin

text \<open>
  A transaction cannot go on without bytes: a budget of callbacks that are paid for by the bytes received. Each pending
  operation of \<open>core/src/Transaction.cpp\<close> stands for the callbacks it can still lead to before another byte has to
  arrive, and the lemmas say how much an action can add to that.
\<close>

section \<open>The budget\<close>

fun op_budget :: "Pending \<Rightarrow> nat" where
  "op_budget ReadRequest = 5"
| "op_budget OpenRemote = 4"
| "op_budget SendRequest = 3"
| "op_budget ReadResponse = 2"
| "op_budget SendResponse = 1"
| "op_budget OpenTunnel = 4"
| "op_budget (SendConnectReply ec) = 3"
| "op_budget TunnelReadClient = 1"
| "op_budget (TunnelWriteRemote n) = 2"
| "op_budget TunnelReadRemote = 1"
| "op_budget (TunnelWriteClient n) = 2"

definition budget :: "Transaction \<Rightarrow> nat" where
  "budget t = sum_list (map op_budget (pending t))"

definition adds :: "nat \<Rightarrow> action \<Rightarrow> bool" where
  "adds n act \<longleftrightarrow> (\<forall>t t'. act t = Inr t' \<longrightarrow> budget t' \<le> budget t + n)"

lemma addsI: "(\<And>t t'. act t = Inr t' \<Longrightarrow> budget t' \<le> budget t + n) \<Longrightarrow> adds n act"
  by (simp add: adds_def)

lemma addsD: "adds n act \<Longrightarrow> act t = Inr t' \<Longrightarrow> budget t' \<le> budget t + n"
  by (simp add: adds_def)

lemma adds_more: "adds m act \<Longrightarrow> m \<le> n \<Longrightarrow> adds n act"
  unfolding adds_def by (meson add_left_mono order_trans)

lemma adds_seq:
  "list_all2 adds ns as \<Longrightarrow> sum_list ns \<le> n \<Longrightarrow> adds n (seq as)"
proof (rule addsI)
  fix t t'
  assume "list_all2 adds ns as" "sum_list ns \<le> n" "seq as t = Inr t'"
  then have "budget t' \<le> budget t + sum_list ns"
  proof (induction ns as arbitrary: t rule: list_all2_induct)
    case (Cons m ns a as)
    then obtain u where "a t = Inr u" "seq as u = Inr t'" by (auto split: sum.splits)
    with Cons.IH [of u] addsD [OF Cons.hyps(1)] Cons.prems show ?case by fastforce
  qed simp
  with \<open>sum_list ns \<le> n\<close> show "budget t' \<le> budget t + n" by simp
qed

lemma adds_guarded: "adds n act \<Longrightarrow> adds n (guarded act)"
  by (rule addsI) (auto simp: guarded_def budget_def split: if_splits sum.splits dest!: addsD)

lemma adds_quiet: "(\<And>t. pending (f t) = pending t) \<Longrightarrow> adds n (\<lambda>t. Inr (f t))"
  by (simp add: adds_def budget_def)

lemma adds_event: "adds n (record_event e)"
  by (simp add: adds_def record_event_def budget_def)

lemma adds_start: "op_budget p \<le> n \<Longrightarrow> adds n (start_op p)"
  by (simp add: adds_def start_op_def budget_def)

lemma adds_write: "op_budget p \<le> n \<Longrightarrow> adds n (async_write c data p)"
  unfolding async_write_def by (rule adds_seq [of "[0, n]"]) (simp_all add: adds_event adds_start)

lemma adds_if: "adds n f \<Longrightarrow> adds n g \<Longrightarrow> adds n (\<lambda>t. if b t then f t else g t)"
  by (simp add: adds_def)

lemma budget_simps [simp]:
  "start_op p t = Inr t' \<Longrightarrow> budget t' = budget t + op_budget p"
  "async_write c data p t = Inr t' \<Longrightarrow> budget t' = budget t + op_budget p"
  "pool_try_open Q hp p t = Inr t' \<Longrightarrow> budget t' = budget t + op_budget p"
  by (auto simp: action_simps pool_try_open_def budget_def)

section \<open>The end of a transaction\<close>

lemma adds_release: "adds n release_connections"
  by (simp add: adds_def release_eq budget_def)

lemma adds_complete: "adds n complete_transaction"
  unfolding complete_transaction_def by (rule adds_seq [of "[0, 0]"]) (simp_all add: adds_release adds_event)

lemma adds_failure: "adds n (notify_failure ec)"
  unfolding notify_failure_def
  by (rule adds_seq [of "[0, 0, 0, 0]"]) (simp_all add: adds_release adds_event adds_complete adds_quiet)

lemma adds_notification: "adds n (do_notification ns)"
proof (rule addsI)
  fix t t'
  have leaving: "budget u = budget t" if "emit_on_leaving s t = Inr u" for s t u
    using that by (cases s) (auto simp: emit_on_leaving_def record_event_def budget_def)
  show "do_notification ns t = Inr t' \<Longrightarrow> budget t' \<le> budget t + n"
  proof (induction ns t rule: do_notification.induct)
    case (1 ns t)
    then show ?case
      by (auto simp: do_notification.simps [of ns t] budget_def split: if_splits sum.splits dest: leaving)
  qed
qed

lemma adds_phases: "adds n (notify_phases phs)"
proof -
  have "adds 0 (notify_phase_change ph)" for ph
    by (rule addsI) (auto simp: notify_phase_change_def split: ParsePhase.splits if_splits dest: addsD [OF adds_notification [of 0]])
  then have "adds 0 (notify_phases phs)"
    unfolding notify_phases_def
    by (intro adds_seq [of "replicate (length phs) 0"]) (simp_all add: list_all2_conv_all_nth sum_list_replicate)
  then show ?thesis by (rule adds_more) simp
qed

section \<open>The operations\<close>

lemma adds_idle: "adds n (\<lambda>t. Inr t)"
  by (simp add: adds_def)

lemma adds_read_client: "adds 5 read_client_request"
  unfolding read_client_request_def by (intro adds_guarded adds_if adds_failure adds_start; simp)

lemma adds_read_remote: "adds 2 read_remote_response"
  unfolding read_remote_response_def
  by (intro adds_guarded addsI) (auto split: option.splits dest: addsD [OF adds_failure [of 2]])

lemma adds_send_request: "adds 3 (send_client_request_to_remote Q)"
  unfolding send_client_request_to_remote_def
  by (intro adds_guarded addsI) (auto split: option.splits dest: addsD [OF adds_failure [of 3]])

lemma adds_send_response: "adds 1 send_remote_response_to_client"
  unfolding send_remote_response_to_client_def
  by (intro adds_guarded addsI) (auto split: option.splits dest: addsD [OF adds_failure [of 1]])

lemma adds_open_remote: "adds 4 (open_remote_connection Q)"
  by (rule addsI)
    (auto simp: open_remote_connection_def split: list.splits dest: addsD [OF adds_failure [of 4]])

lemma adds_via_tunnel: "adds 1 send_client_request_via_tunnel" "adds 1 send_server_response_via_tunnel"
  unfolding send_client_request_via_tunnel_def send_server_response_via_tunnel_def
  by (intro adds_guarded adds_if adds_idle adds_start; simp)+

lemma adds_request_parsed: "adds 5 (on_request_parsed Q st)"
proof (cases st)
  case Valid
  have "adds 5 (establish_tls_tunnel Q)"
    by (rule addsI) (auto simp: establish_tls_tunnel_def)
  moreover have "adds 5 (seq [do_notification RequestComplete, open_remote_connection Q])"
    by (rule adds_seq [of "[0, 4]"]) (simp_all add: adds_notification adds_open_remote)
  ultimately show ?thesis using Valid unfolding on_request_parsed_def by (simp del: seq.simps) (intro adds_if)
qed (simp_all add: on_request_parsed_def [abs_def] adds_read_client adds_failure)

lemma adds_response_parsed: "adds 2 (on_response_parsed st)"
proof (cases st)
  case Valid
  have "adds 2 (seq [do_notification ResponseComplete, send_remote_response_to_client])"
    by (rule adds_seq [of "[0, 1]"]) (simp_all add: adds_notification adds_send_response del: One_nat_def)
  with Valid show ?thesis unfolding on_response_parsed_def by (simp del: seq.simps)
qed (simp_all add: on_response_parsed_def [abs_def] adds_read_remote adds_failure)

section \<open>The callbacks\<close>

lemma adds_request_bytes:
  "failed ec \<Longrightarrow> adds n (on_request_bytes Q ec data)" "adds 5 (on_request_bytes Q ec data)"
proof -
  have stored: "adds 0 (store_request k)" for k
    unfolding store_request_def by (rule adds_quiet) simp
  have parsed: "adds 5 (seq [store_request k, notify_phases phs, on_request_parsed Q st])" for k phs st
    by (rule adds_seq [of "[0, 0, 5]"]) (simp_all add: stored adds_phases adds_request_parsed)
  show "adds 5 (on_request_bytes Q ec data)"
    by (rule addsI) (auto simp: on_request_bytes_def simp del: seq.simps split: if_splits sum.splits prod.splits
        dest: addsD [OF adds_failure [of 5]] addsD [OF parsed])
  show "failed ec \<Longrightarrow> adds n (on_request_bytes Q ec data)"
    using adds_failure by (auto simp: on_request_bytes_def adds_def)
qed

lemma adds_response_bytes:
  "failed ec \<Longrightarrow> adds n (on_response_bytes Q ec data)" "adds 2 (on_response_bytes Q ec data)"
proof -
  have stored: "adds 0 (store_response k)" for k
    unfolding store_response_def by (rule adds_quiet) simp
  have parsed: "adds 2 (seq [store_response k, notify_phases phs, on_response_parsed st])" for k phs st
    by (rule adds_seq [of "[0, 0, 2]"]) (simp_all add: stored adds_phases adds_response_parsed)
  have same: "budget (t\<lparr>raw_input := x\<rparr>) = budget t" for t x by (simp add: budget_def)
  show "adds 2 (on_response_bytes Q ec data)"
    by (rule addsI) (auto simp: on_response_bytes_def Let_def same simp del: seq.simps split: if_splits sum.splits prod.splits
        dest: addsD [OF adds_failure [of 2]] addsD [OF parsed])
  show "failed ec \<Longrightarrow> adds n (on_response_bytes Q ec data)"
    using adds_failure by (auto simp: on_response_bytes_def adds_def)
qed

lemma adds_tunnel_bytes:
  "data = [] \<Longrightarrow> adds n (on_tunnel_client_bytes ec data)" "adds 2 (on_tunnel_client_bytes ec data)"
  "data = [] \<Longrightarrow> adds n (on_tunnel_remote_bytes ec data)" "adds 2 (on_tunnel_remote_bytes ec data)"
  "failed ec \<Longrightarrow> adds n (on_tunnel_client_bytes ec data)" "failed ec \<Longrightarrow> adds n (on_tunnel_remote_bytes ec data)"
proof -
  have passed: "adds 2 (guarded (\<lambda>t. case f t of None \<Rightarrow> Inr t | Some r \<Rightarrow> async_write r data p t))" if "op_budget p \<le> 2" for f p
    by (intro adds_guarded addsI) (auto split: option.splits simp: that)
  show "adds 2 (on_tunnel_client_bytes ec data)" "adds 2 (on_tunnel_remote_bytes ec data)"
    unfolding on_tunnel_client_bytes_def on_tunnel_remote_bytes_def
    by (intro adds_if adds_release adds_failure passed; simp)+
  show "data = [] \<Longrightarrow> adds n (on_tunnel_client_bytes ec data)" "data = [] \<Longrightarrow> adds n (on_tunnel_remote_bytes ec data)"
    "failed ec \<Longrightarrow> adds n (on_tunnel_client_bytes ec data)" "failed ec \<Longrightarrow> adds n (on_tunnel_remote_bytes ec data)"
    using adds_release adds_failure by (auto simp: on_tunnel_client_bytes_def on_tunnel_remote_bytes_def adds_def)
qed

lemma adds_opened:
  "adds 3 (on_remote_open Q conn ec)" "adds 3 (on_tunnel_open conn ec)"
proof -
  have "adds 3 (seq [\<lambda>t. Inr (t\<lparr>remote := conn\<rparr>), send_client_request_to_remote Q])"
    by (rule adds_seq [of "[0, 3]"]) (simp_all add: adds_quiet adds_send_request)
  then show "adds 3 (on_remote_open Q conn ec)"
    unfolding on_remote_open_def by (intro adds_if adds_failure)
  let ?reply = "\<lambda>t. case client t of None \<Rightarrow> fail ClientDisconnected t
      | Some c \<Rightarrow> async_write c (connect_reply (\<not> failed ec)) (SendConnectReply ec) t"
  have reply: "adds 3 (guarded ?reply)"
    by (intro adds_guarded addsI) (auto split: option.splits dest: addsD [OF adds_failure [of 3]])
  show "adds 3 (on_tunnel_open conn ec)"
  proof (rule addsI)
    fix t t'
    assume "on_tunnel_open conn ec t = Inr t'"
    then have "guarded ?reply (if \<not> failed ec then t\<lparr>remote := conn\<rparr> else t) = Inr t'"
      unfolding on_tunnel_open_def Let_def .
    from addsD [OF reply this] show "budget t' \<le> budget t + 3" by (simp add: budget_def split: if_splits)
  qed
qed

lemma adds_sent:
  "adds 2 (on_request_sent ec)" "adds 0 (on_response_sent ec)" "adds 2 (on_connect_reply_sent ec ec2)"
  "adds 1 (on_tunnel_remote_written m ec n)" "adds 1 (on_tunnel_client_written m ec n)"
proof -
  have "adds 2 (seq [\<lambda>t. Inr (t\<lparr>raw_input := [], tx_parser := resetForResponse (tx_parser t)\<rparr>), read_remote_response])"
    by (rule adds_seq [of "[0, 2]"]) (simp_all add: adds_quiet adds_read_remote)
  then show "adds 2 (on_request_sent ec)" unfolding on_request_sent_def by (intro adds_if adds_failure)
  show "adds 0 (on_response_sent ec)"
    unfolding on_response_sent_def by (intro adds_if adds_failure adds_complete)
  have "adds 2 (seq [send_client_request_via_tunnel, send_server_response_via_tunnel])"
    by (rule adds_seq [of "[1, 1]"]) (simp_all add: adds_via_tunnel del: One_nat_def)
  then show "adds 2 (on_connect_reply_sent ec ec2)"
    unfolding on_connect_reply_sent_def Let_def by (intro adds_if adds_failure)
  show "adds 1 (on_tunnel_remote_written m ec n)" "adds 1 (on_tunnel_client_written m ec n)"
    unfolding on_tunnel_remote_written_def on_tunnel_client_written_def
    by (intro adds_if adds_failure adds_via_tunnel)+
qed

section \<open>Runs\<close>

definition answer_bytes :: "Answer \<Rightarrow> nat" where
  "answer_bytes a = (case a of ReadDone ec data \<Rightarrow> length data | _ \<Rightarrow> 0)"

text \<open>A read into a buffer that is not empty brings at least one byte, or an error.\<close>

definition brings_bytes :: "Answer \<Rightarrow> bool" where
  "brings_bytes a \<longleftrightarrow> (case a of ReadDone ec data \<Rightarrow> data \<noteq> [] \<or> failed ec | _ \<Rightarrow> True)"

text \<open>A callback uses up the budget of its operation, and two more for each byte that came in.\<close>

lemma adds_received: "adds n act \<Longrightarrow> adds n (\<lambda>t. seq [receive (f t) data, act] t)"
  by (rule addsI) (auto simp: receive_def record_event_def budget_def split: option.splits dest!: addsD)

lemma read_adds:
  assumes "failed ec \<Longrightarrow> adds 0 act" "adds m act" "m \<le> Suc k" "0 < k" "brings_bytes (ReadDone ec data)"
  shows "\<exists>n. adds n (\<lambda>t. seq [receive (f t) data, act] t) \<and> n < k + 2 * answer_bytes (ReadDone ec data)"
proof (cases "failed ec")
  case True
  with assms adds_received show ?thesis by (intro exI [of _ 0]) simp
next
  case False
  with assms(5) have "0 < length data" by (simp add: brings_bytes_def)
  with assms(3) have "m < k + 2 * answer_bytes (ReadDone ec data)" unfolding answer_bytes_def Answer.case by linarith
  with adds_received [OF assms(2)] show ?thesis by blast
qed

lemma read_callback_adds:
  assumes "resume Q p (ReadDone ec data) = Some act" "brings_bytes (ReadDone ec data)"
  shows "\<exists>n. adds n act \<and> n < op_budget p + 2 * answer_bytes (ReadDone ec data)"
proof -
  from assms(1) consider
      "p = ReadRequest" "act = (\<lambda>t. seq [receive (client t) data, on_request_bytes Q ec data] t)"
    | "p = ReadResponse" "act = (\<lambda>t. seq [receive (remote t) data, on_response_bytes Q ec data] t)"
    | "p = TunnelReadClient" "act = (\<lambda>t. seq [receive (client t) data, on_tunnel_client_bytes ec data] t)"
    | "p = TunnelReadRemote" "act = (\<lambda>t. seq [receive (remote t) data, on_tunnel_remote_bytes ec data] t)"
    by (cases p) (auto simp del: seq.simps)
  then show ?thesis
  proof cases
    case 1
    show ?thesis unfolding 1
      by (rule read_adds [OF adds_request_bytes]) (simp_all add: assms(2))
  next
    case 2
    show ?thesis unfolding 2
      by (rule read_adds [OF adds_response_bytes]) (simp_all add: assms(2))
  next
    case 3
    show ?thesis unfolding 3
      by (rule read_adds [OF adds_tunnel_bytes(5,2)]) (simp_all add: assms(2))
  next
    case 4
    show ?thesis unfolding 4
      by (rule read_adds [OF adds_tunnel_bytes(6,4)]) (simp_all add: assms(2))
  qed
qed

lemma adds_below: "adds n act \<Longrightarrow> n < k \<Longrightarrow> \<exists>n. adds n act \<and> n < k"
  by blast

lemma callback_adds:
  assumes "resume Q p a = Some act" "brings_bytes a"
  shows "\<exists>n. adds n act \<and> n < op_budget p + 2 * answer_bytes a"
proof (cases a)
  case (ReadDone ec data)
  with assms read_callback_adds show ?thesis by simp
next
  case (WriteDone ec n)
  with assms(1) show ?thesis
    by (cases p) (auto simp: answer_bytes_def intro: adds_sent(2) adds_below [OF adds_sent(1)] adds_below [OF adds_sent(3)] adds_below [OF adds_sent(4)] adds_below [OF adds_sent(5)])
next
  case (OpenDone rec cec d)
  obtain conn ec where "try_open rec cec d = (conn, ec)" by (cases "try_open rec cec d")
  with assms(1) OpenDone show ?thesis
    by (cases p) (auto simp: answer_bytes_def intro!: exI [of _ 3] adds_opened)
qed

lemma answer_budget:
  assumes "answer_nth Q x t = Some (Inr t')" "brings_bytes (snd x)"
  shows "budget t' + 1 \<le> budget t + 2 * answer_bytes (snd x)"
proof -
  obtain k a where x: "x = (k, a)" by (cases x)
  from assms(1) x obtain act where k: "k < length (pending t)" and act: "resume Q (pending t ! k) a = Some act"
    "act (t\<lparr>pending := take k (pending t) @ drop (Suc k) (pending t)\<rparr>) = Inr t'"
    by (auto simp: answer_nth_def split: if_splits)
  from callback_adds [OF act(1)] assms(2) x obtain n where n: "adds n act" "n < op_budget (pending t ! k) + 2 * answer_bytes a"
    by auto
  have "budget t = budget (t\<lparr>pending := take k (pending t) @ drop (Suc k) (pending t)\<rparr>) + op_budget (pending t ! k)"
    using arg_cong [OF id_take_nth_drop [OF k], of "\<lambda>ps. sum_list (map op_budget ps)"] by (simp add: budget_def)
  with addsD [OF n(1) act(2)] n(2) x show ?thesis by simp
qed

lemma run_budget:
  "run Q xs (Inr t) = Some r \<Longrightarrow> list_all (\<lambda>x. brings_bytes (snd x)) xs \<Longrightarrow>
   length xs \<le> budget t + 2 * sum_list (map (\<lambda>x. answer_bytes (snd x)) xs) + (case r of Inl e \<Rightarrow> 1 | Inr t' \<Rightarrow> 0)"
proof (induction xs arbitrary: t)
  case (Cons x xs)
  from Cons.prems(1) obtain r' where r': "answer_nth Q x t = Some r'" "run Q xs r' = Some r" by (auto split: option.splits)
  show ?case
  proof (cases r')
    case (Inl e)
    with r'(2) show ?thesis by (cases xs) auto
  next
    case (Inr u)
    with answer_budget [of Q x t u] r' Cons.prems(2) Cons.IH [of u] show ?thesis by simp
  qed
qed (simp split: sum.splits)

section \<open>Properties\<close>

text \<open>C10: a transaction ends unless its peers keep talking. Whatever the answers are, after receiving \<open>n\<close> bytes in all it has run
  at most \<open>2 * n + 5\<close> callbacks, one more if the last of them ended the process; a read brings at least one byte or an error, and
  nothing else is assumed of the network.\<close>

theorem callbacks_bounded:
  assumes "run Q xs (Transaction_begin (Transaction_new (Some c))) = Some r" and "list_all (\<lambda>x. brings_bytes (snd x)) xs"
  shows "length xs \<le> 2 * sum_list (map (\<lambda>x. answer_bytes (snd x)) xs) + 5 + (case r of Inl e \<Rightarrow> 1 | Inr t \<Rightarrow> 0)"
proof -
  let ?t = "(Transaction_new (Some c))\<lparr>pending := [ReadRequest], trace := [Emit on_transaction_start]\<rparr>"
  have "Transaction_begin (Transaction_new (Some c)) = Inr ?t"
    by (simp add: Transaction_begin_def action_simps read_client_eq Transaction_new_def)
  with run_budget [of Q xs ?t r] assms show ?thesis by (simp add: budget_def)
qed

lemma callbacks_bounded_witness:
  "\<exists>t. run ascii_qt full_run (started 0) = Some (Inr t) \<and>
     length full_run \<le> 2 * sum_list (map (\<lambda>x. answer_bytes (snd x)) full_run) + 5"
proof -
  from shown_Inr [OF full_run_shown] obtain t where t: "run ascii_qt full_run (started 0) = Some (Inr t)" by blast
  have "list_all (\<lambda>x. brings_bytes (snd x)) full_run" by code_simp
  from callbacks_bounded [OF t this] t show ?thesis by simp
qed

end
