(* ===== verification/Footprint.thy ===== *)
theory Footprint
  imports ReadLoop
begin

text \<open>
  What the parser of \<open>core/src/HttpMessageParser.cpp\<close> keeps of its input, the message of \<open>core/include/core/HttpMessage.h\<close> included:
  at most two bytes for each byte it has read, and beside them the room it reserves for a body, which is what the
  message announces. Room that a container allocates ahead when it grows is not counted.
\<close>

section \<open>The bytes a configuration holds\<close>

definition headers_footprint :: "Headers \<Rightarrow> nat" where
  "headers_footprint h = sum_list (map (\<lambda>(n, v). length n + length v) (hdr_values h))"

definition message_footprint :: "HttpMessage \<Rightarrow> nat" where
  "message_footprint m = length (msg_method m) + length (msg_uri m) + length (msg_status_message m) + length (msg_body m) +
     headers_footprint (msg_headers m)"

text \<open>A reason phrase counts twice while it is read: it stays in the buffer when the message gets it.\<close>

definition footprint :: "cfg \<Rightarrow> nat" where
  "footprint k = (if p_state (parser k) = response_status_message then 2 else 1) * length (p_buffer (parser k)) +
     length (p_value_buffer (parser k)) + message_footprint (message k)"

text \<open>The length that a message announces, and what a configuration satisfies between two bytes: the reason phrase read so
  far is ASCII, and the body with what is reserved for the rest of it has the length announced.\<close>

definition announced :: "qt \<Rightarrow> Headers \<Rightarrow> nat" where
  "announced Q h = (case find_by_name Q h (latin1 ''Content-Length'') of
       [] \<Rightarrow> 0
     | value # _ \<Rightarrow> (case toULongLong Q value of None \<Rightarrow> 0 | Some len \<Rightarrow> unat len))"

definition reserved :: "cfg \<Rightarrow> nat" where
  "reserved k = (if p_state (parser k) = fixed_length_entity then unat (p_remaining (parser k)) else 0)"

definition reason_ascii :: "cfg \<Rightarrow> bool" where
  "reason_ascii k \<longleftrightarrow> (p_state (parser k) = response_status_message \<longrightarrow> list_all ascii (p_buffer (parser k)))"

definition as_announced :: "qt \<Rightarrow> cfg \<Rightarrow> bool" where
  "as_announced Q k \<longleftrightarrow> (p_state (parser k) = fixed_length_entity \<longrightarrow>
     length (msg_body (message k)) + reserved k = announced Q (msg_headers (message k)) \<and>
     canReserve Q (announced Q (msg_headers (message k))))"

definition fits_int :: "int \<Rightarrow> bool" where
  "fits_int v \<longleftrightarrow> 0 \<le> v \<and> v < 2 ^ 31"

definition numbers_fit :: "HttpMessage \<Rightarrow> bool" where
  "numbers_fit m \<longleftrightarrow> fits_int (msg_major_version m) \<and> fits_int (msg_minor_version m) \<and> fits_int (msg_status_code m)"

lemma canonicalize_length: "length (canonicalize_from Q first s) = length s"
  by (induction Q first s rule: canonicalize_from.induct) simp_all

lemma headers_footprint_insert:
  "headers_footprint (insert Q n v h) = headers_footprint h + length n + length v"
  by (simp add: headers_footprint_def insert_def canonicalize_def canonicalize_length Let_def)

text \<open>One byte adds at most two.\<close>

definition grows :: "qt \<Rightarrow> cfg \<Rightarrow> State \<times> cfg \<Rightarrow> bool" where
  "grows Q k r \<longleftrightarrow> footprint (snd r) \<le> footprint k + 2 \<and> (numbers_fit (message k) \<longrightarrow> numbers_fit (message (snd r))) \<and>
     reason_ascii (snd r) \<and> as_announced Q (snd r)"

lemma parser_TRANSIT [simp]:
  "p_state (parser (TRANSIT x k)) = x" "p_remaining (parser (TRANSIT x k)) = p_remaining (parser k)"
  "p_buffer (parser (TRANSIT x k)) = p_buffer (parser k)" "p_value_buffer (parser (TRANSIT x k)) = p_value_buffer (parser k)"
  "message (TRANSIT x k) = message k"
  by (simp_all add: TRANSIT_def transition_to_state_def)

lemmas footprint_defs = footprint_def message_footprint_def
lemmas keeps_defs = reason_ascii_def as_announced_def reserved_def

text \<open>The state decides which of the facts about it are needed.\<close>

definition plain :: "ParserState \<Rightarrow> bool" where
  "plain s \<longleftrightarrow> s \<noteq> response_status_message \<and> s \<noteq> fixed_length_entity"

lemma plain_keeps: "plain (p_state (parser k)) \<Longrightarrow> reason_ascii k \<and> as_announced Q k"
  by (simp add: plain_def keeps_defs)

lemma grows_expect: "expect c x k i = Inr r \<Longrightarrow> plain x \<Longrightarrow> plain (p_state (parser k)) \<Longrightarrow> grows Q k r"
  by (auto simp: grows_def expect_def footprint_defs plain_def keeps_defs split: if_splits)

lemma digit_fits: "is_digit (char_int c) \<Longrightarrow> 0 \<le> digit c \<and> digit c < 2147483648"
  by (simp add: is_digit_def digit_def char_int_def)

lemma more_digits_fits:
  "more_digits v store k c = Inr r \<Longrightarrow> is_digit (char_int c) \<Longrightarrow> \<exists>v'. r = (Incomplete, store v' k) \<and> (0 \<le> v \<longrightarrow> 0 \<le> v' \<and> v' < 2147483648)"
  by (auto simp: more_digits_def int32_def is_digit_def digit_def char_int_def split: if_splits sum.splits)

lemmas growth = grows_def footprint_defs numbers_fit_def fits_int_def digit_fits keeps_defs plain_def

lemma grows_request_line: "consume_request_line s k c = Inr r \<Longrightarrow> s = p_state (parser k) \<Longrightarrow> group_of s = RequestLineGroup \<Longrightarrow> grows Q k r"
  by (cases s) (auto simp: growth dest!: grows_expect [of _ _ _ _ _ Q] more_digits_fits split: if_splits)

lemma char_ascii: "is_char (char_int c) \<or> c = SP \<Longrightarrow> ascii c"
  by (auto simp: is_char_ascii ascii_def)

lemma grows_status_line:
  assumes "qt_laws Q" "consume_status_line Q s k c = Inr r" "s = p_state (parser k)" "group_of s = StatusLineGroup" "reason_ascii k"
  shows "grows Q k r"
  using assms char_ascii [of c] qt_fromUtf8 [OF assms(1)]
  by (cases s) (auto simp: growth dest!: grows_expect [of _ _ _ _ _ Q] more_digits_fits split: if_splits)

lemma grows_header:
  "consume_header Q s k c = Inr r \<Longrightarrow> s = p_state (parser k) \<Longrightarrow> group_of s = HeaderGroup \<Longrightarrow> grows Q k r"
  by (cases s) (auto simp: growth headers_footprint_insert Let_def latin1_def dest!: grows_expect [of _ _ _ _ _ Q] split: if_splits)

lemma grows_blank_line:
  "consume_blank_line Q k c = Inr r \<Longrightarrow> p_state (parser k) = newline_3 \<Longrightarrow> grows Q k r"
  by (auto simp: consume_blank_line_def growth announced_def split: if_splits list.splits option.splits)

lemma unat_minus_1: "(w :: 64 word) \<noteq> 0 \<Longrightarrow> unat (w - 1) + 1 = unat w"
  using unat_gt_0 [of w] by (simp add: unat_minus_one)

lemma grows_entity:
  assumes "consume_entity s k c = Inr r" "s = p_state (parser k)" "group_of s = EntityGroup" "parser_inv k" "as_announced Q k"
  shows "grows Q k r"
  using assms unat_minus_1 [of "p_remaining (parser k)"]
  by (cases s) (auto simp: growth Let_def parser_inv_def dest!: grows_expect [of _ _ _ _ _ Q] split: if_splits option.splits)

lemma consume_grows:
  assumes "qt_laws Q" "consume Q k c = Inr r" "parser_inv k" "reason_ascii k" "as_announced Q k"
  shows "grows Q k r"
proof (cases "group_of (p_state (parser k))")
  case BlankLineGroup
  then have "p_state (parser k) = newline_3" by (cases "p_state (parser k)") simp_all
  with BlankLineGroup assms(2) grows_blank_line show ?thesis by (simp add: consume_def)
qed (use assms grows_request_line grows_status_line grows_header grows_entity in \<open>auto simp: consume_def\<close>)

text \<open>What a configuration keeps to, in both directions of a call.\<close>

definition keeps :: "qt \<Rightarrow> cfg \<Rightarrow> bool" where
  "keeps Q k \<longleftrightarrow> parser_inv k \<and> reason_ascii k \<and> as_announced Q k"

definition grown :: "qt \<Rightarrow> cfg \<Rightarrow> bytes \<Rightarrow> cfg \<Rightarrow> bytes \<Rightarrow> bool" where
  "grown Q k input k' rest \<longleftrightarrow> footprint k' + 2 * length rest \<le> footprint k + 2 * length input \<and> as_announced Q k' \<and>
     (numbers_fit (message k) \<longrightarrow> numbers_fit (message k'))"

lemma parse_loop_grows:
  "qt_laws Q \<Longrightarrow> keeps Q k \<Longrightarrow> parse_loop Q ph k input = Inr (st, k', rest) \<Longrightarrow>
   grown Q k input k' rest \<and> (st = Incomplete \<longrightarrow> keeps Q k')"
proof (induction Q ph k input rule: parse_loop.induct)
  case (2 Q ph k c cs)
  from "2.prems" obtain s k1 where one: "consume Q k c = Inr (s, k1)" by (auto split: sum.splits)
  from consume_grows [OF "2.prems"(1) one] "2.prems"(2) have grow: "footprint k1 \<le> footprint k + 2"
    "numbers_fit (message k) \<longrightarrow> numbers_fit (message k1)" "reason_ascii k1" "as_announced Q k1"
    by (simp_all add: grows_def keeps_def)
  have inv: "s = Incomplete \<Longrightarrow> keeps Q k1"
    using consume_inv [of Q k c k1] one "2.prems"(2) grow by (simp add: keeps_def)
  have same: "footprint (k1\<lparr>phase := x\<rparr>) = footprint k1" "keeps Q (k1\<lparr>phase := x\<rparr>) = keeps Q k1"
    "as_announced Q (k1\<lparr>phase := x\<rparr>) = as_announced Q k1" for x
    by (simp_all add: footprint_def keeps_def keeps_defs parser_inv_def)
  show ?case
  proof (cases "s \<noteq> Incomplete \<or> phase k1 \<noteq> None \<and> phase k1 \<noteq> Some ph")
    case True
    with "2.prems"(3) one grow same inv show ?thesis by (auto simp: grown_def split: if_splits)
  next
    case False
    then have "parse_loop Q ph k1 cs = Inr (st, k', rest)" using "2.prems"(3) one by (simp split: if_splits)
    from "2.IH" [OF one refl _ _ "2.prems"(1) _ this] False inv grow show ?thesis by (auto simp: grown_def)
  qed
qed (auto simp: grown_def keeps_def)

section \<open>Properties\<close>



end
