(* ===== verification/ObjectPool.thy ===== *)
theory ObjectPool
  imports Prelude
begin

text \<open>
  \<open>core/include/core/ObjectPool.h\<close>: a pool of objects that are lent out as shared pointers whose deleter
  gives them back. An object is a number, the next one to allocate is \<open>fresh\<close>; the stack is a list with
  its top first. The counters are the two atomics of type \<open>size_t\<close>, and wrap.
\<close>

section \<open>The pool\<close>

type_synonym obj = nat

record ObjectPool =
  min_pool_size :: nat
  max_pool_size :: nat
  pool :: "obj list"
  num_borrowed :: "64 word"
  num_idle :: "64 word"
  fresh :: obj

text \<open>The constructor pushes \<open>min\<close> new objects. It does not touch the counters.\<close>

definition ObjectPool_new :: "nat \<Rightarrow> nat \<Rightarrow> ObjectPool" where
  "ObjectPool_new min_size max_size = \<lparr>min_pool_size = min_size, max_pool_size = max_size,
     pool = rev [0..<min_size], num_borrowed = 0, num_idle = 0, fresh = min_size\<rparr>"

definition release :: "obj \<Rightarrow> ObjectPool \<Rightarrow> ObjectPool" where
  "release object p =
     (let p = p\<lparr>num_borrowed := num_borrowed p - 1\<rparr>
      in if length (pool p) < max_pool_size p
         then p\<lparr>pool := object # pool p, num_idle := num_idle p + 1\<rparr> else p)"

text \<open>
  \<open>acquire\<close> allocates an object when the pool is empty, and the control block of the shared pointer always; either may fail
  with an exception. A shared pointer that cannot be made hands its object to the deleter at once: outside the lock, that is a
  return; inside, the deleter waits for the lock its own thread holds.
\<close>

datatype Acquired = Lent obj | NoMemory | Deadlock

definition acquire :: "bool \<Rightarrow> bool \<Rightarrow> ObjectPool \<Rightarrow> Acquired \<times> ObjectPool" where
  "acquire object_made control_made p =
     (let p = p\<lparr>num_borrowed := num_borrowed p + 1\<rparr>
      in case pool p of
           result # rest \<Rightarrow>
             if \<not> control_made then (Deadlock, p)
             else (Lent result, p\<lparr>num_idle := num_idle p - 1, pool := rest\<rparr>)
         | [] \<Rightarrow>
             if \<not> object_made then (NoMemory, p)
             else
               let pointer = fresh p; p = p\<lparr>fresh := Suc (fresh p)\<rparr>
               in if \<not> control_made then (NoMemory, release pointer p) else (Lent pointer, p))"

text \<open>
  The deleter of a shared pointer: back to the pool while it lives, otherwise the object is deleted.
\<close>

definition Deleter :: "obj \<Rightarrow> ObjectPool option \<Rightarrow> ObjectPool option" where
  "Deleter pointer = map_option (release pointer)"

text \<open>The text of a pool, under its lock.\<close>

definition pool_text :: "ObjectPool \<Rightarrow> bytes" where
  "pool_text p = ''ObjectPool{min='' @ dec_nat (min_pool_size p) @ '' max='' @ dec_nat (max_pool_size p)
     @ '' idle='' @ dec_nat (unat (num_idle p)) @ '' borrowed='' @ dec_nat (unat (num_borrowed p)) @ ''}''"

section \<open>Clients\<close>

text \<open>A pool with the objects that are out, as the clients use it, and how many allocations of an object have failed. A deadlock
  ends the use of the pool.\<close>

inductive lent :: "nat \<Rightarrow> nat \<Rightarrow> ObjectPool \<Rightarrow> obj list \<Rightarrow> nat \<Rightarrow> bool" for mn mx where
  new: "lent mn mx (ObjectPool_new mn mx) [] 0"
| borrow: "lent mn mx p out failed \<Longrightarrow> acquire object_made control_made p = (Lent x, p') \<Longrightarrow> lent mn mx p' (x # out) failed"
| no_object: "lent mn mx p out failed \<Longrightarrow> acquire False control_made p = (NoMemory, p') \<Longrightarrow> lent mn mx p' out (Suc failed)"
| no_control: "lent mn mx p out failed \<Longrightarrow> acquire True False p = (NoMemory, p') \<Longrightarrow> lent mn mx p' out failed"
| return: "lent mn mx p out failed \<Longrightarrow> x \<in> set out \<Longrightarrow> lent mn mx (release x p) (remove1 x out) failed"

definition pool_inv :: "nat \<Rightarrow> nat \<Rightarrow> ObjectPool \<Rightarrow> obj list \<Rightarrow> nat \<Rightarrow> bool" where
  "pool_inv mn mx p out failed \<longleftrightarrow> min_pool_size p = mn \<and> max_pool_size p = mx \<and>
     distinct (pool p @ out) \<and> (\<forall>x \<in> set (pool p @ out). x < fresh p) \<and> length (pool p) \<le> max mn mx \<and>
     num_borrowed p = of_nat (length out + failed) \<and> num_idle p + of_nat mn = of_nat (length (pool p))"

lemma inv_new: "pool_inv mn mx (ObjectPool_new mn mx) [] 0"
  by (simp add: pool_inv_def ObjectPool_new_def)

lemma inv_acquire:
  assumes "pool_inv mn mx p out failed"
  shows "acquire object_made control_made p = (Lent x, p') \<Longrightarrow> pool_inv mn mx p' (x # out) failed"
    and "acquire False control_made p = (NoMemory, p') \<Longrightarrow> pool_inv mn mx p' out (Suc failed)"
    and "acquire True False p = (NoMemory, p') \<Longrightarrow> pool_inv mn mx p' out failed"
  using assms
  by (cases "pool p"; auto simp: pool_inv_def acquire_def release_def Let_def less_Suc_eq algebra_simps split: if_splits)+

lemma inv_release:
  assumes inv: "pool_inv mn mx p out failed" and x: "x \<in> set out"
  shows "pool_inv mn mx (release x p) (remove1 x out) failed"
proof -
  from x have len: "length (remove1 x out) = length out - 1" "0 < length out"
    by (auto simp: length_remove1)
  have cnt: "(of_nat (length (remove1 x out)) :: 64 word) = of_nat (length out) - 1"
    unfolding len(1) using len(2) by (cases "length out") simp_all
  have "distinct out" using inv by (simp add: pool_inv_def)
  then have out: "set (remove1 x out) = set out - {x}" "distinct (remove1 x out)"
    by (simp_all add: set_remove1_eq)
  show ?thesis
    using inv x cnt out by (auto simp: pool_inv_def release_def Let_def algebra_simps)
qed

lemma lent_inv: "lent mn mx p out failed \<Longrightarrow> pool_inv mn mx p out failed"
  by (induction rule: lent.induct) (auto intro: inv_new inv_acquire inv_release)

section \<open>Properties\<close>

text \<open>C35: an object is lent to one client at a time: the objects that are out and those in the pool are all different, whatever the
  clients borrow and return and whichever allocations fail. The pool keeps to its maximum, as long as that is no smaller than
  the minimum it starts with. The count of borrowed objects is the number of those that are out, plus one for
  each object that could not be made.\<close>

theorem lent_exclusively:
  assumes "lent mn mx p out failed"
  shows "distinct (pool p @ out) \<and> (mn \<le> mx \<longrightarrow> length (pool p) \<le> mx) \<and> num_borrowed p = of_nat (length out + failed)"
  using lent_inv [OF assms] by (auto simp: pool_inv_def)

lemma lent_exclusively_witness:
  "\<exists>p. acquire True True (ObjectPool_new 1 2) = (Lent 0, p) \<and> distinct (pool p @ [0]) \<and>
     (1 \<le> (2 :: nat) \<longrightarrow> length (pool p) \<le> 2) \<and> num_borrowed p = of_nat (length [0 :: nat] + 0)"
proof -
  have "acquire True True (ObjectPool_new 1 2) = (Lent 0, snd (acquire True True (ObjectPool_new 1 2)))"
    by (simp add: acquire_def ObjectPool_new_def)
  then show ?thesis using lent_exclusively [OF lent.borrow [OF lent.new]] by blast
qed

text \<open>With a minimum above the maximum the constructor fills the pool beyond its maximum.\<close>

lemma new_pool_exceeds: "mx < mn \<Longrightarrow> mx < length (pool (ObjectPool_new mn mx))"
  by (simp add: ObjectPool_new_def)

text \<open>An object that could not be made stays counted as borrowed; a control block that cannot be made for an object of the pool
  stops the thread for good.\<close>

lemma failed_borrow:
  "pool p = [] \<Longrightarrow> acquire False control_made p = (NoMemory, p\<lparr>num_borrowed := num_borrowed p + 1\<rparr>)"
  "pool p \<noteq> [] \<Longrightarrow> fst (acquire object_made False p) = Deadlock"
  by (simp_all add: acquire_def Let_def split: list.splits)

text \<open>\<open>num_idle\<close> counts the pooled objects only when the minimum is 0: it is short by the minimum, and
  wraps below zero.\<close>

theorem idle_count_short:
  assumes "lent mn mx p out failed"
  shows "num_idle p = of_nat (length (pool p)) - of_nat mn"
  using lent_inv [OF assms] by (simp add: pool_inv_def algebra_simps)

lemma idle_count_short_witness:
  "num_idle (snd (acquire True True (ObjectPool_new 1 5))) =
     of_nat (length (pool (snd (acquire True True (ObjectPool_new 1 5))))) - of_nat 1 \<and>
   num_idle (snd (acquire True True (ObjectPool_new 1 5))) = 0xFFFFFFFFFFFFFFFF"
proof
  have a: "acquire True True (ObjectPool_new 1 5) = (Lent 0, snd (acquire True True (ObjectPool_new 1 5)))"
    by (simp add: acquire_def ObjectPool_new_def)
  show "num_idle (snd (acquire True True (ObjectPool_new 1 5))) =
      of_nat (length (pool (snd (acquire True True (ObjectPool_new 1 5))))) - of_nat 1"
    by (rule idle_count_short [OF lent.borrow [OF lent.new a]])
  show "num_idle (snd (acquire True True (ObjectPool_new 1 5))) = 0xFFFFFFFFFFFFFFFF"
    by (simp add: acquire_def ObjectPool_new_def)
qed

end
