(* ===== verification/Server.thy ===== *)
theory Server
  imports Transaction
begin

text \<open>
  \<open>core/src/Server.cpp\<close> and \<open>core/src/Proxy.cpp\<close>: the accept loop, the worker threads, and the proxy that
  gives every accepted connection a transaction with a number of its own.
\<close>

section \<open>Server\<close>

text \<open>\<open>accepting\<close> is a pending \<open>async_accept\<close>; \<open>established\<close> is what \<open>connection_established\<close> announced.\<close>

record Server =
  acceptor_open :: bool
  accepting :: bool
  workers :: int
  established :: "conn list"

definition worker_count :: "int \<Rightarrow> int" where
  "worker_count hardware_concurrency =
     (let numSupportedThreads = (if hardware_concurrency = 0 then 4 else hardware_concurrency)
      in max (numSupportedThreads - 1) 4)"

definition do_accept :: "Server \<Rightarrow> Server" where
  "do_accept s = s\<lparr>accepting := True\<rparr>"

definition Server_new :: "int \<Rightarrow> Server" where
  "Server_new hardware_concurrency =
     (do_accept \<lparr>acceptor_open = True, accepting = False, workers = 0, established = []\<rparr>)
        \<lparr>workers := worker_count hardware_concurrency\<rparr>"

definition make_connection :: "conn \<Rightarrow> Server \<Rightarrow> Server" where
  "make_connection socket s = s\<lparr>established := established s @ [socket]\<rparr>"

definition on_accept :: "error_code \<Rightarrow> conn \<Rightarrow> Server \<Rightarrow> Server" where
  "on_accept ec socket s =
     (if \<not> acceptor_open s then s
      else if \<not> failed ec then do_accept (make_connection socket s)
      else s)"

definition on_termination_signal :: "Server \<Rightarrow> Server" where
  "on_termination_signal s = s\<lparr>acceptor_open := False\<rparr>"

definition Server_destroy :: "Server \<Rightarrow> Server" where
  "Server_destroy s = s\<lparr>acceptor_open := False, workers := 0\<rparr>"

text \<open>What the server's context delivers: an answer to the pending accept, or a signal.\<close>

datatype ServerEvent = Accepted error_code conn | Terminated

fun server_event :: "ServerEvent \<Rightarrow> Server \<Rightarrow> Server" where
  "server_event (Accepted ec socket) s =
     (if accepting s then on_accept ec socket (s\<lparr>accepting := False\<rparr>) else s)"
| "server_event Terminated s = on_termination_signal s"

lemma server_idle: "\<not> accepting s \<Longrightarrow> established (fold server_event es s) = established s"
proof (induction es arbitrary: s)
  case (Cons e es)
  then have "\<not> accepting (server_event e s)" "established (server_event e s) = established s"
    by (cases e; simp add: on_termination_signal_def)+
  with Cons.IH show ?case by simp
qed simp

section \<open>Proxy\<close>

text \<open>\<open>next_id_\<close> is an \<open>atomic_int\<close>, which wraps; the transactions started so far are kept with their ids.\<close>

record Proxy =
  next_id :: "32 word"
  started :: "(int \<times> Transaction outcome) list"

definition Proxy_new :: Proxy where
  "Proxy_new = \<lparr>next_id = 1, started = []\<rparr>"

definition on_client_connected :: "conn \<Rightarrow> Proxy \<Rightarrow> Proxy" where
  "on_client_connected conn p = p\<lparr>next_id := next_id p + 1,
     started := started p @ [(sint (next_id p), Transaction_begin (Transaction_new (Some conn)))]\<rparr>"

lemma started_ids:
  "next_id p = of_nat n \<Longrightarrow> map fst (started (fold on_client_connected cs p)) =
     map fst (started p) @ map (\<lambda>i. sint (of_nat i :: 32 word)) [n..<n + length cs]"
proof (induction cs arbitrary: p n)
  case (Cons c cs)
  then have "next_id (on_client_connected c p) = of_nat (Suc n)"
    by (simp add: on_client_connected_def add.commute)
  moreover have "[n..<n + length (c # cs)] = n # [Suc n..<Suc n + length cs]"
    by (subst upt_conv_Cons) simp_all
  moreover have "map fst (started (on_client_connected c p)) = map fst (started p) @ [sint (of_nat n :: 32 word)]"
    using Cons.prems by (simp add: on_client_connected_def)
  ultimately show ?case
    using Cons.IH [of "on_client_connected c p" "Suc n"] by (simp del: upt_Suc)
qed simp

lemma sint_small: "i < 2 ^ 31 \<Longrightarrow> sint (of_nat i :: 32 word) = int i"
  by (simp add: sint_uint uint_nat unat_of_nat signed_take_bit_int_eq_self take_bit_nat_eq_self)

section \<open>Properties\<close>

text \<open>One failed accept ends the service: whatever happens afterwards, no connection is established any
  more, although the acceptor is still open.\<close>

theorem accept_error_stops:
  assumes "failed ec" and "accepting s" and "acceptor_open s"
  shows "established (fold server_event (Accepted ec c # es) s) = established s \<and>
    acceptor_open (server_event (Accepted ec c) s)"
proof -
  have "\<not> accepting (server_event (Accepted ec c) s)" "established (server_event (Accepted ec c) s) = established s"
    "acceptor_open (server_event (Accepted ec c) s)"
    using assms by (simp_all add: on_accept_def)
  then show ?thesis by (simp add: server_idle)
qed

lemma accept_error_stops_witness:
  "established (fold server_event [Accepted asio_eof 1, Accepted no_error 2, Accepted no_error 3] (Server_new 8)) = [] \<and>
    acceptor_open (server_event (Accepted asio_eof 1) (Server_new 8))"
  using accept_error_stops [of asio_eof "Server_new 8" 1 "[Accepted no_error 2, Accepted no_error 3]"]
  by (simp add: Server_new_def do_accept_def)

text \<open>While no accept fails, every accepted connection is announced, in order, and each gets a
  transaction that has begun with its own id, counted from 1.\<close>

theorem every_client_served:
  assumes "length cs < 2 ^ 31 - 1"
  shows "established (fold server_event (map (Accepted no_error) cs) (Server_new n)) = cs \<and>
    started (fold on_client_connected cs Proxy_new) =
      zip (map int [1..<Suc (length cs)]) (map (\<lambda>c. Transaction_begin (Transaction_new (Some c))) cs)"
proof
  have "accepting s \<Longrightarrow> acceptor_open s \<Longrightarrow>
      established (fold server_event (map (Accepted no_error) cs) s) = established s @ cs" for s
    by (induction cs arbitrary: s) (simp_all add: on_accept_def make_connection_def do_accept_def)
  from this [of "Server_new n"] show "established (fold server_event (map (Accepted no_error) cs) (Server_new n)) = cs"
    by (simp add: Server_new_def do_accept_def)
  have "map snd (started (fold on_client_connected cs p)) =
      map snd (started p) @ map (\<lambda>c. Transaction_begin (Transaction_new (Some c))) cs" for p
    by (induction cs arbitrary: p) (simp_all add: on_client_connected_def)
  moreover have "map fst (started (fold on_client_connected cs Proxy_new)) = map int [1..<Suc (length cs)]"
    using started_ids [of Proxy_new 1 cs] assms
    by (auto simp: Proxy_new_def sint_small simp del: upt_Suc intro!: map_cong)
  ultimately show "started (fold on_client_connected cs Proxy_new) =
      zip (map int [1..<Suc (length cs)]) (map (\<lambda>c. Transaction_begin (Transaction_new (Some c))) cs)"
    by (metis append_Nil list.map_disc_iff Proxy_new_def Proxy.select_convs(2) zip_map_fst_snd)
qed

lemma every_client_served_witness:
  "established (fold server_event (map (Accepted no_error) [4, 2]) (Server_new 0)) = [4, 2] \<and>
    started (fold on_client_connected [4, 2] Proxy_new) =
      zip (map int [1..<Suc (length [4, 2 :: nat])]) (map (\<lambda>c. Transaction_begin (Transaction_new (Some c))) [4, 2])"
  by (rule every_client_served) simp

end
