(* ===== verification/TransactionModel.thy ===== *)
theory TransactionModel
  imports Transaction
begin

text \<open>
  \<open>app/TransactionModel.cpp\<close>: the table of transactions the main window shows. The rows are the ids of the
  transactions in the order they were started; the transactions themselves are shared with the core and
  reached through \<open>tx_of\<close>.
\<close>

section \<open>Rows and cells\<close>

record TransactionModel =
  transactions :: "int list"
  tlsTransactionIds :: "int list"
  listening :: "int list"
  emitted :: "ModelSignal list"

definition TransactionModel_new :: TransactionModel where
  "TransactionModel_new = \<lparr>transactions = [], tlsTransactionIds = [], listening = [], emitted = []\<rparr>"

datatype QVariant = NoValue | IntValue int | StringValue qstring

datatype Orientation = Horizontal | Vertical

text \<open>A model index is valid or not, and has a row and a column.\<close>

record QModelIndex =
  isValid :: bool
  row :: nat
  column :: int

definition rowCount :: "QModelIndex \<Rightarrow> TransactionModel \<Rightarrow> nat" where
  "rowCount parent m = (if isValid parent then 0 else length (transactions m))"

definition columnCount :: "QModelIndex \<Rightarrow> int" where
  "columnCount parent = (if isValid parent then 0 else 3)"

definition headerData :: "int \<Rightarrow> Orientation \<Rightarrow> bool \<Rightarrow> QVariant" where
  "headerData section orientation display_role =
     (if orientation = Vertical then (if display_role then IntValue (section + 1) else NoValue)
      else if display_role then
        (if section = 0 then StringValue (latin1 ''Method'')
         else if section = 1 then StringValue (latin1 ''Status'')
         else if section = 2 then StringValue (latin1 ''Url'')
         else NoValue)
      else NoValue)"

definition cell_data :: "(int \<Rightarrow> Transaction) \<Rightarrow> QModelIndex \<Rightarrow> bool \<Rightarrow> TransactionModel \<Rightarrow> QVariant" where
  "cell_data tx_of index display_role m =
     (if \<not> isValid index then NoValue
      else if \<not> display_role then NoValue
      else let tx = tx_of (transactions m ! row index)
        in if column index = 0 then StringValue (msg_method (request tx))
           else if column index = 1 then
             StringValue (latin1 (dec_int (msg_status_code (response tx))) @ latin1 '' '' @ msg_status_message (response tx))
           else if column index = 2 then StringValue (msg_uri (request tx))
           else NoValue)"

text \<open>The names of the roles, over those of the base class, and the flags of every cell. \<open>Qt::UserRole\<close> is 256.\<close>

datatype TransactionRole = UrlRole | StateRole | StatusCodeRole

fun role_number :: "TransactionRole \<Rightarrow> int" where
  "role_number UrlRole = 256"
| "role_number StateRole = 257"
| "role_number StatusCodeRole = 258"

definition roleNames :: "(int \<rightharpoonup> bytes) \<Rightarrow> (int \<rightharpoonup> bytes)" where
  "roleNames base = base(role_number UrlRole \<mapsto> ''url'', role_number StateRole \<mapsto> ''state'',
     role_number StatusCodeRole \<mapsto> ''statusCode'')"

datatype ItemFlag = ItemIsSelectable | ItemIsEditable | ItemIsEnabled

definition flags :: "QModelIndex \<Rightarrow> ItemFlag set" where
  "flags index = {ItemIsEnabled, ItemIsSelectable}"

section \<open>Updates\<close>

text \<open>The signals connected to \<open>transactionUpdated\<close>, in the order of the \<open>connect\<close> calls.\<close>

definition connected_signals :: "Signal list" where
  "connected_signals = [on_response_headers_read, on_request_read, on_response_headers_read, on_response_read,
     on_transaction_failed, on_transaction_complete]"

text \<open>\<open>emitted\<close> has the signals of the model for its views; rows are announced by \<open>endInsertRows\<close>.\<close>

definition transactionStarted :: "int \<Rightarrow> TransactionModel \<Rightarrow> TransactionModel" where
  "transactionStarted tx m =
     (let first = length (transactions m); last = length (transactions m)
      in m\<lparr>transactions := transactions m @ [tx], listening := tx # listening m,
           emitted := emitted m @ [RowsInserted first last]\<rparr>)"

text \<open>\<open>std::lower_bound\<close>, a binary search over the rows from \<open>first\<close>.\<close>

function lower_bound :: "int list \<Rightarrow> int \<Rightarrow> nat \<Rightarrow> nat \<Rightarrow> nat" where
  "lower_bound xs v first len =
     (if len = 0 then first
      else let half = len div 2; middle = first + half
        in if xs ! middle < v then lower_bound xs v (Suc middle) (len - half - 1)
           else lower_bound xs v first half)"
  by pat_completeness auto
termination
  by (relation "measure (\<lambda>(xs, v, first, len). len)") auto

declare lower_bound.simps [simp del]

lemma lower_bound_0 [simp]: "lower_bound xs v first 0 = first"
  by (simp add: lower_bound.simps)

text \<open>The slot: \<open>st\<close> is the state of the transaction when the slot runs.\<close>

definition transactionUpdated :: "int \<Rightarrow> NotificationState \<Rightarrow> TransactionModel \<Rightarrow> TransactionModel" where
  "transactionUpdated tx st m =
     (let m = (if st = TLSTunnel then m\<lparr>tlsTransactionIds := tx # tlsTransactionIds m\<rparr> else m);
          it = lower_bound (transactions m) tx 0 (length (transactions m))
      in if it = length (transactions m) then m
         else if transactions m ! it \<noteq> tx then m
         else let modelIndex = (it, 0);
                  m = m\<lparr>emitted := emitted m @ [DataChanged modelIndex modelIndex, LayoutChanged [modelIndex]]\<rparr>
           in if st = NsError \<or> st = ResponseComplete
              then m\<lparr>listening := removeAll tx (listening m)\<rparr> else m)"

lemma lower_bound_spec:
  "sorted xs \<Longrightarrow> first + len \<le> length xs \<Longrightarrow> \<forall>i < first. xs ! i < v \<Longrightarrow>
   \<forall>i. first + len \<le> i \<and> i < length xs \<longrightarrow> v \<le> xs ! i \<Longrightarrow>
   (let r = lower_bound xs v first len in r \<le> length xs \<and> (\<forall>i < r. xs ! i < v) \<and>
      (\<forall>i. r \<le> i \<and> i < length xs \<longrightarrow> v \<le> xs ! i))"
proof (induction xs v first len rule: lower_bound.induct)
  case (1 xs v first len)
  show ?case
  proof (cases "len = 0")
    case True
    with "1.prems" show ?thesis by (simp add: Let_def)
  next
    case False
    let ?half = "len div 2" and ?mid = "first + len div 2"
    have mid: "?mid < length xs" "?mid < first + len" using False "1.prems"(2) by linarith+
    show ?thesis
    proof (cases "xs ! ?mid < v")
      case True
      have "\<forall>i < Suc ?mid. xs ! i < v"
        using True sorted_nth_mono [OF "1.prems"(1)] mid by (metis le_less_trans less_Suc_eq_le)
      moreover have "Suc ?mid + (len - ?half - 1) = first + len" using False by linarith
      ultimately show ?thesis
        using "1.IH"(1) [OF False refl refl True] "1.prems" True False
        by (simp add: lower_bound.simps [of xs v first len] Let_def)
    next
      case no: False
      have "\<forall>i. first + ?half \<le> i \<and> i < length xs \<longrightarrow> v \<le> xs ! i"
        using no sorted_nth_mono [OF "1.prems"(1)] by (meson leI order_trans)
      moreover have "first + ?half \<le> length xs" using mid by simp
      ultimately show ?thesis
        using "1.IH"(2) [OF False refl refl no] "1.prems" no False
        by (simp add: lower_bound.simps [of xs v first len] Let_def)
    qed
  qed
qed

text \<open>In a strictly sorted list the search finds the position of the id, if there is one.\<close>

lemma lower_bound_found:
  assumes "sorted_wrt (<) xs"
  shows "i < length xs \<Longrightarrow> xs ! i = v \<Longrightarrow> lower_bound xs v 0 (length xs) = i"
    and "v \<notin> set xs \<Longrightarrow> lower_bound xs v 0 (length xs) = length xs \<or> xs ! lower_bound xs v 0 (length xs) \<noteq> v"
proof -
  let ?r = "lower_bound xs v 0 (length xs)"
  have "sorted xs" using assms by (simp add: strict_sorted_iff)
  with lower_bound_spec [of xs 0 "length xs" v] have r: "?r \<le> length xs" "\<forall>i < ?r. xs ! i < v"
      "\<forall>i. ?r \<le> i \<and> i < length xs \<longrightarrow> v \<le> xs ! i"
    by (simp_all add: Let_def)
  show "?r = i" if i: "i < length xs" "xs ! i = v"
  proof (rule antisym)
    show "?r \<le> i"
    proof (rule leI)
      show "\<not> i < ?r" using r(2) i(2) by auto
    qed
    show "i \<le> ?r"
    proof (rule leI)
      show "\<not> ?r < i"
      proof
        assume less: "?r < i"
        with assms i have "xs ! ?r < v" by (auto simp: sorted_wrt_iff_nth_less)
        moreover from r(3) less i(1) have "v \<le> xs ! ?r" by simp
        ultimately show False by simp
      qed
    qed
  qed
  show "?r = length xs \<or> xs ! ?r \<noteq> v" if "v \<notin> set xs"
    using r(1) that by (metis le_neq_implies_less nth_mem)
qed

lemma positions_distinct:
  assumes "distinct xs" "i < length xs" "xs ! i = v"
  shows "filter (\<lambda>j. xs ! j = v) [0..<length xs] = [i]"
proof -
  have "filter (\<lambda>j. xs ! j = v) [0..<length xs] = filter (\<lambda>j. j = i) [0..<length xs]"
    using assms by (intro filter_cong) (auto simp: nth_eq_iff_index_eq)
  also have "\<dots> = [i]"
    using assms(2) by (induction xs rule: rev_induct) (auto simp: less_Suc_eq filter_empty_conv)
  finally show ?thesis .
qed

section \<open>Properties\<close>

text \<open>An update of a transaction names the first cell of its row and no other, as long as the ids in the table ascend, and
  none when the transaction is not in the table.\<close>

theorem update_refreshes_row:
  assumes "sorted_wrt (<) (transactions m)"
  shows "emitted (transactionUpdated tx st m) = emitted m @ concat (map (\<lambda>i. [DataChanged (i, 0) (i, 0), LayoutChanged [(i, 0)]])
      (filter (\<lambda>i. transactions m ! i = tx) [0..<length (transactions m)])) \<and>
    transactions (transactionUpdated tx st m) = transactions m"
proof (cases "tx \<in> set (transactions m)")
  case True
  then obtain i where i: "i < length (transactions m)" "transactions m ! i = tx" by (auto simp: in_set_conv_nth)
  have "distinct (transactions m)" using assms by (simp add: strict_sorted_iff)
  with lower_bound_found(1) [OF assms i] i True show ?thesis
    by (auto simp: transactionUpdated_def Let_def positions_distinct)
next
  case False
  then have "filter (\<lambda>i. transactions m ! i = tx) [0..<length (transactions m)] = []"
    by (auto simp: filter_empty_conv)
  with lower_bound_found(2) [OF assms False] False show ?thesis
    by (auto simp: transactionUpdated_def Let_def)
qed

lemma update_refreshes_row_witness:
  "emitted (transactionUpdated 7 NsError (TransactionModel_new\<lparr>transactions := [2, 7, 9]\<rparr>)) = [DataChanged (1, 0) (1, 0), LayoutChanged [(1, 0)]] \<and>
   transactions (transactionUpdated 7 NsError (TransactionModel_new\<lparr>transactions := [2, 7, 9]\<rparr>)) = [2, 7, 9]"
  using update_refreshes_row [of "TransactionModel_new\<lparr>transactions := [2, 7, 9]\<rparr>" 7 NsError]
  by (simp add: TransactionModel_new_def upt_rec)

end
