(* ===== verification/System.thy ===== *)
theory System
  imports TransactionFrames Server TransactionModel
begin

text \<open>
  The running program: the server's accept loop, the proxy with all its transactions, and the table of the
  main window, taking steps in any order. Worker threads run the handlers of asio, one callback at a time
  for each transaction; signals whose receiver lives in the window's thread are posted to its event loop
  (the connections of \<open>core/src/Server.cpp\<close>, \<open>core/src/Proxy.cpp\<close> and \<open>app/TransactionModel.cpp\<close> are all of
  this kind, as their receivers were made in the window's thread).
\<close>

section \<open>State\<close>

text \<open>What is posted to the window's event loop: a connection for the proxy, a signal of the transaction with the given
  position for the table, or the repaint the view of the table asks for when the table emits a signal.\<close>

datatype Posted = Established conn | Updated nat | Repaint ModelSignal

text \<open>\<open>view\<close> has the cells of the rows as the table view read them last; \<open>known\<close> are the connection objects made so far.\<close>

record System =
  sys_server :: Server
  sys_proxy :: Proxy
  sys_table :: TransactionModel
  posted :: "Posted list"
  view :: "QVariant list list"
  known :: "conn list"

definition System_new :: "int \<Rightarrow> System" where
  "System_new hardware_concurrency = \<lparr>sys_server = Server_new hardware_concurrency, sys_proxy = Proxy_new,
     sys_table = TransactionModel_new, posted = [], view = [], known = []\<rparr>"

abbreviation txs :: "System \<Rightarrow> (int \<times> Transaction outcome) list" where
  "txs S \<equiv> started (sys_proxy S)"

text \<open>What the other parts see of a transaction.\<close>

definition Transaction_state :: "Transaction \<Rightarrow> NotificationState" where
  "Transaction_state t = notification_state t"

definition Transaction_request :: "Transaction \<Rightarrow> Request" where
  "Transaction_request t = request t"

definition Transaction_response :: "Transaction \<Rightarrow> Response" where
  "Transaction_response t = response t"

definition Transaction_error :: "Transaction \<Rightarrow> error_code" where
  "Transaction_error t = tx_error t"

lemmas transaction_getters [simp] = Transaction_state_def Transaction_request_def Transaction_response_def Transaction_error_def

definition tx_of :: "System \<Rightarrow> int \<Rightarrow> Transaction" where
  "tx_of S tx = projr (the (map_of (txs S) tx))"

section \<open>The window's thread\<close>

text \<open>When the view is painted after a signal of the table, it reads the cells that signal makes it read, and keeps the others as
  they are.\<close>

definition cell_shown :: "QVariant list list \<Rightarrow> nat \<Rightarrow> int \<Rightarrow> QVariant" where
  "cell_shown v i col = (if i < length v then v ! i ! nat col else NoValue)"

definition repaint :: "qt \<Rightarrow> ModelSignal \<Rightarrow> System \<Rightarrow> System" where
  "repaint Q s S = S\<lparr>view := map (\<lambda>i. map (\<lambda>col.
       if viewReads Q s i col then cell_data (tx_of S) \<lparr>isValid = True, row = i, column = col\<rparr> True (sys_table S)
       else cell_shown (view S) i col) [0, 1, 2]) [0..<length (transactions (sys_table S))]\<rparr>"

text \<open>A connection goes to the proxy, which announces the transaction to the table; an update goes to the table,
  which looks at the state the transaction has by then. What the table emits meanwhile is painted later.\<close>

definition repaints :: "TransactionModel \<Rightarrow> TransactionModel \<Rightarrow> Posted list" where
  "repaints old new = map Repaint (drop (length (emitted old)) (emitted new))"

fun gui_event :: "qt \<Rightarrow> Posted \<Rightarrow> System \<Rightarrow> System" where
  "gui_event Q (Established c) S =
     (let m = transactionStarted (sint (next_id (sys_proxy S))) (sys_table S)
      in S\<lparr>sys_proxy := on_client_connected c (sys_proxy S), sys_table := m, posted := posted S @ repaints (sys_table S) m\<rparr>)"
| "gui_event Q (Updated i) S =
     (case txs S ! i of
        (tx, Inl e) \<Rightarrow> S
      | (tx, Inr t) \<Rightarrow>
          let m = transactionUpdated tx (Transaction_state t) (sys_table S)
          in S\<lparr>sys_table := m, posted := posted S @ repaints (sys_table S) m\<rparr>)"
| "gui_event Q (Repaint s) S = repaint Q s S"

section \<open>The worker threads\<close>

text \<open>A signal is posted once for each of its connections, as long as the table listens to the transaction.\<close>

definition post_signals :: "nat \<Rightarrow> int \<Rightarrow> TransactionModel \<Rightarrow> Signal list \<Rightarrow> Posted list" where
  "post_signals i tx m ss =
     (if tx \<in> set (listening m) then concat (map (\<lambda>s. map (\<lambda>_. Updated i) (filter (\<lambda>s'. s' = s) connected_signals)) ss) else [])"

definition made :: "Answer \<Rightarrow> conn list" where
  "made a = (case a of OpenDone rec cec d \<Rightarrow> [d] | _ \<Rightarrow> [])"

text \<open>Events: an answer to the pending accept, a termination signal, an answer to an operation of a transaction, or a turn of
  the window's event loop. Each \<open>accept\<close> and each \<open>try_open\<close> makes a connection object of its own.\<close>

datatype SystemEvent = Accept error_code conn | Terminate | Completion nat "nat \<times> Answer" | Turn

fun system_event :: "qt \<Rightarrow> SystemEvent \<Rightarrow> System \<Rightarrow> System outcome option" where
  "system_event Q (Accept ec c) S =
     (if accepting (sys_server S) \<and> c \<notin> set (known S) then
        let s' = server_event (Accepted ec c) (sys_server S)
        in Some (Inr (S\<lparr>sys_server := s', known := known S @ [c],
             posted := posted S @ map Established (drop (length (established (sys_server S))) (established s'))\<rparr>))
      else None)"
| "system_event Q Terminate S = Some (Inr (S\<lparr>sys_server := on_termination_signal (sys_server S)\<rparr>))"
| "system_event Q (Completion i (k, a)) S =
     (if i < length (txs S) \<and> set (made a) \<inter> set (known S) = {} then
        (case txs S ! i of
           (tx, Inl e) \<Rightarrow> None
         | (tx, Inr t) \<Rightarrow>
             (case answer_nth Q (k, a) t of
                None \<Rightarrow> None
              | Some (Inl e) \<Rightarrow> Some (Inl e)
              | Some (Inr t') \<Rightarrow> Some (Inr (S\<lparr>
                  sys_proxy := (sys_proxy S)\<lparr>started := (txs S)[i := (tx, Inr t')]\<rparr>,
                  posted := posted S @ post_signals i tx (sys_table S)
                    (drop (length (signals (trace t))) (signals (trace t'))),
                  known := known S @ made a\<rparr>))))
      else None)"
| "system_event Q Turn S =
     (case posted S of [] \<Rightarrow> None | p # ps \<Rightarrow> Some (Inr (gui_event Q p (S\<lparr>posted := ps\<rparr>))))"

inductive system_reachable :: "qt \<Rightarrow> System outcome \<Rightarrow> bool" for Q where
  created: "system_reachable Q (Inr (System_new hardware_concurrency))"
| happened: "system_reachable Q (Inr S) \<Longrightarrow> system_event Q ev S = Some r \<Longrightarrow> system_reachable Q r"

fun system_run :: "qt \<Rightarrow> SystemEvent list \<Rightarrow> System outcome \<Rightarrow> System outcome option" where
  "system_run Q [] r = Some r"
| "system_run Q (ev # evs) (Inl e) = None"
| "system_run Q (ev # evs) (Inr S) = (case system_event Q ev S of None \<Rightarrow> None | Some r \<Rightarrow> system_run Q evs r)"

lemma system_run_reachable: "system_run Q evs r = Some r' \<Longrightarrow> system_reachable Q r \<Longrightarrow> system_reachable Q r'"
  by (induction Q evs r rule: system_run.induct) (auto split: option.splits intro: system_reachable.happened)

section \<open>Transactions do not interfere\<close>

definition waiting :: "Posted list \<Rightarrow> conn list" where
  "waiting ps = concat (map (\<lambda>p. case p of Established c \<Rightarrow> [c] | _ \<Rightarrow> []) ps)"

lemma waiting_simps [simp]:
  "waiting [] = []" "waiting (xs @ ys) = waiting xs @ waiting ys" "waiting (Established c # ps) = c # waiting ps"
  "waiting (Updated i # ps) = waiting ps" "waiting (Repaint s # ps) = waiting ps" "waiting (repaints m m') = []"
  "waiting (map Established cs) = cs" "waiting (post_signals i tx m ss) = []"
proof -
  have "waiting (map Repaint ss) = []" for ss by (induction ss) (simp_all add: waiting_def)
  then show "waiting (repaints m m') = []" by (simp add: repaints_def)
  show "waiting (map Established cs) = cs" by (induction cs) (simp_all add: waiting_def)
  show "waiting (post_signals i tx m ss) = []" by (induction ss) (auto simp: waiting_def post_signals_def)
qed (simp_all add: waiting_def)

text \<open>The clients \<open>cs\<close> of the transactions, and the connections \<open>ks\<close> each of them may use.\<close>

definition apart :: "qt \<Rightarrow> conn list \<Rightarrow> conn set list \<Rightarrow> System \<Rightarrow> bool" where
  "apart Q cs ks S \<longleftrightarrow> established (sys_server S) = cs @ waiting (posted S) \<and>
     length cs = length (txs S) \<and> length ks = length (txs S) \<and>
     distinct (waiting (posted S)) \<and> set (waiting (posted S)) \<subseteq> set (known S) \<and>
     (\<forall>i < length cs. ks ! i \<subseteq> set (known S) - set (waiting (posted S)) \<and>
        (\<exists>tx t. txs S ! i = (tx, Inr t) \<and> reachable Q (cs ! i) (Inr t) \<and>
           set (conns t) \<subseteq> ks ! i \<and> touched (trace t) \<subseteq> ks ! i)) \<and>
     (\<forall>i < length cs. \<forall>j < length cs. i \<noteq> j \<longrightarrow> ks ! i \<inter> ks ! j = {})"

lemma apartI:
  assumes "established (sys_server S) = cs @ waiting (posted S)" "length cs = length (txs S)" "length ks = length (txs S)"
    and "distinct (waiting (posted S))" "set (waiting (posted S)) \<subseteq> set (known S)"
    and "\<And>i. i < length cs \<Longrightarrow> ks ! i \<subseteq> set (known S) - set (waiting (posted S))"
    and "\<And>i. i < length cs \<Longrightarrow> \<exists>tx t. txs S ! i = (tx, Inr t) \<and> reachable Q (cs ! i) (Inr t) \<and>
           set (conns t) \<subseteq> ks ! i \<and> touched (trace t) \<subseteq> ks ! i"
    and "\<And>i j. i < length cs \<Longrightarrow> j < length cs \<Longrightarrow> i \<noteq> j \<Longrightarrow> ks ! i \<inter> ks ! j = {}"
  shows "apart Q cs ks S"
  unfolding apart_def using assms by blast

lemma apartD:
  assumes "apart Q cs ks S"
  shows "established (sys_server S) = cs @ waiting (posted S)" "length cs = length (txs S)" "length ks = length (txs S)"
    "distinct (waiting (posted S))" "set (waiting (posted S)) \<subseteq> set (known S)"
    "i < length (txs S) \<Longrightarrow> ks ! i \<subseteq> set (known S) - set (waiting (posted S))"
    "i < length (txs S) \<Longrightarrow> \<exists>tx t. txs S ! i = (tx, Inr t) \<and> reachable Q (cs ! i) (Inr t) \<and>
           set (conns t) \<subseteq> ks ! i \<and> touched (trace t) \<subseteq> ks ! i"
    "i < length (txs S) \<Longrightarrow> j < length (txs S) \<Longrightarrow> i \<noteq> j \<Longrightarrow> ks ! i \<inter> ks ! j = {}"
  using assms unfolding apart_def by metis+

lemma begin_eq: "Transaction_begin (Transaction_new (Some c)) =
    Inr ((Transaction_new (Some c))\<lparr>pending := [ReadRequest], trace := [Emit on_transaction_start]\<rparr>)"
  by (simp add: Transaction_begin_def action_simps read_client_eq Transaction_new_def)

lemma established_grows:
  "established (server_event (Accepted ec c) s) = established s \<or> established (server_event (Accepted ec c) s) = established s @ [c]"
  by (auto simp: on_accept_def do_accept_def make_connection_def)

lemma apart_accept:
  assumes "apart Q cs ks S" "system_event Q (Accept ec c) S = Some r"
  shows "\<exists>S'. r = Inr S' \<and> apart Q cs ks S'"
proof -
  let ?s' = "server_event (Accepted ec c) (sys_server S)"
  let ?S' = "S\<lparr>sys_server := ?s', known := known S @ [c],
     posted := posted S @ map Established (drop (length (established (sys_server S))) (established ?s'))\<rparr>"
  from assms(2) have r: "r = Inr ?S'" and c: "c \<notin> set (known S)" by (auto simp: Let_def split: if_splits)
  note D = apartD [OF assms(1)]
  have "c \<notin> ks ! i" if "i < length (txs S)" for i using D(6) [OF that] c by auto
  with D c established_grows [of ec c "sys_server S"] have "apart Q cs ks ?S'"
    by (intro apartI) (auto simp del: server_event.simps)
  with r show ?thesis by blast
qed

lemma apart_established:
  assumes "apart Q cs ks S" "posted S = Established c # ps"
  shows "apart Q (cs @ [c]) (ks @ [{c}]) (gui_event Q (Established c) (S\<lparr>posted := ps\<rparr>))"
proof -
  note D = apartD [OF assms(1)]
  let ?S' = "gui_event Q (Established c) (S\<lparr>posted := ps\<rparr>)"
  let ?t = "(Transaction_new (Some c))\<lparr>pending := [ReadRequest], trace := [Emit on_transaction_start]\<rparr>"
  have txs: "txs ?S' = txs S @ [(sint (next_id (sys_proxy S)), Inr ?t)]"
    by (simp add: Let_def on_client_connected_def begin_eq)
  have same: "sys_server ?S' = sys_server S" "waiting (posted ?S') = waiting ps" "known ?S' = known S" by (simp_all add: Let_def)
  have new: "reachable Q c (Inr ?t)" using reachable.begun [of Q c] by (simp add: begin_eq)
  have c: "c \<in> set (known S)" "c \<notin> set (waiting ps)" "distinct (waiting ps)" "set (waiting ps) \<subseteq> set (known S)"
    using D(4,5) assms(2) by auto
  have old: "ks ! i \<subseteq> set (known S) - set (waiting ps)" "c \<notin> ks ! i" if "i < length (txs S)" for i
    using D(6) [OF that] assms(2) by auto
  show ?thesis
  proof (rule apartI, unfold txs same)
    show "established (sys_server S) = (cs @ [c]) @ waiting ps" using D(1) assms(2) by simp
    fix i
    assume i: "i < length (cs @ [c])"
    show "(ks @ [{c}]) ! i \<subseteq> set (known S) - set (waiting ps)"
      using i old(1) [of i] c D(2,3) by (cases "i < length cs") (auto simp: nth_append less_Suc_eq)
    show "\<exists>tx t. (txs S @ [(sint (next_id (sys_proxy S)), Inr ?t)]) ! i = (tx, Inr t) \<and>
        reachable Q ((cs @ [c]) ! i) (Inr t) \<and> set (conns t) \<subseteq> (ks @ [{c}]) ! i \<and> touched (trace t) \<subseteq> (ks @ [{c}]) ! i"
    proof (cases "i < length cs")
      case True
      with D(7) [of i] D(2,3) show ?thesis by (simp add: nth_append)
    next
      case False
      with i D(2,3) new show ?thesis
        by (simp add: nth_append less_Suc_eq conns_def Transaction_new_def)
    qed
    fix j
    assume "j < length (cs @ [c])" "i \<noteq> j"
    with i D(2,3) D(8) [of i j] old(2) [of i] old(2) [of j] show "(ks @ [{c}]) ! i \<inter> (ks @ [{c}]) ! j = {}"
      by (auto simp: nth_append less_Suc_eq)
  qed (use D c in auto)
qed

lemma apart_updated:
  assumes "apart Q cs ks S" "posted S = p # ps" "\<And>c. p \<noteq> Established c"
  shows "apart Q cs ks (gui_event Q p (S\<lparr>posted := ps\<rparr>))"
proof -
  let ?S' = "gui_event Q p (S\<lparr>posted := ps\<rparr>)"
  have "sys_server ?S' = sys_server S" "waiting (posted ?S') = waiting ps" "known ?S' = known S" "sys_proxy ?S' = sys_proxy S"
    using assms(3) by (cases p; auto simp: repaint_def Let_def split: prod.splits sum.splits)+
  moreover have "waiting (posted S) = waiting ps" using assms(2,3) by (cases p) auto
  ultimately show ?thesis using assms(1) by (simp add: apart_def)
qed

lemma answer_extends:
  assumes "answer_nth Q (k, a) t = Some (Inr t')"
  shows "extends (K \<union> set (made a)) t t'"
proof -
  from assms obtain act where act: "resume Q (pending t ! k) a = Some act"
    "act (t\<lparr>pending := take k (pending t) @ drop (Suc k) (pending t)\<rparr>) = Inr t'"
    by (auto simp: answer_nth_def split: if_splits)
  have ext: "extends (K \<union> {d}) t t'" if "\<And>rec cec c. a = OpenDone rec cec c \<Longrightarrow> c = d" for d
  proof (rule own.trans)
    show "extends (K \<union> {d}) t (t\<lparr>pending := take k (pending t) @ drop (Suc k) (pending t)\<rparr>)"
      by (rule own.core) (simp add: same_core_def)
    show "extends (K \<union> {d}) (t\<lparr>pending := take k (pending t) @ drop (Suc k) (pending t)\<rparr>) t'"
      using own.within_any_answer [OF act(1) that] act(2) by (rule own.withinD)
  qed
  show ?thesis
  proof (cases "\<exists>rec cec c. a = OpenDone rec cec c")
    case True
    then show ?thesis using ext by (auto simp: made_def)
  next
    case False
    then have "extends (K \<union> {0}) t t'" "extends (K \<union> {1}) t t'" using ext by blast+
    moreover from False have "made a = []" by (auto simp: made_def split: Answer.splits)
    ultimately show ?thesis by (fastforce simp: extends_def)
  qed
qed

lemma apart_completion:
  assumes "apart Q cs ks S" "system_event Q (Completion i (k, a)) S = Some (Inr S')"
  shows "\<exists>ks'. apart Q cs ks' S'"
proof -
  note D = apartD [OF assms(1)]
  from assms(2) D(7) [of i] obtain tx t t' where i: "i < length (txs S)" "set (made a) \<inter> set (known S) = {}"
    and t: "txs S ! i = (tx, Inr t)" "reachable Q (cs ! i) (Inr t)" "set (conns t) \<subseteq> ks ! i" "touched (trace t) \<subseteq> ks ! i"
    and a: "answer_nth Q (k, a) t = Some (Inr t')"
    and S': "S' = S\<lparr>sys_proxy := (sys_proxy S)\<lparr>started := (txs S)[i := (tx, Inr t')]\<rparr>,
                  posted := posted S @ post_signals i tx (sys_table S) (drop (length (signals (trace t))) (signals (trace t'))),
                  known := known S @ made a\<rparr>"
    by (auto split: if_splits option.splits sum.splits)
  let ?k = "ks ! i \<union> set (made a)"
  from answer_extends [OF a, of "ks ! i"] t(3,4) have ext: "set (conns t') \<subseteq> ?k" "touched (trace t') \<subseteq> ?k"
    by (auto simp: extends_def)
  have reach: "reachable Q (cs ! i) (Inr t')" using t(2) answer_nth_step [OF a] by (rule reachable.stepped)
  have "apart Q cs (ks[i := ?k]) S'"
  proof (rule apartI)
    fix j
    assume j: "j < length cs"
    then have j': "j < length (txs S)" using D(2) by simp
    show "ks[i := ?k] ! j \<subseteq> set (known S') - set (waiting (posted S'))"
      using D(6) [OF j'] D(3,5) i j' by (auto simp: S' nth_list_update)
    show "\<exists>tx t. txs S' ! j = (tx, Inr t) \<and> reachable Q (cs ! j) (Inr t) \<and>
        set (conns t) \<subseteq> ks[i := ?k] ! j \<and> touched (trace t) \<subseteq> ks[i := ?k] ! j"
      using D(7) [OF j'] D(3) i j' reach ext by (auto simp: S' nth_list_update)
    fix l
    assume "l < length cs" "j \<noteq> l"
    with D(2,3) i j' D(6) [of j] D(6) [of l] D(8) [of j l] show "ks[i := ?k] ! j \<inter> ks[i := ?k] ! l = {}"
      by (auto simp: nth_list_update)
  qed (use D in \<open>auto simp: S'\<close>)
  then show ?thesis by blast
qed

lemma apart_new: "apart Q [] [] (System_new n)"
  by (rule apartI) (simp_all add: System_new_def Server_new_def Proxy_new_def do_accept_def)

lemma apart_event:
  assumes "apart Q cs ks S" "system_event Q ev S = Some (Inr S')"
  shows "\<exists>cs' ks'. apart Q cs' ks' S'"
proof (cases ev)
  case (Accept ec c)
  with apart_accept assms show ?thesis by blast
next
  case Terminate
  with assms(2) have "S' = S\<lparr>sys_server := on_termination_signal (sys_server S)\<rparr>" by simp
  with assms(1) have "apart Q cs ks S'" by (simp add: apart_def on_termination_signal_def)
  then show ?thesis by blast
next
  case (Completion i x)
  with apart_completion assms show ?thesis by (cases x) blast
next
  case Turn
  with assms(2) obtain p ps where p: "posted S = p # ps" "S' = gui_event Q p (S\<lparr>posted := ps\<rparr>)"
    by (auto split: list.splits)
  with apart_established [OF assms(1)] apart_updated [OF assms(1) p(1)] show ?thesis by (cases p) blast+
qed

lemma system_apart: "system_reachable Q r \<Longrightarrow> r = Inr S \<Longrightarrow> \<exists>cs ks. apart Q cs ks S"
proof (induction arbitrary: S rule: system_reachable.induct)
  case (created n)
  with apart_new [of Q n] show ?case by blast
next
  case (happened S0 ev r)
  then show ?case using apart_event by blast
qed

section \<open>The table keeps up\<close>

text \<open>What a transaction has to show, and what one shows that has read nothing yet.\<close>

definition cells :: "Transaction \<Rightarrow> QVariant list" where
  "cells t = [StringValue (msg_method (Transaction_request t)),
     StringValue (latin1 (dec_int (msg_status_code (Transaction_response t))) @ latin1 '' '' @
       msg_status_message (Transaction_response t)),
     StringValue (msg_uri (Transaction_request t))]"

definition settled :: "Transaction \<Rightarrow> bool" where
  "settled t \<longleftrightarrow> notification_state t = ResponseComplete \<or> notification_state t = NsError"

definition announced_end :: "Transaction \<Rightarrow> bool" where
  "announced_end t \<longleftrightarrow> on_transaction_complete \<in> set (signals (trace t))"

text \<open>The operations that are left once a transaction is settled or has announced its end.\<close>

definition late :: "Pending \<Rightarrow> bool" where
  "late p \<longleftrightarrow> p = SendResponse \<or> outbound p \<or> inbound p"

lemma late_pending:
  assumes "tx_inv Q c t" "settled t \<or> announced_end t" "p \<in> set (pending t)"
  shows "late p"
proof -
  have "s \<le> ResponseComplete \<Longrightarrow> on_transaction_complete \<notin> set (sigs s)" for s by (auto simp: sigs_def news_def)
  then have *: "alive c r t \<Longrightarrow> \<not> announced_end t" for r by (simp add: alive_def announced_end_def)
  show ?thesis
    using assms * unfolding tx_inv_def
    by (elim disjE exE)
      (auto simp: late_def settled_def ns_order reading_request_def opening_remote_def opening_tunnel_def failed_early_def
        sending_request_def reading_response_def sending_response_def completed_def tunneling_def tunnel_closed_def replying_def)
qed

lemma late_state:
  assumes "resume Q p a = Some act" "late p" "act t = Inr t'" "\<not> mutex_locked t"
  shows "notification_state t' = notification_state t \<or> notification_state t' = NsError"
  using assms
  by (cases "(Q, p, a)" rule: resume.cases)
    (auto simp: late_def on_response_sent_def on_tunnel_client_bytes_def on_tunnel_remote_bytes_def on_tunnel_remote_written_def
      on_tunnel_client_written_def via_tunnel_eq release_eq complete_eq notify_failure_eq receive_def action_simps guarded_def
      split: if_splits option.splits)

lemma late_answer:
  assumes "answer_nth Q x t = Some (Inr t')" "tx_inv Q c t" "settled t \<or> announced_end t"
  shows "same_messages t t'" "settled t \<Longrightarrow> settled t'"
proof -
  obtain k a where x: "x = (k, a)" by (cases x)
  let ?u = "t\<lparr>pending := take k (pending t) @ drop (Suc k) (pending t)\<rparr>"
  from assms(1) obtain act where k: "k < length (pending t)" and act: "resume Q (pending t ! k) a = Some act" "act ?u = Inr t'"
    by (auto simp: answer_nth_def x split: if_splits)
  from k have late: "late (pending t ! k)" by (intro late_pending [OF assms(2,3)]) simp
  then have p: "pending t ! k \<notin> {ReadRequest, ReadResponse}" by (auto simp: late_def)
  have "messages.within act"
    using late by (intro messages.within_answer [OF act(1) p, of undefined]) (use act(1) in \<open>cases "pending t ! k"; auto simp: late_def\<close>)
  from messages.withinD [OF this act(2)] show "same_messages t t'" by (simp add: same_messages_def)
  have "\<not> mutex_locked ?u" using assms(2) unfolding tx_inv_def
    by (elim disjE exE) (auto simp: reading_request_def opening_remote_def opening_tunnel_def failed_early_def alive_def
        sending_request_def reading_response_def sending_response_def completed_def tunneling_def tunnel_closed_def replying_def released_def)
  from late_state [OF act(1) late act(2) this] show "settled t \<Longrightarrow> settled t'" by (auto simp: settled_def)
qed

definition row_cells :: "System \<Rightarrow> nat \<Rightarrow> QVariant list" where
  "row_cells S i = map (cell_shown (view S) i) [0, 1, 2]"

text \<open>A row: whether the view keeps to its laws, whether the table listens to the transaction, whether an update of it is posted and
  whether a repaint of everything on its behalf is, the transaction, and the cells last read. The table stops listening only
  when the transaction is settled; once it has, or the end is announced, the cells are those of the transaction, or will be
  after what is posted; and no update is posted before the first signal.\<close>

definition row_ok :: "bool \<Rightarrow> bool \<Rightarrow> bool \<Rightarrow> bool \<Rightarrow> Transaction \<Rightarrow> QVariant list \<Rightarrow> bool" where
  "row_ok laws listens update paint t v \<longleftrightarrow>
     (\<not> listens \<longrightarrow> settled t) \<and>
     (laws \<and> (\<not> listens \<or> announced_end t) \<longrightarrow> update \<or> paint \<or> v = cells t) \<and>
     (set (signals (trace t)) \<subseteq> {on_transaction_start} \<longrightarrow> \<not> update)"

lemma row_new:
  "row_ok laws True False paint ((Transaction_new (Some c))\<lparr>pending := ps, trace := [Emit on_transaction_start]\<rparr>) v"
  by (simp add: row_ok_def announced_end_def Transaction_new_def)

lemma row_updated: "row_ok laws listens True paint t v \<Longrightarrow> row_ok laws (listens \<and> \<not> settled t) update True t v"
  by (auto simp: row_ok_def)

lemma row_repainted:
  fixes old :: "int \<Rightarrow> QVariant"
  assumes "row_ok laws listens update paint t (map old [0, 1, 2])" "map cell [0, 1, 2] = cells t"
    and "laws \<Longrightarrow> paint' = paint \<or> (\<forall>col. rd col)"
  shows "row_ok laws listens update paint' t (map (\<lambda>col. if rd col then cell col else old col) [0, 1, 2])"
  using assms by (auto simp: row_ok_def cells_def)

lemma answer_signals:
  assumes "answer_nth Q (k, a) t = Some (Inr t')"
  shows "\<exists>new. signals (trace t') = signals (trace t) @ new"
  using answer_extends [OF assms, of "set (conns t)"] by (auto simp: extends_def)

lemma row_answered:
  assumes "row_ok laws listens update paint t v" "answer_nth Q (k, a) t = Some (Inr t')" "tx_inv Q c t"
    and new: "new = drop (length (signals (trace t))) (signals (trace t'))"
  shows "row_ok laws listens (update \<or> listens \<and> set new \<inter> set connected_signals \<noteq> {}) paint t' v"
proof -
  from answer_signals [OF assms(2)] new have sig: "signals (trace t') = signals (trace t) @ new" by auto
  have same: "settled t \<or> announced_end t \<Longrightarrow> cells t' = cells t"
    using late_answer(1) [OF assms(2,3)] by (simp add: cells_def same_messages_def)
  have conn: "on_transaction_complete \<in> set connected_signals" "on_transaction_start \<notin> set connected_signals"
    by (simp_all add: connected_signals_def)
  note row = assms(1) [unfolded row_ok_def]
  have "settled t'" if "\<not> listens" using row that late_answer(2) [OF assms(2,3)] by blast
  moreover have "(update \<or> listens \<and> set new \<inter> set connected_signals \<noteq> {}) \<or> paint \<or> v = cells t'"
    if laws "\<not> listens \<or> announced_end t'"
  proof (cases "\<not> listens \<or> announced_end t")
    case True
    with row that(1) have "settled t \<or> announced_end t" "update \<or> paint \<or> v = cells t" by blast+
    with same show ?thesis by auto
  next
    case False
    with that(2) have "on_transaction_complete \<in> set new" by (simp add: announced_end_def sig)
    with False conn(1) show ?thesis by blast
  qed
  moreover have "\<not> (update \<or> listens \<and> set new \<inter> set connected_signals \<noteq> {})"
    if "set (signals (trace t')) \<subseteq> {on_transaction_start}"
  proof -
    from that sig have "set (signals (trace t)) \<subseteq> {on_transaction_start}" "set new \<subseteq> {on_transaction_start}" by simp_all
    with row conn(2) show ?thesis by blast
  qed
  ultimately show ?thesis unfolding row_ok_def by blast
qed

text \<open>What holds of the rows; \<open>row_in\<close> is one of them with its transaction.\<close>

definition row_in :: "qt \<Rightarrow> System \<Rightarrow> nat \<Rightarrow> Transaction \<Rightarrow> bool" where
  "row_in Q S i t \<longleftrightarrow> row_ok (view_laws Q) (int (Suc i) \<in> set (listening (sys_table S))) (Updated i \<in> set (posted S))
     (Repaint (LayoutChanged [(i, 0)]) \<in> set (posted S)) t (row_cells S i)"

definition table_inv :: "qt \<Rightarrow> System \<Rightarrow> bool" where
  "table_inv Q S \<longleftrightarrow> next_id (sys_proxy S) = of_nat (Suc (length (txs S))) \<and>
     transactions (sys_table S) = map (int \<circ> Suc) [0..<length (txs S)] \<and>
     (\<forall>i. Updated i \<in> set (posted S) \<longrightarrow> i < length (txs S)) \<and>
     (\<forall>i < length (txs S). \<exists>t. txs S ! i = (int (Suc i), Inr t) \<and> row_in Q S i t)"

lemma table_invD:
  assumes "table_inv Q S"
  shows "next_id (sys_proxy S) = of_nat (Suc (length (txs S)))"
    "transactions (sys_table S) = map (int \<circ> Suc) [0..<length (txs S)]"
    "Updated i \<in> set (posted S) \<Longrightarrow> i < length (txs S)"
    "i < length (txs S) \<Longrightarrow> \<exists>t. txs S ! i = (int (Suc i), Inr t) \<and> row_in Q S i t"
  using assms unfolding table_inv_def by blast+

lemma table_invI:
  assumes "next_id (sys_proxy S) = of_nat (Suc (length (txs S)))"
    and "transactions (sys_table S) = map (int \<circ> Suc) [0..<length (txs S)]"
    and "\<And>i. Updated i \<in> set (posted S) \<Longrightarrow> i < length (txs S)"
    and "\<And>i. i < length (txs S) \<Longrightarrow> \<exists>t. txs S ! i = (int (Suc i), Inr t) \<and> row_in Q S i t"
  shows "table_inv Q S"
  unfolding table_inv_def using assms by blast

lemma ids_sorted: "sorted_wrt (<) (map (int \<circ> Suc) [0..<n])"
  by (simp add: sorted_wrt_map)

lemma cells_read:
  assumes "table_inv Q S" "i < length (txs S)" "txs S ! i = (tx, Inr t)"
  shows "map (\<lambda>col. cell_data (tx_of S) \<lparr>isValid = True, row = i, column = col\<rparr> True (sys_table S)) [0, 1, 2] = cells t"
proof -
  note D = table_invD [OF assms(1)]
  have ids: "fst (txs S ! j) = int (Suc j)" if "j < length (txs S)" for j using D(4) [OF that] by auto
  then have "map fst (txs S) = map (int \<circ> Suc) [0..<length (txs S)]" by (intro nth_equalityI) simp_all
  then have "distinct (map fst (txs S))" by (simp add: distinct_map inj_on_def)
  moreover have "(tx, Inr t) \<in> set (txs S)" using assms(2,3) by (metis nth_mem)
  ultimately have "tx_of S tx = t" by (simp add: tx_of_def)
  moreover have "transactions (sys_table S) ! i = tx" using ids [OF assms(2)] D(2) assms(2,3) by simp
  ultimately show ?thesis by (simp add: cell_data_def cells_def)
qed

lemma update_found:
  assumes "sorted_wrt (<) (transactions m)" "i < length (transactions m)" "transactions m ! i = tx"
  shows "transactionUpdated tx st m =
    m\<lparr>tlsTransactionIds := (if st = TLSTunnel then tx # tlsTransactionIds m else tlsTransactionIds m),
      emitted := emitted m @ [DataChanged (i, 0) (i, 0), LayoutChanged [(i, 0)]],
      listening := (if st = NsError \<or> st = ResponseComplete then removeAll tx (listening m) else listening m)\<rparr>"
  using lower_bound_found(1) [OF assms] assms by (cases m) (auto simp: transactionUpdated_def Let_def)

lemma posts_update: "Updated j \<in> set (post_signals i tx m ss) \<longleftrightarrow>
    j = i \<and> tx \<in> set (listening m) \<and> set ss \<inter> set connected_signals \<noteq> {}"
  by (auto simp: post_signals_def)

lemma repaints_simps [simp]:
  "repaints m (m'\<lparr>emitted := emitted m @ ss\<rparr>) = map Repaint ss"
  "repaints m (transactionStarted tx m) = [Repaint (RowsInserted (length (transactions m)) (length (transactions m)))]"
  by (simp_all add: repaints_def transactionStarted_def Let_def)

lemma table_new: "table_inv Q (System_new n)"
  by (rule table_invI) (simp_all add: System_new_def Proxy_new_def TransactionModel_new_def)

text \<open>A row is not touched by what leaves its transaction, its posts and its cells alone.\<close>

lemma row_in_cong:
  assumes "row_in Q S i t" "int (Suc i) \<in> set (listening (sys_table S')) \<longleftrightarrow> int (Suc i) \<in> set (listening (sys_table S))"
    and "Updated i \<in> set (posted S') \<longleftrightarrow> Updated i \<in> set (posted S)"
    and "Repaint (LayoutChanged [(i, 0)]) \<in> set (posted S') \<longleftrightarrow> Repaint (LayoutChanged [(i, 0)]) \<in> set (posted S)"
    and "view S' = view S"
  shows "row_in Q S' i t"
  using assms by (simp add: row_in_def row_cells_def)

lemma posts_repaint: "Repaint s \<notin> set (post_signals i tx m ss)"
  by (auto simp: post_signals_def)

lemma table_accept:
  assumes "table_inv Q S" "system_event Q (Accept ec c) S = Some (Inr S')"
  shows "table_inv Q S'"
proof -
  from assms(2) have S': "sys_proxy S' = sys_proxy S" "sys_table S' = sys_table S" "view S' = view S"
    "\<And>i. Updated i \<in> set (posted S') \<longleftrightarrow> Updated i \<in> set (posted S)"
    "\<And>s. Repaint s \<in> set (posted S') \<longleftrightarrow> Repaint s \<in> set (posted S)"
    by (auto simp: Let_def split: if_splits)
  with assms(1) show ?thesis unfolding table_inv_def row_in_def row_cells_def by simp
qed

lemma table_completion:
  assumes "table_inv Q S" "system_event Q (Completion i (k, a)) S = Some (Inr S')"
    and good: "\<And>tx t. i < length (txs S) \<Longrightarrow> txs S ! i = (tx, Inr t) \<Longrightarrow> \<exists>c. tx_inv Q c t"
  shows "table_inv Q S'"
proof -
  note D = table_invD [OF assms(1)]
  from assms(2) D(4) [of i] obtain t t' where i: "i < length (txs S)"
    and t: "txs S ! i = (int (Suc i), Inr t)" "row_in Q S i t"
    and a: "answer_nth Q (k, a) t = Some (Inr t')"
    and S': "S' = S\<lparr>sys_proxy := (sys_proxy S)\<lparr>started := (txs S)[i := (int (Suc i), Inr t')]\<rparr>,
                  posted := posted S @ post_signals i (int (Suc i)) (sys_table S) (drop (length (signals (trace t))) (signals (trace t'))),
                  known := known S @ made a\<rparr>"
    by (auto split: if_splits option.splits sum.splits)
  from good [OF i t(1)] obtain c where "tx_inv Q c t" by blast
  from row_answered [OF t(2) [unfolded row_in_def] a this refl] have row: "row_in Q S' i t'"
    by (simp add: row_in_def row_cells_def S' posts_update posts_repaint)
  show ?thesis
  proof (rule table_invI)
    fix j
    show "Updated j \<in> set (posted S') \<Longrightarrow> j < length (txs S')"
      using D(3) [of j] i by (auto simp: S' posts_update)
    assume j: "j < length (txs S')"
    show "\<exists>t. txs S' ! j = (int (Suc j), Inr t) \<and> row_in Q S' j t"
    proof (cases "j = i")
      case True
      with row i show ?thesis by (simp add: S')
    next
      case False
      from j D(4) [of j] obtain u where u: "txs S ! j = (int (Suc j), Inr u)" "row_in Q S j u" by (auto simp: S')
      from u(2) have "row_in Q S' j u" by (rule row_in_cong) (use False in \<open>auto simp: S' posts_update posts_repaint\<close>)
      with u(1) False show ?thesis by (simp add: S')
    qed
  qed (use D in \<open>simp_all add: S'\<close>)
qed

lemma table_established:
  assumes "table_inv Q S" "posted S = Established c # ps" "length (txs S) < 2 ^ 31 - 1"
  shows "table_inv Q (gui_event Q (Established c) (S\<lparr>posted := ps\<rparr>))"
proof -
  note D = table_invD [OF assms(1)]
  let ?S' = "gui_event Q (Established c) (S\<lparr>posted := ps\<rparr>)" and ?n = "length (txs S)"
  let ?t = "(Transaction_new (Some c))\<lparr>pending := [ReadRequest], trace := [Emit on_transaction_start]\<rparr>"
  have id: "sint (next_id (sys_proxy S)) = int (Suc ?n)"
    unfolding D(1) using assms(3) by (intro sint_small) simp
  have txs: "txs ?S' = txs S @ [(int (Suc ?n), Inr ?t)]"
    using id by (simp add: on_client_connected_def begin_eq Let_def)
  have rest: "posted ?S' = ps @ [Repaint (RowsInserted ?n ?n)]" "view ?S' = view S"
    "next_id (sys_proxy ?S') = next_id (sys_proxy S) + 1"
    "transactions (sys_table ?S') = transactions (sys_table S) @ [int (Suc ?n)]"
    "set (listening (sys_table ?S')) = {int (Suc ?n)} \<union> set (listening (sys_table S))"
    using id by (simp_all add: on_client_connected_def Let_def D(2)) (simp_all add: transactionStarted_def Let_def D(2))
  have posted: "Updated i \<in> set (posted ?S') \<longleftrightarrow> Updated i \<in> set (posted S)"
    "Repaint (LayoutChanged ix) \<in> set (posted ?S') \<longleftrightarrow> Repaint (LayoutChanged ix) \<in> set (posted S)" for i ix
    unfolding rest using assms(2) by simp_all
  show ?thesis
  proof (rule table_invI)
    show "next_id (sys_proxy ?S') = of_nat (Suc (length (txs ?S')))" unfolding rest txs by (simp add: D(1))
    show "transactions (sys_table ?S') = map (int \<circ> Suc) [0..<length (txs ?S')]" unfolding rest txs by (simp add: D(2))
    fix i
    show "Updated i \<in> set (posted ?S') \<Longrightarrow> i < length (txs ?S')" unfolding posted txs using D(3) [of i] by simp
    assume i: "i < length (txs ?S')"
    show "\<exists>t. txs ?S' ! i = (int (Suc i), Inr t) \<and> row_in Q ?S' i t"
    proof (cases "i < ?n")
      case True
      from D(4) [OF this] obtain t where t: "txs S ! i = (int (Suc i), Inr t)" "row_in Q S i t" by blast
      from t(2) have "row_in Q ?S' i t" by (rule row_in_cong) (unfold rest(2,5) posted, use True in simp_all)
      with t(1) True show ?thesis unfolding txs by (simp add: nth_append)
    next
      case False
      with i have "i = ?n" unfolding txs by simp
      moreover have "Updated ?n \<notin> set (posted S)" using D(3) [of ?n] by auto
      ultimately have "row_in Q ?S' i ?t" unfolding row_in_def rest(5) posted by (simp add: row_new)
      with \<open>i = ?n\<close> show ?thesis unfolding txs by (simp add: nth_append)
    qed
  qed
qed

lemma table_updated:
  assumes "table_inv Q S" "posted S = Updated i # ps"
  shows "table_inv Q (gui_event Q (Updated i) (S\<lparr>posted := ps\<rparr>))"
proof -
  note D = table_invD [OF assms(1)]
  have i: "i < length (txs S)" using D(3) [of i] assms(2) by simp
  from D(4) [OF this] obtain t where t: "txs S ! i = (int (Suc i), Inr t)" "row_in Q S i t" by auto
  let ?m = "transactionUpdated (int (Suc i)) (notification_state t) (sys_table S)"
  let ?S' = "gui_event Q (Updated i) (S\<lparr>posted := ps\<rparr>)"
  have m: "transactions ?m = transactions (sys_table S)"
    "repaints (sys_table S) ?m = [Repaint (DataChanged (i, 0) (i, 0)), Repaint (LayoutChanged [(i, 0)])]"
    "listening ?m = (if settled t then removeAll (int (Suc i)) (listening (sys_table S)) else listening (sys_table S))"
    using update_found [of "sys_table S" i "int (Suc i)" "notification_state t"] i
    by (auto simp: D(2) ids_sorted settled_def repaints_def)
  have rest: "txs ?S' = txs S" "sys_proxy ?S' = sys_proxy S" "sys_table ?S' = ?m" "view ?S' = view S"
    "posted ?S' = ps @ [Repaint (DataChanged (i, 0) (i, 0)), Repaint (LayoutChanged [(i, 0)])]"
    using t(1) m(2) by (simp_all add: Let_def)
  show ?thesis
  proof (rule table_invI, unfold rest(1-3))
    fix j
    show "Updated j \<in> set (posted ?S') \<Longrightarrow> j < length (txs S)" unfolding rest using D(3) [of j] assms(2) by simp
    assume j: "j < length (txs S)"
    show "\<exists>u. txs S ! j = (int (Suc j), Inr u) \<and> row_in Q ?S' j u"
    proof (cases "j = i")
      case True
      have "row_ok (view_laws Q) (int (Suc i) \<in> set (listening (sys_table S))) True
          (Repaint (LayoutChanged [(i, 0)]) \<in> set (posted S)) t (row_cells S i)"
        using t(2) assms(2) by (simp add: row_in_def)
      from row_updated [OF this, of "Updated i \<in> set ps"] have "row_in Q ?S' i t"
        unfolding row_in_def row_cells_def rest m(3) by (auto simp: row_ok_def)
      with True t(1) show ?thesis by simp
    next
      case False
      from D(4) [OF j] obtain u where u: "txs S ! j = (int (Suc j), Inr u)" "row_in Q S j u" by blast
      from u(2) have "row_in Q ?S' j u"
        by (rule row_in_cong) (unfold rest(3-5) m(3), use False assms(2) in auto)
      with u(1) show ?thesis by blast
    qed
  qed (use D m in simp_all)
qed

lemma table_repainted:
  assumes "table_inv Q S" "posted S = Repaint s # ps"
  shows "table_inv Q (gui_event Q (Repaint s) (S\<lparr>posted := ps\<rparr>))"
proof -
  note D = table_invD [OF assms(1)]
  let ?S' = "gui_event Q (Repaint s) (S\<lparr>posted := ps\<rparr>)"
  have rest: "sys_proxy ?S' = sys_proxy S" "sys_table ?S' = sys_table S" "posted ?S' = ps" by (simp_all add: repaint_def)
  have posted: "Updated i \<in> set ps \<longleftrightarrow> Updated i \<in> set (posted S)" for i using assms(2) by simp
  show ?thesis
  proof (rule table_invI, unfold rest posted)
    fix i
    assume i: "i < length (txs S)"
    from D(4) [OF this] obtain t where t: "txs S ! i = (int (Suc i), Inr t)" "row_in Q S i t" by blast
    let ?cell = "\<lambda>col. cell_data (tx_of S) \<lparr>isValid = True, row = i, column = col\<rparr> True (sys_table S)"
    have "tx_of (S\<lparr>posted := ps\<rparr>) = tx_of S" by (rule ext) (simp add: tx_of_def)
    then have cells: "row_cells ?S' i = map (\<lambda>col. if viewReads Q s i col then ?cell col else cell_shown (view S) i col) [0, 1, 2]"
      using i D(2) by (simp add: row_cells_def repaint_def cell_shown_def)
    have "(Repaint (LayoutChanged [(i, 0)]) \<in> set ps) = (Repaint (LayoutChanged [(i, 0)]) \<in> set (posted S)) \<or> (\<forall>col. viewReads Q s i col)"
      if "view_laws Q"
      using that assms(2) by (cases "s = LayoutChanged [(i, 0)]") (auto simp: view_laws_def)
    from row_repainted [OF t(2) [unfolded row_in_def row_cells_def] cells_read [OF assms(1) i t(1)] this]
    have "row_in Q ?S' i t" unfolding row_in_def rest posted cells by blast
    with t(1) show "\<exists>t. txs S ! i = (int (Suc i), Inr t) \<and> row_in Q ?S' i t" by blast
  qed (use D in simp_all)
qed

lemma txs_grow: "system_event Q ev S = Some (Inr S') \<Longrightarrow> length (txs S) \<le> length (txs S')"
proof (cases ev)
  case Turn
  moreover have "length (txs S) \<le> length (txs (gui_event Q p (S\<lparr>posted := ps\<rparr>)))" for p ps
    by (cases p) (auto simp: Let_def on_client_connected_def repaint_def split: prod.splits sum.splits)
  moreover assume "system_event Q ev S = Some (Inr S')"
  ultimately show ?thesis by (auto split: list.splits)
qed (auto simp: Let_def split: if_splits option.splits sum.splits prod.splits)

lemma system_table: "system_reachable Q r \<Longrightarrow> r = Inr S \<Longrightarrow> length (txs S) < 2 ^ 31 \<Longrightarrow> table_inv Q S"
proof (induction arbitrary: S rule: system_reachable.induct)
  case (created n)
  with table_new [of Q n] show ?case by simp
next
  case (happened S0 ev r)
  from happened.hyps(1) obtain cs ks where apart: "apart Q cs ks S0" using system_apart by blast
  have good: "\<exists>c. tx_inv Q c t" if "i < length (txs S0)" "txs S0 ! i = (tx, Inr t)" for i tx t
    using apartD(7) [OF apart that(1)] that(2) reachable_inv by fastforce
  have ev: "system_event Q ev S0 = Some (Inr S)" using happened.hyps(2) happened.prems(1) by simp
  then have inv: "table_inv Q S0" using happened.IH txs_grow happened.prems(2) by fastforce
  show ?case
  proof (cases ev)
    case (Accept ec c)
    with table_accept [OF inv] ev show ?thesis by blast
  next
    case Terminate
    with inv ev show ?thesis by (auto simp: table_inv_def row_in_def row_cells_def)
  next
    case (Completion i x)
    with table_completion [OF inv] ev good show ?thesis by (cases x) blast
  next
    case Turn
    with ev obtain p ps where p: "posted S0 = p # ps" "S = gui_event Q p (S0\<lparr>posted := ps\<rparr>)"
      by (auto split: list.splits)
    show ?thesis
    proof (cases p)
      case (Established c)
      then have "length (txs S) = Suc (length (txs S0))"
        using p(2) by (simp add: Let_def on_client_connected_def)
      with table_established [OF inv] p happened.prems(2) Established show ?thesis by simp
    next
      case (Updated i)
      with table_updated [OF inv] p show ?thesis by simp
    next
      case (Repaint s)
      with table_repainted [OF inv] p show ?thesis by simp
    qed
  qed
qed

section \<open>A session\<close>

text \<open>Two clients; the first has its exchange while the second one sends the start of a request and goes away.\<close>

definition session :: "SystemEvent list" where
  "session = [Accept no_error 0, Accept no_error 5, Turn, Turn, Completion 1 (0, ReadDone no_error (take 9 get_bytes))] @
     map (Completion 0) full_run @ replicate 10 Turn @ [Completion 1 (0, ReadDone asio_eof [])] @ replicate 10 Turn"

definition peek :: "(Transaction \<Rightarrow> 'a) \<Rightarrow> int \<times> Transaction outcome \<Rightarrow> int \<times> 'a option" where
  "peek g p = (fst p, case snd p of Inl e \<Rightarrow> None | Inr t \<Rightarrow> Some (g t))"

lemma peek_Some: "peek g p = (tx, Some y) \<longleftrightarrow> (\<exists>t. p = (tx, Inr t) \<and> g t = y)"
  by (cases p; cases "snd p") (auto simp: peek_def)

definition seen :: "System \<Rightarrow> QVariant list list \<times> Posted list \<times> (int \<times> bool option) list" where
  "seen S = (view S, posted S, map (peek announced_end) (txs S))"

lemma session_seen:
  "map_option (map_sum id seen) (system_run ascii_qt session (Inr (System_new 8))) =
     Some (Inr ([[StringValue (latin1 ''GET''), StringValue (latin1 ''200 OK''), StringValue (latin1 ''/'')],
       [StringValue (latin1 ''GET''), StringValue (latin1 ''0 ''), StringValue (latin1 ''/'')]], [], [(1, Some True), (2, Some True)]))"
  by code_simp

lemma run_shows: "map_option (map_sum id f) r = Some (Inr y) \<Longrightarrow> (\<And>S. r = Some (Inr S) \<Longrightarrow> f S = y \<Longrightarrow> thesis) \<Longrightarrow> thesis"
  by (cases r; cases "the r") auto

lemma session_run:
  "\<exists>S t u. system_run ascii_qt session (Inr (System_new 8)) = Some (Inr S) \<and> system_reachable ascii_qt (Inr S) \<and>
     posted S = [] \<and> txs S = [(1, Inr t), (2, Inr u)] \<and> announced_end t"
proof -
  from session_seen obtain S where run: "system_run ascii_qt session (Inr (System_new 8)) = Some (Inr S)"
    and seen: "seen S = ([[StringValue (latin1 ''GET''), StringValue (latin1 ''200 OK''), StringValue (latin1 ''/'')],
       [StringValue (latin1 ''GET''), StringValue (latin1 ''0 ''), StringValue (latin1 ''/'')]], [], [(1, Some True), (2, Some True)])"
    by (rule run_shows)
  from seen have S: "posted S = []" "map (peek announced_end) (txs S) = [(1, Some True), (2, Some True)]"
    by (simp_all add: seen_def)
  from S(2) obtain t u where "txs S = [(1, Inr t), (2, Inr u)]" "announced_end t"
    by (auto simp: map_eq_Cons_conv peek_Some)
  with S(1) run system_run_reachable [OF run system_reachable.created] show ?thesis by (intro exI [of _ S]) simp
qed

section \<open>Properties\<close>

text \<open>C11: transactions run side by side without a trace of each other. In every state the program can reach, under any
  interleaving of accepts, answers and turns of the window's thread, the transactions are those of the accepted clients, in
  order; each is in a state that it can reach on its own; no two have touched the same connection; and if the
  process ends, it ends inside a step of one transaction, as that transaction would alone.\<close>

theorem transactions_isolated:
  assumes "system_reachable Q r"
  shows "case r of
      Inl e \<Rightarrow> \<exists>c. reachable Q c (Inl e)
    | Inr S \<Rightarrow> \<exists>cs. established (sys_server S) = cs @ waiting (posted S) \<and> length cs = length (txs S) \<and>
        (\<forall>i < length cs. \<exists>tx t. txs S ! i = (tx, Inr t) \<and> reachable Q (cs ! i) (Inr t) \<and>
           (\<forall>j < i. \<exists>tx' t'. txs S ! j = (tx', Inr t') \<and> touched (trace t) \<inter> touched (trace t') = {}))"
proof (cases r)
  case (Inl e)
  with assms obtain S ev where S: "system_reachable Q (Inr S)" "system_event Q ev S = Some (Inl e)"
    by (auto elim: system_reachable.cases)
  from system_apart [OF S(1) refl] obtain cs ks where apart: "apart Q cs ks S" by blast
  from S(2) obtain i x tx t where i: "i < length (txs S)" "txs S ! i = (tx, Inr t)" "answer_nth Q x t = Some (Inl e)"
    by (cases "(Q, ev, S)" rule: system_event.cases)
      (auto simp: Let_def split: if_splits option.splits sum.splits prod.splits list.splits)
  with apartD(7) [OF apart i(1)] have "reachable Q (cs ! i) (Inl e)"
    by (auto intro: reachable.stepped answer_nth_step)
  with Inl show ?thesis by auto
next
  case (Inr S)
  from system_apart [OF assms Inr] obtain cs ks where apart: "apart Q cs ks S" by blast
  note D = apartD [OF apart]
  have "\<exists>tx t. txs S ! i = (tx, Inr t) \<and> reachable Q (cs ! i) (Inr t) \<and>
      (\<forall>j < i. \<exists>tx' t'. txs S ! j = (tx', Inr t') \<and> touched (trace t) \<inter> touched (trace t') = {})" if "i < length cs" for i
  proof -
    from that D(2) have i: "i < length (txs S)" by simp
    from D(7) [OF i] obtain tx t where t: "txs S ! i = (tx, Inr t)" "reachable Q (cs ! i) (Inr t)" "touched (trace t) \<subseteq> ks ! i"
      by blast
    have "\<exists>tx' t'. txs S ! j = (tx', Inr t') \<and> touched (trace t) \<inter> touched (trace t') = {}" if "j < i" for j
    proof -
      from that i have j: "j < length (txs S)" by simp
      from D(7) [OF j] obtain tx' t' where "txs S ! j = (tx', Inr t')" "touched (trace t') \<subseteq> ks ! j" by blast
      with D(8) [OF i j] that t(3) show ?thesis by blast
    qed
    with t show ?thesis by blast
  qed
  with Inr D(1,2) show ?thesis by auto
qed

lemma transactions_isolated_witness:
  "\<exists>S t u c d. system_run ascii_qt session (Inr (System_new 8)) = Some (Inr S) \<and> txs S = [(1, Inr t), (2, Inr u)] \<and>
     reachable ascii_qt c (Inr t) \<and> reachable ascii_qt d (Inr u) \<and> touched (trace u) \<inter> touched (trace t) = {}"
proof -
  from session_run obtain S t u where S: "system_run ascii_qt session (Inr (System_new 8)) = Some (Inr S)"
    "system_reachable ascii_qt (Inr S)" "txs S = [(1, Inr t), (2, Inr u)]" by blast
  from transactions_isolated [OF S(2)] obtain cs where cs: "length cs = length (txs S)"
    "\<forall>i < length cs. \<exists>tx v. txs S ! i = (tx, Inr v) \<and> reachable ascii_qt (cs ! i) (Inr v) \<and>
       (\<forall>j < i. \<exists>tx' w. txs S ! j = (tx', Inr w) \<and> touched (trace v) \<inter> touched (trace w) = {})" by auto
  from cs(1) S(3) have "0 < length cs" "1 < length cs" by simp_all
  with cs(2) [rule_format, of 0] cs(2) [rule_format, of 1] S(3)
  have "reachable ascii_qt (cs ! 0) (Inr t)" "reachable ascii_qt (cs ! 1) (Inr u)" "touched (trace u) \<inter> touched (trace t) = {}"
    by auto
  with S show ?thesis by blast
qed



text \<open>And what the table is not told: no update of a row is posted while the request is read, while the host is opened and until the
  head of the response has arrived; and none of a tunnel until the tunnel fails.\<close>

lemma rows_untold:
  assumes "system_reachable Q (Inr S)" "length (txs S) < 2 ^ 31" "i < length (txs S)"
    and "txs S ! i = (tx, Inr t)" "set (pending t) \<inter> {ReadRequest, OpenRemote, SendRequest} \<noteq> {} \<or>
      remote t \<noteq> None \<and> msg_method (request t) = latin1 ''CONNECT''"
  shows "Updated i \<notin> set (posted S)"
proof -
  from system_apart [OF assms(1) refl] obtain cs ks where "apart Q cs ks S" by blast
  from apartD(7) [OF this assms(3)] assms(4) reachable_inv obtain c where "tx_inv Q c t" by fastforce
  then have "signals (trace t) = [on_transaction_start]"
    using assms(5) unfolding tx_inv_def
    by (elim disjE exE)
      (auto simp: alive_def sigs_def news_def ns_order reading_request_def opening_remote_def opening_tunnel_def failed_early_def
        sending_request_def reading_response_def sending_response_def completed_def tunneling_def two_way_def tunnel_closed_def
        replying_def released_def aimed_def tunnel_aimed_def relayed_def)
  moreover have "table_inv Q S" using system_table assms(1,2) by blast
  ultimately show ?thesis using table_invD(4) [OF _ assms(3)] assms(4) by (fastforce simp: row_in_def row_ok_def)
qed

end
