(* ===== verification/TransactionFile.thy ===== *)
theory TransactionFile
  imports Transaction
begin

text \<open>
  \<open>app/TransactionFile.cpp\<close>: a file of saved transactions, an SQLite database with three tables.

  QtSql and SQLite are not code of the repository. Each call the code makes is a constructor of \<open>SqlCall\<close>;
  an argument tells which of them succeed and which ids the \<open>RETURNING\<close> clauses give. Of SQLite the model
  has the primary keys of the schema, that nothing takes effect before a commit, that a transaction
  cannot begin inside another one, and that some failures make SQLite roll a transaction back by itself.

  The messages belong to a transaction that worker threads may still change. Each call of an accessor is an \<open>Access\<close> with a
  state of the transaction of its own: the one it reads.
\<close>

section \<open>The database\<close>

record MessageRow =
  message_id :: int
  message_tx :: int
  is_request :: bool
  row_method :: "qstring option"
  row_uri :: "qstring option"
  row_status :: "int option"
  row_status_message :: "qstring option"
  row_major :: int
  row_minor :: int
  row_body :: bytes

record HeaderRow =
  of_message :: int
  field_name :: qstring
  field_value :: qstring

record Database =
  tx_table :: "int list"
  messages_table :: "MessageRow list"
  headers_table :: "HeaderRow list"

definition empty_database :: Database where
  "empty_database = \<lparr>tx_table = [], messages_table = [], headers_table = []\<rparr>"

datatype SqlCall =
    BeginTransaction
  | PrepareTx | ExecTx
  | PrepareRequest | ExecRequest | NextRequest | PrepareRequestHeaders | ExecRequestHeaders
  | PrepareResponse | ExecResponse | NextResponse | PrepareResponseHeaders | ExecResponseHeaders
  | CommitTransaction | RollbackTransaction

record Driver =
  succeeds :: "SqlCall \<Rightarrow> bool"
  auto_rollback :: bool
  request_row_id :: int
  response_row_id :: int

text \<open>\<open>QVariant::toInt\<close> of a 64-bit id keeps its low 32 bits.\<close>

definition variant_toInt :: "int \<Rightarrow> int" where
  "variant_toInt i = sint (word_of_int i :: 32 word)"

section \<open>What is read of the transaction\<close>

text \<open>The accesses of one save, in the order of the code; the values of the header names are read one name after the other.\<close>

datatype Access =
    RequestMethod | RequestUri | RequestMajor | RequestMinor | RequestBody | RequestNames | RequestValues nat
  | ResponseStatus | ResponseStatusMessage | ResponseMajor | ResponseMinor | ResponseBody | ResponseNames | ResponseValues nat

type_synonym Reads = "Access \<Rightarrow> Transaction"

section \<open>Statements\<close>

text \<open>Each statement is prepared and executed; \<open>None\<close> is the branch that logs, rolls back and returns.\<close>

definition insert_tx :: "Driver \<Rightarrow> int \<Rightarrow> Database \<Rightarrow> Database option" where
  "insert_tx d txid db =
     (if \<not> succeeds d PrepareTx then None
      else if \<not> (succeeds d ExecTx \<and> txid \<notin> set (tx_table db)) then None
      else Some (db\<lparr>tx_table := tx_table db @ [txid]\<rparr>))"

definition insert_message :: "Driver \<Rightarrow> SqlCall \<Rightarrow> SqlCall \<Rightarrow> SqlCall \<Rightarrow> MessageRow \<Rightarrow> Database \<Rightarrow> (int \<times> Database) option" where
  "insert_message d prepare exec next r db =
     (if \<not> succeeds d prepare then None
      else if \<not> (succeeds d exec \<and> message_id r \<notin> message_id ` set (messages_table db)) then None
      else if \<not> succeeds d next then None
      else Some (variant_toInt (message_id r), db\<lparr>messages_table := messages_table db @ [r]\<rparr>))"

definition request_row :: "Driver \<Rightarrow> int \<Rightarrow> Reads \<Rightarrow> MessageRow" where
  "request_row d txid t = \<lparr>message_id = request_row_id d, message_tx = txid, is_request = True,
     row_method = Some (msg_method (request (t RequestMethod))), row_uri = Some (msg_uri (request (t RequestUri))),
     row_status = None, row_status_message = None,
     row_major = msg_major_version (request (t RequestMajor)), row_minor = msg_minor_version (request (t RequestMinor)),
     row_body = msg_body (request (t RequestBody))\<rparr>"

definition response_row :: "Driver \<Rightarrow> int \<Rightarrow> Reads \<Rightarrow> MessageRow" where
  "response_row d txid t = \<lparr>message_id = response_row_id d, message_tx = txid, is_request = False,
     row_method = None, row_uri = None, row_status = Some (msg_status_code (response (t ResponseStatus))),
     row_status_message = Some (msg_status_message (response (t ResponseStatusMessage))),
     row_major = Response_major_version (response (t ResponseMajor)), row_minor = Response_minor_version (response (t ResponseMinor)),
     row_body = msg_body (response (t ResponseBody))\<rparr>"

text \<open>The nested loops that collect the columns of the batch insert: the names as they are when the loop starts, and for each name
  the values of a later moment, that of its own \<open>find_by_name\<close>.\<close>

definition header_rows :: "qt \<Rightarrow> int \<Rightarrow> Headers \<Rightarrow> (nat \<Rightarrow> Headers) \<Rightarrow> HeaderRow list" where
  "header_rows Q mid hs now = concat (map (\<lambda>(k, name).
     map (\<lambda>value. \<lparr>of_message = mid, field_name = name, field_value = value\<rparr>) (find_by_name Q (now k) name))
     (enumerate 0 (names hs)))"

definition request_header_rows :: "qt \<Rightarrow> int \<Rightarrow> Reads \<Rightarrow> HeaderRow list" where
  "request_header_rows Q mid t =
     header_rows Q mid (msg_headers (request (t RequestNames))) (\<lambda>k. msg_headers (request (t (RequestValues k))))"

definition response_header_rows :: "qt \<Rightarrow> int \<Rightarrow> Reads \<Rightarrow> HeaderRow list" where
  "response_header_rows Q mid t =
     header_rows Q mid (msg_headers (response (t ResponseNames))) (\<lambda>k. msg_headers (response (t (ResponseValues k))))"

definition insert_headers :: "Driver \<Rightarrow> SqlCall \<Rightarrow> SqlCall \<Rightarrow> HeaderRow list \<Rightarrow> Database \<Rightarrow> Database option" where
  "insert_headers d prepare exec rows db =
     (if \<not> succeeds d prepare then None
      else if \<not> succeeds d exec then None
      else Some (db\<lparr>headers_table := headers_table db @ rows\<rparr>))"

definition save_request :: "qt \<Rightarrow> Driver \<Rightarrow> int \<Rightarrow> Reads \<Rightarrow> Database \<Rightarrow> Database option" where
  "save_request Q d txid t db =
     Option.bind (insert_message d PrepareRequest ExecRequest NextRequest (request_row d txid t) db) (\<lambda>(requestId, db).
       insert_headers d PrepareRequestHeaders ExecRequestHeaders (request_header_rows Q requestId t) db)"

definition save_response :: "qt \<Rightarrow> Driver \<Rightarrow> int \<Rightarrow> Reads \<Rightarrow> Database \<Rightarrow> Database option" where
  "save_response Q d txid t db =
     Option.bind (insert_message d PrepareResponse ExecResponse NextResponse (response_row d txid t) db) (\<lambda>(responseId, db).
       insert_headers d PrepareResponseHeaders ExecResponseHeaders (response_header_rows Q responseId t) db)"

definition save_rows :: "qt \<Rightarrow> Driver \<Rightarrow> int \<Rightarrow> Reads \<Rightarrow> Database \<Rightarrow> Database option" where
  "save_rows Q d txid t db =
     Option.bind (insert_tx d txid db) (\<lambda>db.
     Option.bind (save_request Q d txid t db) (\<lambda>db. save_response Q d txid t db))"

section \<open>The file\<close>

text \<open>What is committed, and whether a transaction was left open.\<close>

record TransactionFile =
  db_open :: bool
  committed_db :: Database
  in_transaction :: bool

definition TransactionFile_new :: "bool \<Rightarrow> bool \<Rightarrow> Database \<Rightarrow> TransactionFile" where
  "TransactionFile_new driver_available opens db =
     \<lparr>db_open = (driver_available \<and> opens), committed_db = db, in_transaction = False\<rparr>"

text \<open>A failed commit is logged only: unless SQLite has rolled it back by itself, the transaction stays open. After the failure of a
  statement it stays open only when the rollback fails, too.\<close>

definition addTransaction :: "qt \<Rightarrow> Driver \<Rightarrow> int \<Rightarrow> Reads \<Rightarrow> TransactionFile \<Rightarrow> TransactionFile" where
  "addTransaction Q d txid t f =
     (if \<not> (db_open f \<and> \<not> in_transaction f \<and> succeeds d BeginTransaction) then f
      else case save_rows Q d txid t (committed_db f) of
          None \<Rightarrow> f\<lparr>in_transaction := \<not> (succeeds d RollbackTransaction \<or> auto_rollback d)\<rparr>
        | Some db \<Rightarrow>
            if succeeds d CommitTransaction then f\<lparr>committed_db := db\<rparr>
            else f\<lparr>in_transaction := \<not> auto_rollback d\<rparr>)"

section \<open>What a save does\<close>

definition saved :: "qt \<Rightarrow> Driver \<Rightarrow> int \<Rightarrow> Reads \<Rightarrow> Database \<Rightarrow> Database" where
  "saved Q d txid t db = \<lparr>tx_table = tx_table db @ [txid],
     messages_table = messages_table db @ [request_row d txid t, response_row d txid t],
     headers_table = headers_table db @ request_header_rows Q (variant_toInt (request_row_id d)) t @
       response_header_rows Q (variant_toInt (response_row_id d)) t\<rparr>"

text \<open>The keys a save adds are new.\<close>

definition fresh_keys :: "Driver \<Rightarrow> int \<Rightarrow> Database \<Rightarrow> bool" where
  "fresh_keys d txid db \<longleftrightarrow> txid \<notin> set (tx_table db) \<and> request_row_id d \<noteq> response_row_id d \<and>
     {request_row_id d, response_row_id d} \<inter> message_id ` set (messages_table db) = {}"

definition all_succeed :: "Driver \<Rightarrow> bool" where
  "all_succeed d \<longleftrightarrow> list_all (succeeds d) [BeginTransaction, PrepareTx, ExecTx, PrepareRequest, ExecRequest, NextRequest,
     PrepareRequestHeaders, ExecRequestHeaders, PrepareResponse, ExecResponse, NextResponse, PrepareResponseHeaders,
     ExecResponseHeaders, CommitTransaction]"

lemmas save_defs = save_rows_def insert_tx_def save_request_def save_response_def insert_message_def insert_headers_def

lemma save_rows_eq:
  "save_rows Q d txid t db =
     (if list_all (succeeds d) [PrepareTx, ExecTx, PrepareRequest, ExecRequest, NextRequest, PrepareRequestHeaders,
          ExecRequestHeaders, PrepareResponse, ExecResponse, NextResponse, PrepareResponseHeaders, ExecResponseHeaders] \<and>
         fresh_keys d txid db
      then Some (saved Q d txid t db) else None)"
  by (auto simp: save_defs fresh_keys_def saved_def request_row_def response_row_def)

lemma addTransaction_eq:
  "db_open f \<Longrightarrow> \<not> in_transaction f \<Longrightarrow> committed_db (addTransaction Q d txid t f) =
     (if all_succeed d \<and> fresh_keys d txid (committed_db f) then saved Q d txid t (committed_db f) else committed_db f)"
  by (auto simp: addTransaction_def save_rows_eq all_succeed_def)

lemma addTransaction_blocked:
  "\<not> db_open f \<or> in_transaction f \<Longrightarrow> addTransaction Q d txid t f = f"
  by (auto simp: addTransaction_def)

section \<open>Consistent files\<close>

text \<open>The columns of a row fit what it stands for.\<close>

fun row_typed :: "MessageRow \<Rightarrow> bool" where
  "row_typed r = (if is_request r
     then row_method r \<noteq> None \<and> row_uri r \<noteq> None \<and> row_status r = None \<and> row_status_message r = None
     else row_method r = None \<and> row_uri r = None \<and> row_status r \<noteq> None \<and> row_status_message r \<noteq> None)"

text \<open>
  Keys are unique, every saved transaction has its request and its response, in this order, and header
  rows belong to messages. The schema has no foreign keys: only the code keeps this.
\<close>

definition file_wf :: "Database \<Rightarrow> bool" where
  "file_wf db \<longleftrightarrow> distinct (tx_table db) \<and> distinct (map message_id (messages_table db)) \<and>
     map (\<lambda>r. (message_tx r, is_request r)) (messages_table db) = concat (map (\<lambda>i. [(i, True), (i, False)]) (tx_table db)) \<and>
     list_all row_typed (messages_table db) \<and>
     of_message ` set (headers_table db) \<subseteq> variant_toInt ` message_id ` set (messages_table db)"

lemma file_wf_empty: "file_wf empty_database"
  by (simp add: file_wf_def empty_database_def)

lemma header_rows_message: "h \<in> set (header_rows Q mid hs now) \<Longrightarrow> of_message h = mid"
  by (auto simp: header_rows_def)

lemmas message_header_rows = request_header_rows_def response_header_rows_def

text \<open>What a message that does not change has for its names.\<close>

lemma header_rows_still: "header_rows Q mid hs (\<lambda>_. hs) = concat (map (\<lambda>name.
    map (\<lambda>value. \<lparr>of_message = mid, field_name = name, field_value = value\<rparr>) (find_by_name Q hs name)) (names hs))"
proof -
  have "map (f \<circ> snd) (enumerate 0 xs) = map f xs" for f :: "qstring \<Rightarrow> HeaderRow list" and xs
    by (simp only: map_map [symmetric] map_snd_enumerate)
  from this [of "\<lambda>name. map (\<lambda>value. \<lparr>of_message = mid, field_name = name, field_value = value\<rparr>) (find_by_name Q hs name)" "names hs"]
  show ?thesis by (simp add: header_rows_def comp_def case_prod_beta')
qed

lemma message_txs:
  assumes "file_wf db"
  shows "message_tx ` set (messages_table db) = set (tx_table db)"
proof -
  from assms have "map fst (map (\<lambda>r. (message_tx r, is_request r)) (messages_table db)) =
      map fst (concat (map (\<lambda>i. [(i, True), (i, False)]) (tx_table db)))" by (simp add: file_wf_def)
  then have "set (map message_tx (messages_table db)) = set (map fst (concat (map (\<lambda>i. [(i, True), (i, False)]) (tx_table db))))"
    by (simp add: comp_def)
  then show ?thesis by force
qed

lemma file_wf_saved:
  assumes "file_wf db" "fresh_keys d txid db"
  shows "file_wf (saved Q d txid t db)"
  using assms
  by (auto simp: file_wf_def fresh_keys_def saved_def request_row_def response_row_def message_header_rows dest!: header_rows_message)

text \<open>A series of saves.\<close>

definition saves :: "qt \<Rightarrow> (Driver \<times> int \<times> Reads) list \<Rightarrow> TransactionFile \<Rightarrow> TransactionFile" where
  "saves Q xs f = fold (\<lambda>(d, txid, t). addTransaction Q d txid t) xs f"

lemma saves_simps [simp]:
  "saves Q [] f = f" "saves Q ((d, i, t) # xs) f = saves Q xs (addTransaction Q d i t f)"
  by (simp_all add: saves_def)

lemma addTransaction_cases:
  "committed_db (addTransaction Q d txid t f) =
     (if db_open f \<and> \<not> in_transaction f \<and> all_succeed d \<and> fresh_keys d txid (committed_db f)
      then saved Q d txid t (committed_db f) else committed_db f)"
  using addTransaction_eq addTransaction_blocked by (metis (full_types))

lemma addTransaction_db_open: "db_open (addTransaction Q d txid t f) = db_open f"
  by (simp add: addTransaction_def split: option.split)

text \<open>A save whose calls all succeed leaves no transaction open, taken keys included, as long as the rollback works.\<close>

lemma addTransaction_in_transaction:
  "all_succeed d \<Longrightarrow> succeeds d RollbackTransaction \<Longrightarrow> \<not> in_transaction f \<Longrightarrow> \<not> in_transaction (addTransaction Q d txid t f)"
  by (simp add: addTransaction_def all_succeed_def split: option.split)

lemma saves_wf: "file_wf (committed_db f) \<Longrightarrow> file_wf (committed_db (saves Q xs f))"
proof (induction xs arbitrary: f)
  case (Cons x xs)
  then show ?case by (cases x) (auto simp: addTransaction_cases intro!: Cons.IH file_wf_saved)
qed simp

lemma saves_blocked: "in_transaction f \<Longrightarrow> saves Q xs f = f"
  by (induction xs) (auto simp: addTransaction_blocked)

text \<open>Ids that survive \<open>toInt\<close>.\<close>

lemma variant_toInt_id: "0 \<le> i \<Longrightarrow> i < 2 ^ 31 \<Longrightarrow> variant_toInt i = i"
  by (simp add: variant_toInt_def signed_of_int signed_take_bit_int_eq_self)

section \<open>Reading a file back\<close>

definition stored_values :: "int \<Rightarrow> qstring \<Rightarrow> Database \<Rightarrow> qstring list" where
  "stored_values mid n db =
     map field_value (filter (\<lambda>h. of_message h = mid \<and> field_name h = n) (headers_table db))"

lemma stored_rows:
  assumes "distinct (names hs)" "n \<in> set (names hs) \<or> find_by_name Q hs n = []"
  shows "map field_value (filter (\<lambda>h. of_message h = mid \<and> field_name h = n) (header_rows Q mid hs (\<lambda>_. hs))) = find_by_name Q hs n"
proof -
  have "map field_value (filter (\<lambda>h. of_message h = mid \<and> field_name h = n)
      (concat (map (\<lambda>name. map (\<lambda>value. \<lparr>of_message = mid, field_name = name, field_value = value\<rparr>) (find_by_name Q hs name)) xs)))
      = (if n \<in> set xs then find_by_name Q hs n else [])" if "distinct xs" for xs
    using that by (induction xs) (auto simp: filter_empty_conv comp_def)
  from this [OF assms(1)] assms(2) show ?thesis by (auto simp: header_rows_still)
qed

lemma stored_rows_other:
  "(\<forall>h \<in> set rows. of_message h \<noteq> mid) \<Longrightarrow>
   map field_value (filter (\<lambda>h. of_message h = mid \<and> field_name h = n) rows) = []"
  by (auto simp: filter_empty_conv)

text \<open>Header collections filled with fields whose names are ASCII, as the parser fills them.\<close>

definition ascii_headers :: "qt \<Rightarrow> Headers \<Rightarrow> bool" where
  "ascii_headers Q h \<longleftrightarrow>
     (\<exists>kvs. list_all (\<lambda>(n, v). list_all ascii n) kvs \<and> h = fold (\<lambda>(n, v). insert Q (latin1 n) v) kvs Headers_new)"

lemma canonical_twice:
  "qt_laws Q \<Longrightarrow> list_all ascii n \<Longrightarrow> canonicalize Q (canonicalize Q (latin1 n)) = canonicalize Q (latin1 n)"
  by simp

lemma stored_ascii:
  assumes "qt_laws Q" "list_all ascii n" "ascii_headers Q hs"
  shows "map field_value (filter (\<lambda>h. of_message h = mid \<and> field_name h = canonicalize Q (latin1 n)) (header_rows Q mid hs (\<lambda>_. hs))) =
    find_by_name Q hs (latin1 n)"
proof -
  let ?n = "canonicalize Q (latin1 n)"
  from assms(3) obtain kvs where "hs = fold (\<lambda>(n, v). insert Q (latin1 n) v) kvs Headers_new" by (auto simp: ascii_headers_def)
  then have hs: "hs = fold (\<lambda>(n, v). insert Q n v) (map (\<lambda>(n, v). (latin1 n, v)) kvs) Headers_new"
    by (simp add: fold_map comp_def case_prod_beta')
  have wf: "headers_wf hs" unfolding hs by (intro hdr.inv_fold hdr.inv_new)
  have look: "find_by_name Q hs ?n = find_by_name Q hs (latin1 n)"
    using canonical_twice [OF assms(1,2)] by (simp add: find_by_name_def)
  have "?n \<in> set (names hs) \<or> find_by_name Q hs ?n = []"
    using hdr.find_iff_names [OF wf, of Q "latin1 n"] unfolding look by blast
  from stored_rows [OF hdr.names_distinct [OF wf] this] look show ?thesis by simp
qed

section \<open>Properties\<close>

text \<open>C21: saving is atomic: whatever call of the database fails, the committed file either stays as it was or
  gets the transaction, its request, its response and all their header rows; it gets them exactly when
  every call succeeds and the keys are new.\<close>

theorem save_atomic:
  "committed_db (addTransaction Q d txid t f) =
     (if db_open f \<and> \<not> in_transaction f \<and> all_succeed d \<and> fresh_keys d txid (committed_db f)
      then \<lparr>tx_table = tx_table (committed_db f) @ [txid],
        messages_table = messages_table (committed_db f) @ [request_row d txid t, response_row d txid t],
        headers_table = headers_table (committed_db f) @ request_header_rows Q (variant_toInt (request_row_id d)) t @
          response_header_rows Q (variant_toInt (response_row_id d)) t\<rparr>
      else committed_db f)"
  by (simp add: addTransaction_cases saved_def)


definition good_driver :: "int \<Rightarrow> int \<Rightarrow> Driver" where
  "good_driver i j = \<lparr>succeeds = (\<lambda>_. True), auto_rollback = False, request_row_id = i, response_row_id = j\<rparr>"

lemma good_driver_succeeds [simp]: "all_succeed (good_driver i j)"
  by (simp add: good_driver_def all_succeed_def)

lemma good_driver_rollback [simp]: "succeeds (good_driver i j) RollbackTransaction"
  by (simp add: good_driver_def)

lemma good_driver_ids: "request_row_id (good_driver i j) = i" "response_row_id (good_driver i j) = j"
  by (simp_all add: good_driver_def)


text \<open>C22: what was saved can be read back. Saving a transaction that no longer changes to a consistent file, where every call
  succeeds, the keys are new and all message ids are below 2^31, leaves a file in which the rows of the transaction are
  its request and its response, in this order, and in which the stored values of a header with an ASCII name are those the message
  has for it, in the same order, as long as all its fields have ASCII names; except that the minor version of the response is
  stored as its major version.\<close>

theorem saved_transaction_readable:
  assumes "qt_laws Q" and "list_all ascii n" and "ascii_headers Q (msg_headers (request t))" and "ascii_headers Q (msg_headers (response t))"
    and "db_open f" and "\<not> in_transaction f" and "all_succeed d" and "file_wf (committed_db f)"
    and "fresh_keys d txid (committed_db f)"
    and "\<forall>i \<in> {request_row_id d, response_row_id d} \<union> message_id ` set (messages_table (committed_db f)). 0 \<le> i \<and> i < 2 ^ 31"
  shows "let db = committed_db (addTransaction Q d txid (\<lambda>_. t) f); q = request t; p = response t in
    filter (\<lambda>r. message_tx r = txid) (messages_table db) =
      [\<lparr>message_id = request_row_id d, message_tx = txid, is_request = True, row_method = Some (msg_method q),
         row_uri = Some (msg_uri q), row_status = None, row_status_message = None, row_major = msg_major_version q,
         row_minor = msg_minor_version q, row_body = msg_body q\<rparr>,
       \<lparr>message_id = response_row_id d, message_tx = txid, is_request = False, row_method = None, row_uri = None,
         row_status = Some (msg_status_code p), row_status_message = Some (msg_status_message p), row_major = msg_major_version p,
         row_minor = msg_major_version p, row_body = msg_body p\<rparr>] \<and>
    stored_values (request_row_id d) (canonicalize Q (latin1 n)) db = find_by_name Q (msg_headers q) (latin1 n) \<and>
    stored_values (response_row_id d) (canonicalize Q (latin1 n)) db = find_by_name Q (msg_headers p) (latin1 n)"
proof -
  let ?q = "request_row_id d" and ?p = "response_row_id d" and ?db = "committed_db f"
  have db: "committed_db (addTransaction Q d txid (\<lambda>_. t) f) = saved Q d txid (\<lambda>_. t) ?db"
    using assms(5-7,9) by (simp add: addTransaction_eq)
  have ids: "variant_toInt ?q = ?q" "variant_toInt ?p = ?p" "?q \<noteq> ?p"
    using assms(9,10) by (auto simp: fresh_keys_def intro!: variant_toInt_id)
  have "\<forall>r \<in> set (messages_table ?db). variant_toInt (message_id r) = message_id r"
    using assms(10) by (auto intro!: variant_toInt_id)
  then have "of_message ` set (headers_table ?db) \<subseteq> message_id ` set (messages_table ?db)"
    using assms(8) by (auto simp: file_wf_def)
  then have old: "\<forall>h \<in> set (headers_table ?db). of_message h \<noteq> ?q \<and> of_message h \<noteq> ?p"
    using assms(9) unfolding fresh_keys_def by (metis disjoint_insert(1) imageI inf_commute insertI1 subsetD)
  have other: "\<forall>h \<in> set (header_rows Q ?q hs now). of_message h \<noteq> ?p" "\<forall>h \<in> set (header_rows Q ?p hs now). of_message h \<noteq> ?q" for hs now
    using ids(3) by (auto dest: header_rows_message)
  have "filter (\<lambda>r. message_tx r = txid) (messages_table ?db) = []"
    using assms(9) by (force simp: fresh_keys_def filter_empty_conv message_txs [OF assms(8), symmetric])
  then show ?thesis
    using stored_rows_other [of "headers_table ?db"] old stored_rows_other [OF other(1)] stored_rows_other [OF other(2)]
      stored_ascii [OF assms(1,2,3), of ?q] stored_ascii [OF assms(1,2,4), of ?p]
    by (simp add: db saved_def stored_values_def ids request_row_def response_row_def message_header_rows Let_def
        Response_major_version_def Response_minor_version_def)
qed

lemma saved_transaction_readable_witness:
  "stored_values 1 (canonicalize ascii_qt (latin1 ''HOST''))
     (committed_db (addTransaction ascii_qt (good_driver 1 2) 7
        (\<lambda>_. (Transaction_new None)\<lparr>request := HttpMessage_new\<lparr>msg_headers := insert ascii_qt (latin1 ''host'') (latin1 ''a'') Headers_new\<rparr>\<rparr>)
        (TransactionFile_new True True empty_database))) = [latin1 ''a'']"
proof -
  let ?h = "insert ascii_qt (latin1 ''host'') (latin1 ''a'') Headers_new"
  let ?t = "(Transaction_new None)\<lparr>request := HttpMessage_new\<lparr>msg_headers := ?h\<rparr>\<rparr>"
  let ?f = "TransactionFile_new True True empty_database"
  have n: "list_all ascii ''HOST''" by (simp add: ascii_def)
  have "ascii_headers ascii_qt ?h"
    unfolding ascii_headers_def by (intro exI [of _ "[(''host'', latin1 ''a'')]"]) (simp add: ascii_def)
  then have req: "ascii_headers ascii_qt (msg_headers (request ?t))" by simp
  have resp: "ascii_headers ascii_qt (msg_headers (response ?t))"
    unfolding ascii_headers_def by (intro exI [of _ "[]"]) (simp add: Transaction_new_def HttpMessage_new_def)
  have f: "db_open ?f" "\<not> in_transaction ?f" "file_wf (committed_db ?f)" "fresh_keys (good_driver 1 2) 7 (committed_db ?f)"
    by (simp_all add: TransactionFile_new_def file_wf_empty) (simp add: fresh_keys_def good_driver_def empty_database_def)
  have range: "\<forall>i \<in> {request_row_id (good_driver 1 2), response_row_id (good_driver 1 2)} \<union>
      message_id ` set (messages_table (committed_db ?f)). 0 \<le> i \<and> i < 2 ^ 31"
    by (simp add: good_driver_def TransactionFile_new_def empty_database_def)
  have look: "find_by_name ascii_qt ?h (latin1 ''HOST'') = [latin1 ''a'']" by code_simp
  from saved_transaction_readable [OF ascii_qt_laws n req resp f(1,2) good_driver_succeeds f(3,4) range] look
  show ?thesis by (simp add: good_driver_def Let_def)
qed

text \<open>A commit that fails, and that SQLite does not roll back by itself, ends the saving: the database transaction stays open,
  beginning another one fails, and of everything saved afterwards nothing is committed.\<close>

lemma failed_commit_blocks:
  assumes "\<not> succeeds d CommitTransaction" "\<not> auto_rollback d" "succeeds d BeginTransaction" "db_open f"
    and "save_rows Q d txid t (committed_db f) \<noteq> None"
  shows "committed_db (saves Q ((d, txid, t) # xs) f) = committed_db f"
  using assms saves_blocked [of "f\<lparr>in_transaction := True\<rparr>" Q xs] saves_blocked [of f Q xs]
  by (auto simp: addTransaction_def)

end
