(* ===== verification/MainWindow.thy ===== *)
theory MainWindow
  imports TransactionModel TransactionFile Server
begin

text \<open>
  \<open>app/MainWindow.cpp\<close>: saving the table of transactions to a file, and what the window, the table, the proxy and the
  file give together. Dialogs, menus and the file system are not code of the repository: what the user
  chose, the contents of the files and whether a removal works are arguments.
\<close>

section \<open>Reading the table\<close>

text \<open>\<open>QAbstractTableModel::index\<close>: valid inside the table.\<close>

definition table_index :: "nat \<Rightarrow> int \<Rightarrow> TransactionModel \<Rightarrow> QModelIndex" where
  "table_index r c m = \<lparr>isValid = (r < length (transactions m) \<and> 0 \<le> c \<and> c < 3), row = r, column = c\<rparr>"

definition root_index :: QModelIndex where
  "root_index = \<lparr>isValid = False, row = 0, column = 0\<rparr>"

definition transaction_at :: "QModelIndex \<Rightarrow> TransactionModel \<Rightarrow> int option" where
  "transaction_at index m = (if \<not> isValid index then None else Some (transactions m ! row index))"

section \<open>Saving\<close>

text \<open>The user's answers and the system's: the documents directory, the file chosen, whether an old file can be
  removed, whether the SQLite driver is there and the file can be opened, and the database's answers for
  each row.\<close>

record SaveDialog =
  documentsDir :: qstring
  fileName :: qstring
  removal_works :: bool
  driver_available :: bool
  file_opens :: bool
  drivers :: "nat \<Rightarrow> Driver"

type_synonym files = "qstring \<rightharpoonup> Database"

text \<open>The rows handed to \<open>addTransaction\<close>, with what each access to a transaction reads. A null transaction would be dereferenced;
  the loop never meets one.\<close>

definition saved_rows :: "(int \<Rightarrow> Reads) \<Rightarrow> (nat \<Rightarrow> Driver) \<Rightarrow> TransactionModel \<Rightarrow> (Driver \<times> int \<times> Reads) list" where
  "saved_rows tx_of ds m = concat (map (\<lambda>ix. case transaction_at (table_index ix 0 m) m of
       None \<Rightarrow> []
     | Some tx \<Rightarrow> [(ds ix, tx, tx_of tx)]) [0..<rowCount root_index m])"

definition saveTransactionFile :: "qt \<Rightarrow> SaveDialog \<Rightarrow> (int \<Rightarrow> Reads) \<Rightarrow> TransactionModel \<Rightarrow> files \<Rightarrow> files" where
  "saveTransactionFile Q dlg tx_of m fs =
     (if documentsDir dlg = [] then fs
      else if fileName dlg = [] then fs
      else
        let fs = (if fs (fileName dlg) \<noteq> None \<and> removal_works dlg then fs(fileName dlg := None) else fs);
            old = (case fs (fileName dlg) of None \<Rightarrow> empty_database | Some db \<Rightarrow> db);
            file = saves Q (saved_rows tx_of (drivers dlg) m)
              (TransactionFile_new (driver_available dlg) (file_opens dlg) old)
        in if db_open file then fs(fileName dlg \<mapsto> committed_db file) else fs)"

lemma saved_rows_eq:
  "saved_rows tx_of ds m = map (\<lambda>ix. (ds ix, transactions m ! ix, tx_of (transactions m ! ix))) [0..<length (transactions m)]"
proof -
  have "concat (map (\<lambda>ix. case transaction_at (table_index ix 0 m) m of None \<Rightarrow> [] | Some tx \<Rightarrow> [(ds ix, tx, tx_of tx)]) xs) =
      map (\<lambda>ix. (ds ix, transactions m ! ix, tx_of (transactions m ! ix))) xs" if "\<forall>ix \<in> set xs. ix < length (transactions m)" for xs
    using that by (induction xs) (auto simp: transaction_at_def table_index_def)
  then show ?thesis by (simp add: saved_rows_def rowCount_def root_index_def)
qed

text \<open>Saves whose calls succeed and whose keys are new all take effect.\<close>

definition row_ids :: "Driver \<times> int \<times> Reads \<Rightarrow> int list" where
  "row_ids x = [request_row_id (fst x), response_row_id (fst x)]"

lemma saves_all:
  "db_open f \<Longrightarrow> \<not> in_transaction f \<Longrightarrow> \<forall>x \<in> set xs. all_succeed (fst x) \<and> succeeds (fst x) RollbackTransaction \<Longrightarrow>
   distinct (tx_table (committed_db f) @ map (fst \<circ> snd) xs) \<Longrightarrow>
   distinct (map message_id (messages_table (committed_db f)) @ concat (map row_ids xs)) \<Longrightarrow>
   committed_db (saves Q xs f) = fold (\<lambda>(d, i, t). saved Q d i t) xs (committed_db f)"
proof (induction xs arbitrary: f)
  case (Cons x xs)
  obtain d i t where x: "x = (d, i, t)" by (cases x) auto
  let ?f = "addTransaction Q d i t f"
  have ids: "row_ids x = [request_row_id d, response_row_id d]" by (simp add: x row_ids_def)
  have fresh: "fresh_keys d i (committed_db f)"
    using Cons.prems(4,5) by (auto simp: x fresh_keys_def row_ids_def)
  then have db: "committed_db ?f = saved Q d i t (committed_db f)"
    using Cons.prems by (simp add: addTransaction_cases x)
  have "db_open ?f" "\<not> in_transaction ?f"
    using Cons.prems by (simp_all add: addTransaction_db_open addTransaction_in_transaction x)
  moreover have "\<forall>x \<in> set xs. all_succeed (fst x) \<and> succeeds (fst x) RollbackTransaction"
    using Cons.prems(3) by simp
  moreover have "distinct (tx_table (committed_db ?f) @ map (fst \<circ> snd) xs)"
    using Cons.prems(4) by (simp add: db saved_def x comp_def)
  moreover have "distinct (map message_id (messages_table (committed_db ?f)) @ concat (map row_ids xs))"
    using Cons.prems(5) ids by (simp add: db saved_def request_row_def response_row_def)
  ultimately have "committed_db (saves Q xs ?f) = fold (\<lambda>(d, i, t). saved Q d i t) xs (committed_db ?f)"
    by (rule Cons.IH)
  then show ?case by (simp add: x db)
qed simp

lemma saved_tables:
  "tx_table (fold (\<lambda>(d, i, t). saved Q d i t) xs db) = tx_table db @ map (fst \<circ> snd) xs"
  "messages_table (fold (\<lambda>(d, i, t). saved Q d i t) xs db) =
     messages_table db @ concat (map (\<lambda>(d, i, t). [request_row d i t, response_row d i t]) xs)"
  "headers_table (fold (\<lambda>(d, i, t). saved Q d i t) xs db) = headers_table db @ concat (map (\<lambda>(d, i, t).
     request_header_rows Q (variant_toInt (request_row_id d)) t @ response_header_rows Q (variant_toInt (response_row_id d)) t) xs)"
  by (induction xs arbitrary: db) (auto simp: saved_def)

lemma saves_db_open: "db_open (saves Q xs f) = db_open f"
proof (induction xs arbitrary: f)
  case (Cons x xs)
  then show ?case by (cases x) (simp add: addTransaction_db_open)
qed simp

text \<open>The dialog's answers that let everything be saved: \<open>n\<close> rows with keys of their own.\<close>

definition smooth :: "nat \<Rightarrow> SaveDialog \<Rightarrow> bool" where
  "smooth n dlg \<longleftrightarrow> documentsDir dlg \<noteq> [] \<and> fileName dlg \<noteq> [] \<and> removal_works dlg \<and> driver_available dlg \<and>
     file_opens dlg \<and> list_all (\<lambda>ix. all_succeed (drivers dlg ix) \<and> succeeds (drivers dlg ix) RollbackTransaction) [0..<n] \<and>
     distinct (concat (map (\<lambda>ix. [request_row_id (drivers dlg ix), response_row_id (drivers dlg ix)]) [0..<n]))"

lemma saved_table:
  assumes "distinct (transactions m)" "smooth (length (transactions m)) dlg"
  shows "\<exists>db. saveTransactionFile Q dlg tx_of m fs = fs(fileName dlg \<mapsto> db) \<and> tx_table db = transactions m \<and>
    messages_table db = concat (map (\<lambda>ix. let tx = transactions m ! ix in
      [request_row (drivers dlg ix) tx (tx_of tx), response_row (drivers dlg ix) tx (tx_of tx)]) [0..<length (transactions m)]) \<and>
    headers_table db = concat (map (\<lambda>ix. let tx = transactions m ! ix in
      request_header_rows Q (variant_toInt (request_row_id (drivers dlg ix))) (tx_of tx) @
      response_header_rows Q (variant_toInt (response_row_id (drivers dlg ix))) (tx_of tx)) [0..<length (transactions m)])"
proof -
  let ?xs = "saved_rows tx_of (drivers dlg) m" and ?f = "TransactionFile_new True True empty_database"
  have ids: "map (fst \<circ> snd) ?xs = transactions m"
    by (simp add: saved_rows_eq comp_def map_nth)
  have rows: "concat (map row_ids ?xs) = concat (map (\<lambda>ix. [request_row_id (drivers dlg ix), response_row_id (drivers dlg ix)]) [0..<length (transactions m)])"
    by (simp add: saved_rows_eq row_ids_def comp_def)
  have db: "committed_db (saves Q ?xs ?f) = fold (\<lambda>(d, i, t). saved Q d i t) ?xs empty_database"
  proof -
    have "committed_db (saves Q ?xs ?f) = fold (\<lambda>(d, i, t). saved Q d i t) ?xs (committed_db ?f)"
    proof (rule saves_all)
      show "\<forall>x \<in> set ?xs. all_succeed (fst x) \<and> succeeds (fst x) RollbackTransaction"
        using assms(2) by (auto simp: saved_rows_eq smooth_def list_all_iff)
      show "distinct (map message_id (messages_table (committed_db ?f)) @ concat (map row_ids ?xs))"
        using assms(2) by (simp add: rows smooth_def TransactionFile_new_def empty_database_def)
      show "distinct (tx_table (committed_db ?f) @ map (fst \<circ> snd) ?xs)"
        using assms(1) by (simp add: ids TransactionFile_new_def empty_database_def)
    qed (simp_all add: TransactionFile_new_def)
    then show ?thesis by (simp add: TransactionFile_new_def)
  qed
  have "db_open (saves Q ?xs ?f)" by (simp add: saves_db_open TransactionFile_new_def)
  then have "saveTransactionFile Q dlg tx_of m fs = fs(fileName dlg \<mapsto> committed_db (saves Q ?xs ?f))"
    using assms(2) by (auto simp: saveTransactionFile_def smooth_def Let_def)
  moreover have "tx_table (fold (\<lambda>(d, i, t). saved Q d i t) ?xs empty_database) = transactions m"
    by (simp add: saved_tables ids empty_database_def)
  moreover have "messages_table (fold (\<lambda>(d, i, t). saved Q d i t) ?xs empty_database) = concat (map (\<lambda>ix. let tx = transactions m ! ix in
      [request_row (drivers dlg ix) tx (tx_of tx), response_row (drivers dlg ix) tx (tx_of tx)]) [0..<length (transactions m)])"
    unfolding saved_tables by (simp add: saved_rows_eq comp_def Let_def empty_database_def)
  moreover have "headers_table (fold (\<lambda>(d, i, t). saved Q d i t) ?xs empty_database) = concat (map (\<lambda>ix. let tx = transactions m ! ix in
      request_header_rows Q (variant_toInt (request_row_id (drivers dlg ix))) (tx_of tx) @
      response_header_rows Q (variant_toInt (response_row_id (drivers dlg ix))) (tx_of tx)) [0..<length (transactions m)])"
    unfolding saved_tables by (simp add: saved_rows_eq comp_def Let_def empty_database_def)
  ultimately show ?thesis unfolding db by blast
qed

section \<open>The table of a running proxy\<close>

text \<open>The rows of the table once the given clients have connected: each transaction is announced when it starts.\<close>

definition table_of :: "Proxy \<Rightarrow> TransactionModel" where
  "table_of p = fold (\<lambda>(i, _). transactionStarted i) (started p) TransactionModel_new"

lemma table_ids: "transactions (fold (\<lambda>(i, _). transactionStarted i) xs m) = transactions m @ map fst xs"
  by (induction xs arbitrary: m) (auto simp: transactionStarted_def)

lemma table_of_clients:
  assumes "length cs < 2 ^ 31 - 1"
  shows "transactions (table_of (fold on_client_connected cs Proxy_new)) = map int [1..<Suc (length cs)]"
proof -
  have "map fst (started (fold on_client_connected cs Proxy_new)) = map int [1..<Suc (length cs)]"
    using started_ids [of Proxy_new 1 cs] assms
    by (auto simp: Proxy_new_def sint_small simp del: upt_Suc intro!: map_cong)
  then show ?thesis by (simp add: table_of_def table_ids TransactionModel_new_def)
qed

section \<open>Properties\<close>

text \<open>From the clients to the file: with the clients \<open>cs\<close> connected, the table has their transactions in the
  order they came, under ids from 1 on, in ascending order as the table's search needs; and when nothing
  fails, saving replaces the chosen file by one with exactly these transactions, in this order, each with its
  request and its response, whatever the file held before.\<close>

theorem table_saved:
  assumes "length cs < 2 ^ 31 - 1" and "smooth (length cs) dlg"
    and "m = table_of (fold on_client_connected cs Proxy_new)"
  shows "sorted_wrt (<) (transactions m) \<and>
    (\<exists>db. saveTransactionFile Q dlg tx_of m fs = fs(fileName dlg \<mapsto> db) \<and> tx_table db = map int [1..<Suc (length cs)] \<and>
      messages_table db = concat (map (\<lambda>ix. [request_row (drivers dlg ix) (int (Suc ix)) (tx_of (int (Suc ix))),
        response_row (drivers dlg ix) (int (Suc ix)) (tx_of (int (Suc ix)))]) [0..<length cs]))"
proof -
  have m: "transactions m = map int [1..<Suc (length cs)]" using table_of_clients [OF assms(1)] assms(3) by simp
  then have sorted: "sorted_wrt (<) (transactions m)" by (simp add: sorted_wrt_map del: upt_Suc)
  then have "distinct (transactions m)" by (simp add: strict_sorted_iff)
  moreover have len: "length (transactions m) = length cs" by (simp add: m del: upt_Suc)
  moreover have "transactions m ! ix = int (Suc ix)" if "ix < length cs" for ix
    using that by (simp add: m del: upt_Suc)
  then have "concat (map (\<lambda>ix. let tx = transactions m ! ix in
      [request_row (drivers dlg ix) tx (tx_of tx), response_row (drivers dlg ix) tx (tx_of tx)])
      [0..<length cs]) = concat (map (\<lambda>ix. [request_row (drivers dlg ix) (int (Suc ix)) (tx_of (int (Suc ix))),
        response_row (drivers dlg ix) (int (Suc ix)) (tx_of (int (Suc ix)))]) [0..<length cs])"
    by (intro arg_cong [of _ _ concat] map_cong) (simp_all add: Let_def)
  ultimately show ?thesis using saved_table [of m dlg Q tx_of fs] assms(2) sorted m by auto
qed

definition example_dialog :: SaveDialog where
  "example_dialog = \<lparr>documentsDir = latin1 ''d'', fileName = latin1 ''f'', removal_works = True, driver_available = True,
     file_opens = True, drivers = (\<lambda>ix. good_driver (2 * int ix + 1) (2 * int ix + 2))\<rparr>"

lemma table_saved_witness:
  "\<exists>db. saveTransactionFile ascii_qt example_dialog (\<lambda>_ _. Transaction_new None)
      (table_of (fold on_client_connected [4, 2] Proxy_new)) Map.empty (latin1 ''f'') = Some db \<and> tx_table db = [1, 2]"
proof -
  have "smooth (length [4, 2 :: nat]) example_dialog"
    by (simp add: smooth_def example_dialog_def good_driver_ids)
  from table_saved [OF _ this refl, of ascii_qt "\<lambda>_ _. Transaction_new None" Map.empty]
  show ?thesis by (auto simp: example_dialog_def upt_rec)
qed

end
