(* ===== verification/Session.thy ===== *)
theory Session
  imports System MainWindow
begin

text \<open>
  Saving the table of the running program: \<open>app/MainWindow.cpp\<close> over everything that feeds the table. The window's thread
  writes one row after the other, while the worker threads go on with the transactions: each access to a transaction reads the
  state it is in by then, and no turn of the window's event loop comes in between. One access is taken to be undisturbed.
\<close>

section \<open>While the window's thread is busy\<close>

definition while_saving :: "qt \<Rightarrow> (nat \<Rightarrow> System) \<Rightarrow> bool" where
  "while_saving Q Ss \<longleftrightarrow> (\<forall>i. \<exists>evs. Turn \<notin> set evs \<and> system_run Q evs (Inr (Ss i)) = Some (Inr (Ss (Suc i))))"

text \<open>The access \<open>a\<close> to the transaction of row \<open>i\<close>, which has the id \<open>i + 1\<close>, happens when the program is in state \<open>Ss (at i a)\<close>.\<close>

definition save_session :: "qt \<Rightarrow> SaveDialog \<Rightarrow> (nat \<Rightarrow> System) \<Rightarrow> (nat \<Rightarrow> Access \<Rightarrow> nat) \<Rightarrow> files \<Rightarrow> files" where
  "save_session Q dlg Ss at fs =
     saveTransactionFile Q dlg (\<lambda>tx a. tx_of (Ss (at (nat (tx - 1)) a)) tx) (sys_table (Ss 0)) fs"

lemma established_more: "\<exists>cs. established (server_event (Accepted ec c) s) = established s @ cs"
  using established_grows [of ec c s] by auto

lemma busy_event:
  "system_event Q ev S = Some (Inr S') \<Longrightarrow> ev \<noteq> Turn \<Longrightarrow>
   length (txs S') = length (txs S) \<and> (\<exists>cs. established (sys_server S') = established (sys_server S) @ cs)"
  using established_more
  by (cases ev) (auto simp: Let_def on_termination_signal_def simp del: server_event.simps split: if_splits option.splits sum.splits prod.splits)

text \<open>A transaction without operations under way is not touched any more.\<close>

lemma busy_idle:
  assumes "system_event Q ev S = Some (Inr S')" "ev \<noteq> Turn" "i < length (txs S)" "txs S ! i = (tx, Inr t)" "pending t = []"
  shows "txs S' ! i = (tx, Inr t)"
proof (cases ev)
  case (Completion j x)
  have "answer_nth Q x t = None" using assms(5) by (cases x) (simp add: answer_nth_def)
  with assms Completion show ?thesis
    by (cases x; cases "j = i") (auto split: if_splits option.splits sum.splits prod.splits)
qed (use assms in \<open>auto simp: Let_def split: if_splits\<close>)

lemma busy_run:
  "system_run Q evs r = Some r' \<Longrightarrow> r = Inr S \<Longrightarrow> r' = Inr S' \<Longrightarrow> Turn \<notin> set evs \<Longrightarrow>
   length (txs S') = length (txs S) \<and> (\<exists>cs. established (sys_server S') = established (sys_server S) @ cs) \<and>
   (\<forall>i < length (txs S). \<forall>tx t. txs S ! i = (tx, Inr t) \<and> pending t = [] \<longrightarrow> txs S' ! i = (tx, Inr t))"
proof (induction Q evs r arbitrary: S rule: system_run.induct)
  case (3 Q ev evs S0)
  then obtain r1 where r1: "system_event Q ev S = Some r1" "system_run Q evs r1 = Some r'" by (auto split: option.splits)
  then obtain S1 where S1: "r1 = Inr S1" using "3.prems"(3) by (cases r1; cases evs) auto
  have ev: "system_event Q ev S = Some (Inr S1)" "ev \<noteq> Turn" using r1(1) S1 "3.prems"(2,4) by auto
  have ih: "length (txs S') = length (txs S1)" "\<exists>cs. established (sys_server S') = established (sys_server S1) @ cs"
    "\<forall>i < length (txs S1). \<forall>tx t. txs S1 ! i = (tx, Inr t) \<and> pending t = [] \<longrightarrow> txs S' ! i = (tx, Inr t)"
    using "3.IH" [OF _ _ S1 "3.prems"(3)] r1 "3.prems"(2,4) by auto
  have "txs S' ! i = (tx, Inr t)" if "i < length (txs S)" "txs S ! i = (tx, Inr t)" "pending t = []" for i tx t
    using busy_idle [OF ev that] ih(3) busy_event [OF ev] that(1,3) by auto
  with busy_event [OF ev] ih(1,2) show ?case by auto
qed simp_all

lemma saving_states:
  assumes "system_reachable Q (Inr (Ss 0))" "while_saving Q Ss"
  shows "system_reachable Q (Inr (Ss i)) \<and> length (txs (Ss i)) = length (txs (Ss 0)) \<and>
    (\<exists>cs. established (sys_server (Ss i)) = established (sys_server (Ss 0)) @ cs)"
proof (induction i)
  case (Suc i)
  from assms(2) obtain evs where "Turn \<notin> set evs" "system_run Q evs (Inr (Ss i)) = Some (Inr (Ss (Suc i)))"
    unfolding while_saving_def by blast
  with Suc busy_run [OF this(2) refl refl this(1)] system_run_reachable [OF this(2)] show ?case by auto
qed (use assms in simp)

lemma idle_stays:
  assumes "system_reachable Q (Inr (Ss 0))" "while_saving Q Ss" "m \<le> n" "i < length (txs (Ss 0))"
    and "txs (Ss m) ! i = (tx, Inr t)" "pending t = []"
  shows "txs (Ss n) ! i = (tx, Inr t)"
  using assms(3)
proof (induction rule: dec_induct)
  case (step k)
  from assms(2) obtain evs where "Turn \<notin> set evs" "system_run Q evs (Inr (Ss k)) = Some (Inr (Ss (Suc k)))"
    unfolding while_saving_def by blast
  from busy_run [OF this(2) refl refl this(1)] saving_states [OF assms(1,2), of k] step.IH assms(4,6) show ?case by simp
qed (use assms(5) in simp)

text \<open>The transaction of a row.\<close>

lemma row_transaction:
  assumes "system_reachable Q (Inr S)" "length (txs S) < 2 ^ 31" "i < length (txs S)"
  shows "\<exists>t. txs S ! i = (int (Suc i), Inr t) \<and> tx_of S (int (Suc i)) = t \<and>
    reachable Q (established (sys_server S) ! i) (Inr t)"
proof -
  have inv: "table_inv Q S" using system_table assms(1,2) by blast
  from table_invD(4) [OF inv] have ids: "\<And>j. j < length (txs S) \<Longrightarrow> fst (txs S ! j) = int (Suc j)" by fastforce
  then have "map fst (txs S) = map (int \<circ> Suc) [0..<length (txs S)]" by (intro nth_equalityI) simp_all
  then have distinct: "distinct (map fst (txs S))" by (simp add: distinct_map inj_on_def)
  from table_invD(4) [OF inv assms(3)] obtain t where t: "txs S ! i = (int (Suc i), Inr t)" by blast
  then have "(int (Suc i), Inr t) \<in> set (txs S)" using assms(3) by (metis nth_mem)
  with distinct have "tx_of S (int (Suc i)) = t" by (simp add: tx_of_def)
  moreover from system_apart [OF assms(1) refl] obtain cs ks where apart: "apart Q cs ks S" by blast
  from apartD(7) [OF apart assms(3)] t have "reachable Q (cs ! i) (Inr t)" by auto
  moreover have "established (sys_server S) ! i = cs ! i"
    using apartD(1,2) [OF apart] assms(3) by (simp add: nth_append)
  ultimately show ?thesis using t by simp
qed

lemma completed_outcome:
  assumes "reachable Q c (Inr t)" "client t = None" "notification_state t = ResponseComplete"
  shows "pending t = [] \<and> (\<exists>d. parsed_request Q (received c (trace t)) t \<and> parsed_response Q (received d (trace t)) t \<and>
    written c (trace t) = received d (trace t))"
  using reachable_inv [OF assms(1)] assms(2,3) unfolding tx_inv_def
  by (elim disjE exE)
    (auto simp: reading_request_def opening_remote_def opening_tunnel_def failed_early_def sending_request_def
      reading_response_def sending_response_def relayed_def completed_def tunneling_def tunnel_closed_def replying_def
      alive_def released_def ns_order)

section \<open>Properties\<close>

text \<open>C20: from the network to the file. In whatever state of the program the user saves, and whatever the network does while the
  rows are written: when every dialog is answered, the old file can be removed and every call of the database succeeds with ids of its
  own (\<open>smooth\<close>), and fewer than 2^31 clients have come, the chosen file is replaced by one with exactly the transactions of the
  clients so far, in the order they came. Every column of the two rows of each, and its header rows, are read from states that
  transaction can reach on its own, each column and each header name from the state at the time of that access. All of them are
  one state if nothing is under way for the transaction when it is first read; and if its exchange is complete by then, the
  messages of that state are those spelled by the bytes its client and its host sent, the latter being the bytes the client
  got. Two things are not stored as they are: the minor version of a response, for which the major version is stored, and
  message ids from 2^31 on in header rows (\<open>variant_toInt\<close>).\<close>

theorem session_saved:
  assumes "system_reachable Q (Inr (Ss 0))" and "while_saving Q Ss" and "\<forall>i a. at i RequestMethod \<le> at i a"
    and "length (txs (Ss 0)) < 2 ^ 31" and "smooth (length (txs (Ss 0))) dlg"
  shows "\<exists>db ts. save_session Q dlg Ss at fs = fs(fileName dlg \<mapsto> db) \<and>
    tx_table db = map int [1..<Suc (length (txs (Ss 0)))] \<and>
    messages_table db = concat (map (\<lambda>i. [request_row (drivers dlg i) (int (Suc i)) (ts i),
      response_row (drivers dlg i) (int (Suc i)) (ts i)]) [0..<length (txs (Ss 0))]) \<and>
    headers_table db = concat (map (\<lambda>i. request_header_rows Q (variant_toInt (request_row_id (drivers dlg i))) (ts i) @
      response_header_rows Q (variant_toInt (response_row_id (drivers dlg i))) (ts i)) [0..<length (txs (Ss 0))]) \<and>
    (\<forall>i < length (txs (Ss 0)). let c = established (sys_server (Ss 0)) ! i; t = ts i RequestMethod in
       (\<forall>a. txs (Ss (at i a)) ! i = (int (Suc i), Inr (ts i a)) \<and> reachable Q c (Inr (ts i a))) \<and>
       (pending t = [] \<longrightarrow> (\<forall>a. ts i a = t)) \<and>
       (client t = None \<and> notification_state t = ResponseComplete \<longrightarrow> pending t = [] \<and>
          (\<exists>d. parsed_request Q (received c (trace t)) t \<and> parsed_response Q (received d (trace t)) t \<and>
             written c (trace t) = received d (trace t))))"
proof -
  let ?n = "length (txs (Ss 0))" and ?tx_of = "\<lambda>tx a. tx_of (Ss (at (nat (tx - 1)) a)) tx" and ?m = "sys_table (Ss 0)"
  let ?ts = "\<lambda>i a. tx_of (Ss (at i a)) (int (Suc i))"
  from system_table assms(1,4) have "table_inv Q (Ss 0)" by blast
  from table_invD(2) [OF this] have m: "transactions ?m = map (int \<circ> Suc) [0..<?n]" .
  then have m': "transactions ?m ! i = int (Suc i)" if "i < ?n" for i using that by simp
  have ts: "?tx_of (int (Suc i)) = ?ts i" for i by (rule ext) simp
  have "distinct (transactions ?m)" using m by (simp add: distinct_map inj_on_def)
  with saved_table [of ?m dlg Q ?tx_of fs] assms(5) m obtain db where
    db: "save_session Q dlg Ss at fs = fs(fileName dlg \<mapsto> db)" "tx_table db = transactions ?m"
      "messages_table db = concat (map (\<lambda>i. let tx = transactions ?m ! i in
        [request_row (drivers dlg i) tx (?tx_of tx), response_row (drivers dlg i) tx (?tx_of tx)]) [0..<?n])"
      "headers_table db = concat (map (\<lambda>i. let tx = transactions ?m ! i in
        request_header_rows Q (variant_toInt (request_row_id (drivers dlg i))) (?tx_of tx) @
        response_header_rows Q (variant_toInt (response_row_id (drivers dlg i))) (?tx_of tx)) [0..<?n])"
    unfolding save_session_def by auto
  have messages: "messages_table db = concat (map (\<lambda>i. [request_row (drivers dlg i) (int (Suc i)) (?ts i),
      response_row (drivers dlg i) (int (Suc i)) (?ts i)]) [0..<?n])"
    unfolding db(3) by (intro arg_cong [of _ _ concat] map_cong) (simp_all only: Let_def m' ts set_upt atLeastLessThan_iff)
  have headers: "headers_table db = concat (map (\<lambda>i. request_header_rows Q (variant_toInt (request_row_id (drivers dlg i))) (?ts i) @
      response_header_rows Q (variant_toInt (response_row_id (drivers dlg i))) (?ts i)) [0..<?n])"
    unfolding db(4) by (intro arg_cong [of _ _ concat] map_cong) (simp_all only: Let_def m' ts set_upt atLeastLessThan_iff)
  have ids: "tx_table db = map int [1..<Suc ?n]"
    unfolding db(2) m by (simp add: map_Suc_upt [symmetric] del: upt_Suc)
  have row: "txs (Ss k) ! i = (int (Suc i), Inr (tx_of (Ss k) (int (Suc i)))) \<and>
      reachable Q (established (sys_server (Ss 0)) ! i) (Inr (tx_of (Ss k) (int (Suc i))))" if i: "i < ?n" for i k
  proof -
    from saving_states [OF assms(1,2), of k] obtain cs where later: "system_reachable Q (Inr (Ss k))"
      "length (txs (Ss k)) = ?n" "established (sys_server (Ss k)) = established (sys_server (Ss 0)) @ cs" by blast
    from row_transaction [OF later(1)] later(2) i assms(4) obtain t where
      t: "txs (Ss k) ! i = (int (Suc i), Inr t)" "tx_of (Ss k) (int (Suc i)) = t"
        "reachable Q (established (sys_server (Ss k)) ! i) (Inr t)" by auto
    from system_apart [OF assms(1) refl] obtain cs' ks where "apart Q cs' ks (Ss 0)" by blast
    from apartD(1,2) [OF this] i later(3) have "established (sys_server (Ss k)) ! i = established (sys_server (Ss 0)) ! i"
      by (simp add: nth_append)
    with t show ?thesis by simp
  qed
  have still: "?ts i a = ?ts i RequestMethod" if "i < ?n" "pending (?ts i RequestMethod) = []" for i a
  proof -
    have "at i RequestMethod \<le> at i a" using assms(3) by blast
    from idle_stays [OF assms(1,2) this that(1) conjunct1 [OF row [OF that(1)]] that(2)] row [OF that(1), of "at i a"]
    show ?thesis by simp
  qed
  show ?thesis
    by (intro exI [of _ db] exI [of _ ?ts] conjI db(1) ids messages headers allI impI, unfold Let_def)
      (use row still completed_outcome in blast)
qed

text \<open>Two clients; the first has gone away when the user saves, the second one sends the start of its request while the first row
  is written, right after the method of the first request has been read.\<close>

definition before_saving :: "SystemEvent list" where
  "before_saving = [Accept no_error 0, Accept no_error 5, Turn, Turn, Completion 0 (0, ReadDone asio_eof [])]"

definition during_saving :: "SystemEvent list" where
  "during_saving = [Completion 1 (0, ReadDone no_error (take 4 get_bytes))]"

lemma session_saved_witness:
  "\<exists>S S' db. system_run ascii_qt before_saving (Inr (System_new 8)) = Some (Inr S) \<and>
     system_run ascii_qt during_saving (Inr S) = Some (Inr S') \<and>
     save_session ascii_qt example_dialog (\<lambda>i. if i = 0 then S else S') (\<lambda>i a. if i = 0 \<and> a = RequestMethod then 0 else 1) Map.empty = [latin1 ''f'' \<mapsto> db] \<and> tx_table db = [1, 2]"
proof -
  have "map_option (map_sum id (\<lambda>S. length (txs S))) (system_run ascii_qt before_saving (Inr (System_new 8))) = Some (Inr 2)"
    by code_simp
  then obtain S where S: "system_run ascii_qt before_saving (Inr (System_new 8)) = Some (Inr S)" "length (txs S) = 2"
    by (rule run_shows)
  have more: "system_run ascii_qt (xs @ ys) r = (case system_run ascii_qt xs r of None \<Rightarrow> None | Some r' \<Rightarrow> system_run ascii_qt ys r')"
    for xs ys r
    by (induction ascii_qt xs r rule: system_run.induct) (auto split: option.splits elim: system_run.elims)
  have "map_option (map_sum id (\<lambda>S. length (txs S))) (system_run ascii_qt (before_saving @ during_saving) (Inr (System_new 8))) =
    Some (Inr 2)" by code_simp
  then obtain S' where "system_run ascii_qt (before_saving @ during_saving) (Inr (System_new 8)) = Some (Inr S')"
    by (rule run_shows)
  with S have S': "system_run ascii_qt during_saving (Inr S) = Some (Inr S')" by (simp add: more)
  let ?Ss = "\<lambda>i :: nat. if i = 0 then S else S'" and ?at = "\<lambda>(i :: nat) a. if i = 0 \<and> a = RequestMethod then 0 else 1 :: nat"
  have "while_saving ascii_qt ?Ss"
    unfolding while_saving_def
  proof
    fix i
    show "\<exists>evs. Turn \<notin> set evs \<and> system_run ascii_qt evs (Inr (?Ss i)) = Some (Inr (?Ss (Suc i)))"
      using S' by (cases i) (auto intro: exI [of _ during_saving] exI [of _ "[]"] simp: during_saving_def simp del: system_event.simps)
  qed
  moreover have "system_reachable ascii_qt (Inr (?Ss 0))"
    using system_run_reachable [OF S(1) system_reachable.created] by simp
  moreover have order: "\<forall>i a. ?at i RequestMethod \<le> ?at i a" by auto
  moreover have "smooth (length (txs (?Ss 0))) example_dialog"
    using S(2) by (simp add: smooth_def example_dialog_def good_driver_ids eval_nat_numeral)
  ultimately obtain db where "save_session ascii_qt example_dialog ?Ss ?at Map.empty = [latin1 ''f'' \<mapsto> db]" "tx_table db = map int [1..<3]"
    using session_saved [of ascii_qt ?Ss ?at example_dialog Map.empty, OF _ _ order] S(2) by (auto simp: example_dialog_def)
  then show ?thesis using S(1) S' by (auto simp: upt_rec)
qed

end
