(* ===== verification/Xpc.thy ===== *)
theory Xpc
  imports Prelude
begin

text \<open>
  The vocabulary of the privileged helper: what \<open>trusty-interface\<close> declares.

  \<^item> XPC objects and dictionaries, as far as the code builds and reads them. Asking a non-dictionary for a
    key gives no value, and asking a non-data object for its length gives 0, as Apple documents.
  \<^item> \<open>ProxyState\<close> with its XPC form (\<open>trusty-interface/src/ProxyState.cpp\<close>).
  \<^item> Messages and their wrapping (\<open>trusty-interface/src/Message.cpp\<close>).
  \<^item> \<open>IService\<close>, the interface of the helper: a record of its four operations, each a state transformer
    that returns or throws.
  \<^item> \<open>RefHolder\<close>, the owner of Core Foundation and XPC references.
\<close>

section \<open>Exceptions\<close>

text \<open>
  The exceptions of the standard library that the code throws, and \<open>Crash\<close>, which is none: a null reference has been
  given to a function of Core Foundation or of the standard library, and the process ends where it stands, without
  running handlers or destructors.
\<close>

datatype exception =
    RuntimeError string | InvalidArgument string | DomainException string | SystemError int
  | Crash

fun what :: "exception \<Rightarrow> string" where
  "what (RuntimeError s) = s"
| "what (InvalidArgument s) = s"
| "what (DomainException s) = s"
| "what (SystemError status) = ''system_error''"
| "what Crash = []"

text \<open>A call leaves a state behind, whether it returns or throws.\<close>

type_synonym ('s, 'a) call = "'s \<Rightarrow> (exception + 'a) \<times> 's"

definition return_call :: "'a \<Rightarrow> ('s, 'a) call" where
  "return_call x s = (Inr x, s)"

definition throw_call :: "exception \<Rightarrow> ('s, 'a) call" where
  "throw_call e s = (Inl e, s)"

definition and_then :: "('s, 'a) call \<Rightarrow> ('a \<Rightarrow> ('s, 'b) call) \<Rightarrow> ('s, 'b) call" where
  "and_then c f s = (case c s of (Inl e, s') \<Rightarrow> (Inl e, s') | (Inr x, s') \<Rightarrow> f x s')"

lemmas call_defs = return_call_def throw_call_def and_then_def

section \<open>XPC objects\<close>

datatype XpcObject =
    XpcNull | XpcBool bool | XpcInt64 "64 word" | XpcUInt64 "64 word" | XpcString bytes | XpcData bytes
  | XpcDictionary "(string \<times> XpcObject) list" | XpcError bytes

definition xpc_get :: "XpcObject \<Rightarrow> string \<Rightarrow> XpcObject option" where
  "xpc_get obj key = (case obj of XpcDictionary d \<Rightarrow> map_of d key | _ \<Rightarrow> None)"

definition xpc_set :: "string \<Rightarrow> XpcObject \<Rightarrow> XpcObject \<Rightarrow> XpcObject" where
  "xpc_set key v obj =
     (case obj of XpcDictionary d \<Rightarrow> XpcDictionary ((key, v) # filter (\<lambda>(k, _). k \<noteq> key) d) | _ \<Rightarrow> obj)"

fun is_dictionary :: "XpcObject \<Rightarrow> bool" where
  "is_dictionary (XpcDictionary d) = True"
| "is_dictionary _ = False"

lemma is_dictionary_set [simp]: "is_dictionary (xpc_set k v obj) = is_dictionary obj"
  by (cases obj) (simp_all add: xpc_set_def)

lemma map_of_filter_key: "map_of (filter (\<lambda>(k, _). k \<noteq> key) d) k' = (if k' = key then None else map_of d k')"
  by (induction d) auto

lemma xpc_get_set [simp]:
  "is_dictionary obj \<Longrightarrow> xpc_get (xpc_set k v obj) k' = (if k' = k then Some v else xpc_get obj k')"
  by (cases obj) (auto simp: xpc_set_def xpc_get_def map_of_filter_key)

text \<open>A \<open>const char*\<close> ends at the first zero byte.\<close>

definition c_str :: "bytes \<Rightarrow> bytes" where
  "c_str s = takeWhile (\<lambda>c. c \<noteq> CHR 0x00) s"

lemma c_str_id [simp]: "CHR 0x00 \<notin> set s \<Longrightarrow> c_str s = s"
  by (auto simp: c_str_def takeWhile_eq_all_conv)

section \<open>ProxyState\<close>

record ProxyState =
  is_enabled :: bool
  get_host :: bytes
  get_port :: int

text \<open>\<open>static_cast<int>\<close> of a 64-bit integer keeps the low 32 bits.\<close>

definition to_int32 :: "64 word \<Rightarrow> int" where
  "to_int32 w = sint (ucast w :: 32 word)"

definition ProxyState_of_xpc :: "XpcObject \<Rightarrow> exception + ProxyState" where
  "ProxyState_of_xpc dict =
     (case (xpc_get dict ''enabled'', xpc_get dict ''host'', xpc_get dict ''port'') of
        (Some maybeEnabled, Some maybeHost, Some maybePort) \<Rightarrow>
          (case (maybeEnabled, maybeHost, maybePort) of
             (XpcBool e, XpcString h, XpcInt64 p) \<Rightarrow> Inr \<lparr>is_enabled = e, get_host = h, get_port = to_int32 p\<rparr>
           | _ \<Rightarrow> Inl (InvalidArgument ''unexpected type for one of enabled, host, or port''))
      | _ \<Rightarrow> Inl (InvalidArgument ''missing one of enabled, host, and/or port''))"

definition to_xpc :: "ProxyState \<Rightarrow> XpcObject" where
  "to_xpc st = xpc_set ''port'' (XpcInt64 (of_int (get_port st)))
     (xpc_set ''host'' (XpcString (c_str (get_host st)))
       (xpc_set ''enabled'' (XpcBool (is_enabled st)) (XpcDictionary [])))"

section \<open>Messages\<close>

datatype MessageType =
    Ack | ErrorMessage | Hello | GetProxyState | SetProxyState | ClearProxySettings | GetToolVersion | Disconnect
  | OtherType "64 word"

fun type_code :: "MessageType \<Rightarrow> 64 word" where
  "type_code Ack = 1"
| "type_code ErrorMessage = 2"
| "type_code Hello = 3"
| "type_code GetProxyState = 4"
| "type_code SetProxyState = 5"
| "type_code ClearProxySettings = 6"
| "type_code GetToolVersion = 7"
| "type_code Disconnect = 255"
| "type_code (OtherType w) = w"

text \<open>\<open>static_cast<MessageType>\<close> of any value of the underlying type.\<close>

definition type_of_code :: "64 word \<Rightarrow> MessageType" where
  "type_of_code w =
     (if w = 1 then Ack else if w = 2 then ErrorMessage else if w = 3 then Hello else if w = 4 then GetProxyState
      else if w = 5 then SetProxyState else if w = 6 then ClearProxySettings else if w = 7 then GetToolVersion
      else if w = 255 then Disconnect else OtherType w)"

definition known_type :: "MessageType \<Rightarrow> bool" where
  "known_type ty \<longleftrightarrow> type_of_code (type_code ty) = ty"

lemma known_types [simp]:
  "known_type Ack" "known_type ErrorMessage" "known_type Hello" "known_type GetProxyState" "known_type SetProxyState"
  "known_type ClearProxySettings" "known_type GetToolVersion" "known_type Disconnect"
  by (simp_all add: known_type_def type_of_code_def)

record IMessage =
  msg_type :: MessageType
  payload :: XpcObject

definition create_message :: "MessageType \<Rightarrow> XpcObject \<Rightarrow> IMessage" where
  "create_message ty obj = \<lparr>msg_type = ty, payload = obj\<rparr>"

definition unwrap :: "XpcObject \<Rightarrow> IMessage option" where
  "unwrap wrapper =
     (if \<not> is_dictionary wrapper then None
      else case xpc_get wrapper ''t'' of
          Some (XpcInt64 ty) \<Rightarrow>
            (case xpc_get wrapper ''p'' of
               None \<Rightarrow> None
             | Some p \<Rightarrow> Some (create_message (type_of_code ty) p))
        | _ \<Rightarrow> None)"

definition wrap_message :: "XpcObject \<Rightarrow> IMessage \<Rightarrow> XpcObject" where
  "wrap_message wrapper m = xpc_set ''p'' (payload m) (xpc_set ''t'' (XpcInt64 (type_code (msg_type m))) wrapper)"

section \<open>IService\<close>

record 's IService =
  get_http_proxy_state :: "('s, ProxyState) call"
  set_http_proxy_state :: "ProxyState \<Rightarrow> ('s, unit) call"
  reset_proxy_settings :: "('s, unit) call"
  get_current_version :: "('s, 32 word) call"

definition kToolVersion :: "32 word" where
  "kToolVersion = 1"

section \<open>RefHolder\<close>

text \<open>
  A holder owns one reference or none; \<open>released\<close> lists the references given back so far.
\<close>

record RefHolder =
  ref :: "nat option"
  released_refs :: "nat list"

definition ref_release :: "nat option \<Rightarrow> RefHolder \<Rightarrow> RefHolder" where
  "ref_release r h = (case r of None \<Rightarrow> h | Some x \<Rightarrow> h\<lparr>released_refs := released_refs h @ [x]\<rparr>)"

definition RefHolder_new :: "nat option \<Rightarrow> RefHolder" where
  "RefHolder_new r = \<lparr>ref = r, released_refs = []\<rparr>"

definition do_release :: "RefHolder \<Rightarrow> RefHolder" where
  "do_release h = ref_release (ref h) (h\<lparr>ref := None\<rparr>)"

definition detach :: "RefHolder \<Rightarrow> nat option \<times> RefHolder" where
  "detach h = (ref h, h\<lparr>ref := None\<rparr>)"

definition attach :: "nat option \<Rightarrow> RefHolder \<Rightarrow> RefHolder" where
  "attach r h = (if r \<noteq> ref h then (ref_release (ref h) h)\<lparr>ref := r\<rparr> else h)"

definition assign_ref :: "nat option \<Rightarrow> RefHolder \<Rightarrow> RefHolder" where
  "assign_ref r h = (do_release h)\<lparr>ref := r\<rparr>"

text \<open>\<open>is_empty\<close> as the traits define it, and the conversion to \<open>bool\<close> built on it.\<close>

definition is_empty_ref :: "nat option \<Rightarrow> bool" where
  "is_empty_ref r \<longleftrightarrow> r \<noteq> None"

definition ref_bool :: "RefHolder \<Rightarrow> bool" where
  "ref_bool h \<longleftrightarrow> \<not> is_empty_ref (ref h)"

section \<open>Properties\<close>

lemma unwrap_wrap:
  "is_dictionary wrapper \<Longrightarrow> known_type (msg_type m) \<Longrightarrow> unwrap (wrap_message wrapper m) = Some m"
  by (cases m) (simp add: unwrap_def wrap_message_def known_type_def create_message_def)

lemma proxy_state_xpc:
  assumes "CHR 0x00 \<notin> set (get_host st)" "- (2 ^ 31) \<le> get_port st" "get_port st < 2 ^ 31"
  shows "ProxyState_of_xpc (to_xpc st) = Inr st"
proof -
  have "to_int32 (of_int (get_port st)) = get_port st"
    using assms(2,3)
    by (simp add: to_int32_def ucast_eq sint_sbintrunc' uint_word_of_int_eq signed_take_bit_take_bit
        signed_take_bit_int_eq_self)
  then show ?thesis
    using assms(1) by (simp add: ProxyState_of_xpc_def to_xpc_def)
qed

text \<open>A message survives the wire: unwrapping what \<open>wrap\<close> put into any dictionary gives the message.\<close>

theorem message_roundtrip:
  assumes "is_dictionary wrapper" and "known_type (msg_type m)"
  shows "unwrap (wrap_message wrapper m) = Some m"
  using assms by (rule unwrap_wrap)

lemma message_roundtrip_witness:
  "unwrap (wrap_message (XpcDictionary [(''t'', XpcNull)]) (create_message SetProxyState (XpcBool True))) =
     Some (create_message SetProxyState (XpcBool True))"
  by (rule message_roundtrip) (simp_all add: create_message_def)

text \<open>A proxy state survives its XPC form, for every port of 32 bits and every host without a zero byte.\<close>

theorem proxy_state_roundtrip:
  assumes "CHR 0x00 \<notin> set (get_host st)" and "- (2 ^ 31) \<le> get_port st" and "get_port st < 2 ^ 31"
  shows "ProxyState_of_xpc (to_xpc st) = Inr st"
  using assms by (rule proxy_state_xpc)

lemma proxy_state_roundtrip_witness:
  "ProxyState_of_xpc (to_xpc \<lparr>is_enabled = True, get_host = ''localhost'', get_port = 9999\<rparr>) =
     Inr \<lparr>is_enabled = True, get_host = ''localhost'', get_port = 9999\<rparr>"
  by (rule proxy_state_roundtrip) simp_all

text \<open>The conversion of a reference holder to \<open>bool\<close> is inverted: it is true exactly for the empty
  holder.\<close>

theorem ref_bool_inverted: "ref_bool (RefHolder_new r) \<longleftrightarrow> r = None"
  by (simp add: ref_bool_def is_empty_ref_def RefHolder_new_def)

end
