(* ===== verification/TrustyService.thy ===== *)
theory TrustyService
  imports Xpc
begin

text \<open>
  \<open>trusty/TrustyService.cpp\<close>: the privileged helper's access to the system's network settings.

  The SystemConfiguration framework is not code of the repository: \<open>Sys\<close> holds the settings it stores (the
  services of the current network set and the configuration of their proxy protocol) and whether each
  of its operations succeeds. Host names are taken to be valid UTF-8, and the keys the code reads to have
  the documented types.
\<close>

section \<open>Host names\<close>

text \<open>\<open>std::isalpha\<close> and \<open>std::isdigit\<close> in the C locale.\<close>

definition host_char :: "char \<Rightarrow> bool" where
  "host_char c \<longleftrightarrow> ascii_letter c \<or> ascii_digit c \<or> c = CHR ''.'' \<or> c = CHR ''-''"

definition is_valid_hostname_or_empty :: "bytes \<Rightarrow> bool" where
  "is_valid_hostname_or_empty s =
     (if s = [] then True
      else if length s \<ge> 254 then False
      else if \<not> ascii_letter (hd s) \<and> \<not> ascii_digit (hd s) then False
      else if length s \<ge> 4 \<and> drop 4 s = ''xn--'' then False
      else list_all host_char s)"

section \<open>Core Foundation values\<close>

text \<open>
  A \<open>CFString\<close> is its UTF-8 bytes and a \<open>CFNumber\<close> an integer; a null reference is \<open>None\<close>. The stored numbers fit
  32 bits.

  The conversion of a string asks \<open>CFStringGetBytes\<close> twice: without a buffer, for the size of the result, and with a buffer
  of that size. The call gets the string, the length of the range and the capacity of the buffer, if there is one; it
  gives the number of characters it converted, the size of the result and what it wrote.
\<close>

definition cfstring_to_string :: "('s \<Rightarrow> nat) \<Rightarrow> ('s \<Rightarrow> nat \<Rightarrow> nat option \<Rightarrow> nat \<times> nat \<times> bytes) \<Rightarrow> 's option \<Rightarrow> bytes" where
  "cfstring_to_string get_length get_bytes obj =
     (case obj of
        None \<Rightarrow> []
      | Some s \<Rightarrow>
          if get_length s = 0 then []
          else case get_bytes s (get_length s) None of (converted, outSize, _) \<Rightarrow>
            if converted = 0 \<or> outSize = 0 then []
            else case get_bytes s (get_length s) (Some outSize) of (converted, _, buffer) \<Rightarrow>
              if converted = 0 then []
              else take outSize (buffer @ replicate (outSize + 1 - length buffer) (CHR 0x00)))"

text \<open>What the documentation of the call promises: both calls convert the same characters, to the bytes \<open>utf8\<close>, and some
  characters are converted whenever there are bytes.\<close>

locale cfstring =
  fixes get_length :: "'s \<Rightarrow> nat" and get_bytes :: "'s \<Rightarrow> nat \<Rightarrow> nat option \<Rightarrow> nat \<times> nat \<times> bytes"
    and utf8 :: "'s \<Rightarrow> bytes"
  assumes no_length: "get_length s = 0 \<Longrightarrow> utf8 s = []"
    and measured: "\<exists>k. get_bytes s (get_length s) None = (k, length (utf8 s), []) \<and> (utf8 s \<noteq> [] \<longrightarrow> k \<noteq> 0)"
    and written: "\<exists>k. get_bytes s (get_length s) (Some (length (utf8 s))) = (k, length (utf8 s), utf8 s) \<and> (utf8 s \<noteq> [] \<longrightarrow> k \<noteq> 0)"
begin

lemma converts: "cfstring_to_string get_length get_bytes (Some s) = utf8 s"
  using no_length [of s] measured [of s] written [of s] by (auto simp: cfstring_to_string_def)

end

text \<open>The calls on strings that are given by their bytes, one character for each as in ASCII.\<close>

definition ascii_get_bytes :: "bytes \<Rightarrow> nat \<Rightarrow> nat option \<Rightarrow> nat \<times> nat \<times> bytes" where
  "ascii_get_bytes s chars capacity =
     (case capacity of
        None \<Rightarrow> (length (take chars s), length (take chars s), [])
      | Some n \<Rightarrow> (length (take n (take chars s)), length (take n (take chars s)), take n (take chars s)))"

interpretation utf8: cfstring length ascii_get_bytes id
  by unfold_locales (auto simp: ascii_get_bytes_def)

definition cfstring_as_std_string :: "bytes option \<Rightarrow> bytes" where
  "cfstring_as_std_string obj = cfstring_to_string length ascii_get_bytes obj"

definition cfnumber_as_int32_t :: "int option \<Rightarrow> int" where
  "cfnumber_as_int32_t obj = (case obj of None \<Rightarrow> 0 | Some v \<Rightarrow> v)"

definition cfnumber_as_bool :: "int option \<Rightarrow> bool" where
  "cfnumber_as_bool obj = (case obj of None \<Rightarrow> False | Some v \<Rightarrow> v \<noteq> 0)"

lemma cf_values [simp]:
  "cfstring_as_std_string (Some h) = h" "cfnumber_as_int32_t (Some p) = p" "cfnumber_as_bool (Some v) = (v \<noteq> 0)"
  by (simp_all add: cfstring_as_std_string_def utf8.converts cfnumber_as_int32_t_def cfnumber_as_bool_def)

section \<open>System settings\<close>

text \<open>
  The stored and the running services, whether a session of the preferences holds their lock, and which calls
  succeed. Locking waits for other processes. Without a session of the preferences \<open>SCNetworkSetCopyCurrent\<close> gets a
  null reference, and gives one; only \<open>set_http_proxy_state\<close> checks that, through its locker. \<open>services_ok\<close> says that the
  session has a current network set with a list of services, and \<open>ipv4_ok\<close> that the dynamic store has the IPv4
  dictionary, which it has not while there is no network. The functions of the framework pass null references on;
  \<open>CFDictionaryGetValue\<close> and \<open>CFArrayGetCount\<close> crash on them.
\<close>

record ProxyConfig =
  http_proxy :: "bytes option"
  http_port :: "int option"
  http_enable :: "int option"
  other_settings :: "(string \<times> bytes) list"

record NetProtocol =
  proto_enabled :: bool
  config :: "ProxyConfig option"

record NetService =
  service_id :: bytes
  proxies :: "NetProtocol option"

record Sys =
  saved :: "NetService list"
  live :: "NetService list"
  primary_service :: "bytes option"
  pref_locked :: bool
  ipv4_ok :: bool
  services_ok :: bool
  prefs_ok :: bool
  lock_ok :: bool
  unlock_ok :: bool
  set_ok :: bool
  commit_ok :: bool
  apply_ok :: bool

definition empty_config :: ProxyConfig where
  "empty_config = \<lparr>http_proxy = None, http_port = None, http_enable = None, other_settings = []\<rparr>"

definition disabled_state :: ProxyState where
  "disabled_state = \<lparr>is_enabled = False, get_host = [], get_port = 0\<rparr>"

definition get_primary_service_id :: "(Sys, bytes) call" where
  "get_primary_service_id sys =
     (if \<not> ipv4_ok sys then throw_call Crash sys
      else case primary_service sys of
        None \<Rightarrow> throw_call (RuntimeError ''no primary network service?'') sys
      | Some p \<Rightarrow> return_call p sys)"

text \<open>The services of the current network set: \<open>CFArrayGetCount\<close> and the array behind it.\<close>

definition copy_services :: "Sys \<Rightarrow> NetService list option" where
  "copy_services sys = (if prefs_ok sys \<and> services_ok sys then Some (saved sys) else None)"

definition array_of :: "NetService list option \<Rightarrow> (Sys, NetService list) call" where
  "array_of services = (case services of None \<Rightarrow> throw_call Crash | Some ss \<Rightarrow> return_call ss)"

definition state_of_config :: "ProxyConfig option \<Rightarrow> ProxyState" where
  "state_of_config cfg =
     (case cfg of
        None \<Rightarrow> \<lparr>is_enabled = False, get_host = [], get_port = 0\<rparr>
      | Some c \<Rightarrow> \<lparr>is_enabled = (if http_enable c \<noteq> None then cfnumber_as_bool (http_enable c) else False),
          get_host = (if http_proxy c \<noteq> None then cfstring_as_std_string (http_proxy c) else []),
          get_port = (if http_port c \<noteq> None then cfnumber_as_int32_t (http_port c) else 0)\<rparr>)"

text \<open>The loop of \<open>get_http_proxy_state\<close> over the services.\<close>

fun get_loop :: "bytes \<Rightarrow> NetService list \<Rightarrow> ProxyState" where
  "get_loop primaryServiceId [] = disabled_state"
| "get_loop primaryServiceId (service # rest) =
     (if service_id service \<noteq> primaryServiceId then get_loop primaryServiceId rest
      else case proxies service of
          None \<Rightarrow> get_loop primaryServiceId rest
        | Some p \<Rightarrow>
            if \<not> proto_enabled p then get_loop primaryServiceId rest
            else state_of_config (config p))"

definition trusty_get :: "(Sys, ProxyState) call" where
  "trusty_get sys = (let services = copy_services sys in
     and_then get_primary_service_id (\<lambda>p.
     and_then (array_of services) (\<lambda>ss. return_call (get_loop p ss))) sys)"

text \<open>The configuration to save: a changed copy of the old one, or none for an empty host.\<close>

definition new_config :: "ProxyState \<Rightarrow> ProxyConfig option \<Rightarrow> ProxyConfig option" where
  "new_config st cfg =
     (if get_host st \<noteq> [] then
        Some ((case cfg of None \<Rightarrow> empty_config | Some c \<Rightarrow> c)
          \<lparr>http_proxy := Some (c_str (get_host st)), http_port := Some (get_port st),
           http_enable := Some (if is_enabled st then 1 else 0)\<rparr>)
      else None)"

text \<open>The loop of \<open>set_http_proxy_state\<close>: it stops at the first service it tries to change.\<close>

fun set_loop :: "ProxyState \<Rightarrow> bytes \<Rightarrow> bool \<Rightarrow> NetService list \<Rightarrow> bool \<times> NetService list" where
  "set_loop st primaryServiceId ok [] = (False, [])"
| "set_loop st primaryServiceId ok (service # rest) =
     (let skip = (case set_loop st primaryServiceId ok rest of (u, ss) \<Rightarrow> (u, service # ss))
      in if service_id service \<noteq> primaryServiceId then skip
         else case proxies service of
             None \<Rightarrow> skip
           | Some p \<Rightarrow>
               if \<not> proto_enabled p then skip
               else if ok then (True, service\<lparr>proxies := Some (p\<lparr>config := new_config st (config p)\<rparr>)\<rparr> # rest)
               else (False, service # rest))"

definition commit_and_apply :: "NetService list \<Rightarrow> Sys \<Rightarrow> Sys" where
  "commit_and_apply session sys =
     (let sys = (if commit_ok sys then sys\<lparr>saved := session\<rparr> else sys)
      in if apply_ok sys then sys\<lparr>live := saved sys\<rparr> else sys)"

text \<open>\<open>PreferencesLocker\<close>: the lock is taken by the constructor, given back by \<open>unlock\<close> or by the destructor, which
  swallows an error.\<close>

record PreferencesLocker =
  locked :: bool

definition PreferencesLocker_new :: "(Sys, PreferencesLocker) call" where
  "PreferencesLocker_new sys =
     (if \<not> prefs_ok sys then throw_call (InvalidArgument ''null SCPreferencesRef'') sys
      else if \<not> lock_ok sys then throw_call (RuntimeError ''SCPreferencesLock'') sys
      else return_call \<lparr>locked = True\<rparr> (sys\<lparr>pref_locked := True\<rparr>))"

definition locker_unlock :: "PreferencesLocker \<Rightarrow> Sys \<Rightarrow> (exception + unit) \<times> PreferencesLocker \<times> Sys" where
  "locker_unlock l sys =
     (if locked l then
        if \<not> unlock_ok sys then (Inl (RuntimeError ''SCPreferencesUnlock''), l, sys)
        else (Inr (), l\<lparr>locked := False\<rparr>, sys\<lparr>pref_locked := False\<rparr>)
      else (Inr (), l, sys))"

definition PreferencesLocker_delete :: "PreferencesLocker \<Rightarrow> Sys \<Rightarrow> Sys" where
  "PreferencesLocker_delete l sys = snd (snd (locker_unlock l sys))"

text \<open>The body of \<open>set_http_proxy_state\<close> between the lock and \<open>unlock\<close>. The errors of the system are only logged.\<close>

definition set_services :: "ProxyState \<Rightarrow> (Sys, unit) call" where
  "set_services st sys = (let services = copy_services sys in
     and_then get_primary_service_id (\<lambda>p.
     and_then (array_of services) (\<lambda>ss sys.
       case set_loop st p (set_ok sys) ss of (didUpdate, session) \<Rightarrow>
         return_call () (if didUpdate then commit_and_apply session sys else sys))) sys)"

definition trusty_set :: "ProxyState \<Rightarrow> (Sys, unit) call" where
  "trusty_set st = and_then PreferencesLocker_new (\<lambda>locker sys.
     case set_services st sys of
       (Inl Crash, sys) \<Rightarrow> (Inl Crash, sys)
     | (Inl e, sys) \<Rightarrow> (Inl e, PreferencesLocker_delete locker sys)
     | (Inr _, sys) \<Rightarrow>
         (case locker_unlock locker sys of (r, locker, sys) \<Rightarrow> (r, PreferencesLocker_delete locker sys)))"

lemmas null_defs = get_primary_service_id_def copy_services_def array_of_def

lemmas locker_defs = PreferencesLocker_new_def locker_unlock_def PreferencesLocker_delete_def

definition trusty_reset :: "(Sys, unit) call" where
  "trusty_reset = return_call ()"

definition trusty_version :: "(Sys, 32 word) call" where
  "trusty_version = return_call kToolVersion"

definition TrustyService :: "Sys IService" where
  "TrustyService = \<lparr>get_http_proxy_state = trusty_get, set_http_proxy_state = trusty_set,
     reset_proxy_settings = trusty_reset, get_current_version = trusty_version\<rparr>"

section \<open>The contract of IService\<close>

text \<open>
  What a client relies on while the service is \<open>healthy\<close>: \<open>settings\<close> is what it reads, reading changes
  nothing, and a state that was set is in force; an empty host stands for disabled settings.
\<close>

definition representable :: "ProxyState \<Rightarrow> bool" where
  "representable st \<longleftrightarrow> CHR 0x00 \<notin> set (get_host st) \<and> - (2 ^ 31) \<le> get_port st \<and> get_port st < 2 ^ 31"

definition in_force :: "ProxyState \<Rightarrow> ProxyState" where
  "in_force st = (if get_host st = [] then disabled_state else st)"

lemma representable_in_force [simp]: "representable st \<Longrightarrow> representable (in_force st)"
  by (simp add: in_force_def representable_def disabled_state_def)

locale proxy_service =
  fixes svc :: "'s IService" and healthy :: "'s \<Rightarrow> bool" and settings :: "'s \<Rightarrow> ProxyState"
  assumes get_total: "healthy s \<Longrightarrow> get_http_proxy_state svc s = (Inr (settings s), s)"
    and set_total: "healthy s \<Longrightarrow> representable st \<Longrightarrow>
      \<exists>s'. set_http_proxy_state svc st s = (Inr (), s') \<and> healthy s' \<and> settings s' = in_force st"
    and version_total: "healthy s \<Longrightarrow> get_current_version svc s = (Inr kToolVersion, s)"
begin

lemma set_then_get:
  assumes "healthy s" "representable st" "set_http_proxy_state svc st s = (r, s')"
  shows "r = Inr () \<and> healthy s' \<and> get_http_proxy_state svc s' = (Inr (in_force st), s')"
  using set_total [OF assms(1,2)] assms(3) get_total by auto

end

definition usable :: "bytes \<Rightarrow> NetService \<Rightarrow> bool" where
  "usable p s \<longleftrightarrow> service_id s = p \<and> (case proxies s of None \<Rightarrow> False | Some pr \<Rightarrow> proto_enabled pr)"

definition sys_healthy :: "Sys \<Rightarrow> bool" where
  "sys_healthy sys \<longleftrightarrow> \<not> pref_locked sys \<and> ipv4_ok sys \<and> services_ok sys \<and> prefs_ok sys \<and> lock_ok sys \<and> unlock_ok sys \<and> set_ok sys \<and> commit_ok sys \<and> apply_ok sys \<and>
     (\<exists>p. primary_service sys = Some p \<and> list_ex (usable p) (saved sys))"

definition trusty_settings :: "Sys \<Rightarrow> ProxyState" where
  "trusty_settings sys = (case primary_service sys of None \<Rightarrow> disabled_state | Some p \<Rightarrow> get_loop p (saved sys))"

lemma set_loop_usable:
  "list_ex (usable p) ss \<Longrightarrow> representable st \<Longrightarrow>
   \<exists>ss'. set_loop st p True ss = (True, ss') \<and> list_ex (usable p) ss' \<and> get_loop p ss' = in_force st"
proof (induction ss)
  case (Cons s ss)
  show ?case
  proof (cases "usable p s")
    case True
    then obtain pr where pr: "service_id s = p" "proxies s = Some pr" "proto_enabled pr"
      by (auto simp: usable_def split: option.splits)
    have "state_of_config (new_config st (config pr)) = in_force st"
      using Cons.prems(2) by (simp add: state_of_config_def new_config_def in_force_def disabled_state_def representable_def)
    with pr show ?thesis by (simp add: Let_def usable_def)
  next
    case False
    with Cons.prems have "list_ex (usable p) ss" by simp
    from Cons.IH [OF this Cons.prems(2)] False show ?thesis
      by (auto simp: usable_def Let_def split: option.splits)
  qed
qed simp

lemma trusty_set_run:
  assumes "sys_healthy sys" "representable st"
  shows "\<exists>ss. trusty_set st sys = (Inr (), sys\<lparr>saved := ss, live := ss\<rparr>) \<and> sys_healthy (sys\<lparr>saved := ss, live := ss\<rparr>) \<and>
    trusty_settings (sys\<lparr>saved := ss, live := ss\<rparr>) = in_force st"
proof -
  from assms(1) obtain p where p: "primary_service sys = Some p" "list_ex (usable p) (saved sys)" by (auto simp: sys_healthy_def)
  from set_loop_usable [OF p(2) assms(2)] obtain ss where "set_loop st p True (saved sys) = (True, ss)"
      "list_ex (usable p) ss" "get_loop p ss = in_force st"
    by blast
  with assms(1) p show ?thesis
    by (intro exI [of _ ss], cases sys)
      (simp add: sys_healthy_def trusty_set_def set_services_def locker_defs null_defs call_defs
        commit_and_apply_def trusty_settings_def Let_def)
qed

lemma trusty_get_run: "sys_healthy sys \<Longrightarrow> trusty_get sys = (Inr (trusty_settings sys), sys)"
  by (auto simp: sys_healthy_def trusty_get_def trusty_settings_def null_defs call_defs)

interpretation trusty: proxy_service TrustyService sys_healthy trusty_settings
proof unfold_locales
  show "get_http_proxy_state TrustyService s = (Inr (trusty_settings s), s)" if "sys_healthy s" for s
    using trusty_get_run [OF that] by (simp add: TrustyService_def)
  show "\<exists>s'. set_http_proxy_state TrustyService st s = (Inr (), s') \<and> sys_healthy s' \<and> trusty_settings s' = in_force st"
    if "sys_healthy s" "representable st" for s st
    using trusty_set_run [OF that] by (auto simp: TrustyService_def)
  show "get_current_version TrustyService s = (Inr kToolVersion, s)" for s
    by (simp add: TrustyService_def trusty_version_def return_call_def)
qed

section \<open>Properties\<close>

text \<open>C28: on a system with a primary service whose proxy protocol is enabled, and while the system's calls
  succeed, setting a proxy state succeeds, is saved and applied, and is what is read back; an empty host
  reads back as disabled.\<close>

theorem trusty_set_get:
  assumes "sys_healthy sys" and "representable st"
  shows "\<exists>sys'. trusty_set st sys = (Inr (), sys') \<and> live sys' = saved sys' \<and>
    trusty_get sys' = (Inr (if get_host st = [] then disabled_state else st), sys')"
proof -
  from trusty_set_run [OF assms] obtain ss where ss: "trusty_set st sys = (Inr (), sys\<lparr>saved := ss, live := ss\<rparr>)" by blast
  then have "set_http_proxy_state TrustyService st sys = (Inr (), sys\<lparr>saved := ss, live := ss\<rparr>)"
    by (simp add: TrustyService_def)
  from trusty.set_then_get [OF assms this] ss show ?thesis
    by (auto simp: TrustyService_def in_force_def)
qed

definition example_sys :: Sys where
  "example_sys = \<lparr>saved = [\<lparr>service_id = ''a'', proxies = None\<rparr>,
      \<lparr>service_id = ''b'', proxies = Some \<lparr>proto_enabled = True, config = None\<rparr>\<rparr>], live = [],
     primary_service = Some ''b'', pref_locked = False, ipv4_ok = True, services_ok = True, prefs_ok = True, lock_ok = True, unlock_ok = True, set_ok = True, commit_ok = True, apply_ok = True\<rparr>"

lemma trusty_set_get_witness:
  "\<exists>sys'. trusty_set \<lparr>is_enabled = True, get_host = ''localhost'', get_port = 9999\<rparr> example_sys = (Inr (), sys') \<and>
    live sys' = saved sys' \<and>
    trusty_get sys' = (Inr \<lparr>is_enabled = True, get_host = ''localhost'', get_port = 9999\<rparr>, sys')"
  using trusty_set_get [of example_sys "\<lparr>is_enabled = True, get_host = ''localhost'', get_port = 9999\<rparr>"]
  by (simp add: sys_healthy_def example_sys_def usable_def representable_def)

text \<open>C29: setting a proxy state touches nothing but the configuration of one usable primary service: all other
  services, and the keys the helper does not know, stay as they were.\<close>

theorem trusty_set_frame:
  assumes "set_loop st p ok ss = (u, ss')"
  shows "length ss' = length ss \<and> map service_id ss' = map service_id ss \<and>
    (\<exists>i. \<forall>j < length ss. ss' ! j \<noteq> ss ! j \<longrightarrow> j = i \<and> usable p (ss ! j) \<and>
       (\<exists>pr. proxies (ss ! j) = Some pr \<and>
          ss' ! j = (ss ! j)\<lparr>proxies := Some (pr\<lparr>config := new_config st (config pr)\<rparr>)\<rparr>))"
  using assms
proof (induction ss arbitrary: u ss')
  case (Cons s ss)
  show ?case
  proof (cases "usable p s")
    case True
    with Cons.prems show ?thesis
      by (auto simp: usable_def Let_def nth_Cons split: option.splits if_splits nat.splits intro!: exI [of _ "0 :: nat"])
  next
    case False
    with Cons.prems obtain ts where ts: "set_loop st p ok ss = (u, ts)" "ss' = s # ts"
      by (auto simp: usable_def Let_def split: option.splits prod.splits if_splits)
    from Cons.IH [OF ts(1)] obtain i where i: "length ts = length ss" "map service_id ts = map service_id ss"
      "\<forall>j < length ss. ts ! j \<noteq> ss ! j \<longrightarrow> j = i \<and> usable p (ss ! j) \<and>
       (\<exists>pr. proxies (ss ! j) = Some pr \<and>
          ts ! j = (ss ! j)\<lparr>proxies := Some (pr\<lparr>config := new_config st (config pr)\<rparr>)\<rparr>)" by blast
    then show ?thesis
      unfolding ts(2) by (auto simp: nth_Cons less_Suc_eq_0_disj intro!: exI [of _ "Suc i"])
  qed
qed simp

lemma trusty_set_frame_witness:
  "set_loop disabled_state ''b'' True (saved example_sys) =
     (True, saved example_sys) \<and> length (saved example_sys) = 2"
  using trusty_set_frame [of disabled_state "''b''" True "saved example_sys" True "saved example_sys"]
  by (simp add: example_sys_def disabled_state_def new_config_def Let_def)

lemma commit_and_apply_frame [simp]:
  "pref_locked (commit_and_apply ss sys) = pref_locked sys" "unlock_ok (commit_and_apply ss sys) = unlock_ok sys"
  by (simp_all add: commit_and_apply_def Let_def)

lemma set_services_frame:
  assumes "set_services st sys = (r, sys')"
  shows "pref_locked sys' = pref_locked sys \<and> unlock_ok sys' = unlock_ok sys"
  using assms by (auto simp: set_services_def null_defs call_defs split: option.splits prod.splits if_splits)



text \<open>Reading the settings does not check the session of the preferences: without one it crashes.\<close>

lemma get_without_session:
  "\<not> prefs_ok sys \<Longrightarrow> ipv4_ok sys \<Longrightarrow> primary_service sys = Some p \<Longrightarrow> trusty_get sys = (Inl Crash, sys)"
  by (simp add: trusty_get_def null_defs call_defs)

text \<open>When the system refuses the new configuration or the commit, or no usable primary service exists, nothing is
  saved and the caller is not told: setting the state still reports success.\<close>

theorem failed_set_reports_success:
  assumes "ipv4_ok sys" and "services_ok sys" and "primary_service sys = Some p" and "prefs_ok sys" and "lock_ok sys" and "unlock_ok sys"
    and "\<not> set_ok sys \<or> \<not> commit_ok sys \<or> \<not> list_ex (usable p) (saved sys)"
  shows "\<exists>sys'. trusty_set st sys = (Inr (), sys') \<and> saved sys' = saved sys"
proof -
  obtain u ss where loop: "set_loop st p (set_ok sys) (saved sys) = (u, ss)" by fastforce
  have "\<not> list_ex (usable p) xs \<Longrightarrow> \<not> fst (set_loop st p ok xs)" for xs ok
    by (induction xs) (auto simp: usable_def Let_def split: option.splits prod.splits)
  moreover have "\<not> fst (set_loop st p False xs)" for xs
    by (induction xs) (auto simp: Let_def split: option.splits prod.splits)
  ultimately have "\<not> u \<or> \<not> commit_ok sys" using assms(7) loop by (metis fst_conv)
  with assms(1-6) loop show ?thesis
    by (auto simp: trusty_set_def set_services_def null_defs locker_defs call_defs commit_and_apply_def Let_def)
qed

lemma failed_set_reports_success_witness:
  "\<exists>sys'. trusty_set disabled_state (example_sys\<lparr>commit_ok := False\<rparr>) = (Inr (), sys') \<and> saved sys' = saved example_sys"
  using failed_set_reports_success [of "example_sys\<lparr>commit_ok := False\<rparr>" "''b''" disabled_state]
  by (simp add: example_sys_def)

text \<open>The check of host names accepts exactly the empty name and the names of at most 253 letters, digits,
  dots and hyphens that start with a letter or digit, except the eight-byte names that end in \<open>xn--\<close>; so a
  punycode name passes, and some plain names do not.\<close>

theorem hostname_check:
  "(is_valid_hostname_or_empty s \<longleftrightarrow> s = [] \<or>
     (length s \<le> 253 \<and> list_all host_char s \<and> (ascii_letter (hd s) \<or> ascii_digit (hd s)) \<and> drop 4 s \<noteq> ''xn--'')) \<and>
   is_valid_hostname_or_empty ''xn--p1ai'' \<and> \<not> is_valid_hostname_or_empty ''hostxn--''"
proof (intro conjI)
  show "is_valid_hostname_or_empty ''xn--p1ai''" "\<not> is_valid_hostname_or_empty ''hostxn--''" by code_simp+
qed (cases s; auto simp: is_valid_hostname_or_empty_def)

end
