(* ===== verification/XpcServer.thy ===== *)
theory XpcServer
  imports TrustyService
begin

text \<open>
  The two ends of the connection to the privileged helper: \<open>trusty/AuthorizedService.cpp\<close>,
  \<open>trusty/XpcServer.cpp\<close> and \<open>app/mac/XpcServiceClient.cpp\<close>.

  Security and XPC calls of macOS are inputs: the rights an authorization grants, the status codes of the
  code-signing calls, the error the transport reports. \<open>macos\<close> is the major version of the system.
\<close>

section \<open>AuthorizedService\<close>

text \<open>
  Apple's authorization service: making an authorization from its external form, and copying a right
  without or with interaction.
\<close>

type_synonym auth = nat

record security =
  create_from_external :: "bytes \<Rightarrow> auth option"
  copy_right :: "auth \<Rightarrow> string \<Rightarrow> bool \<Rightarrow> bool"

definition external_form_size :: nat where
  "external_form_size = 32"

definition kGetProxyStateRightName :: string where
  "kGetProxyStateRightName = ''com.bendb.amanuensis.trusty.GetProxyState''"

definition kSetProxyStateRightName :: string where
  "kSetProxyStateRightName = ''com.bendb.amanuensis.trusty.SetProxyState''"

definition kClearSettingsRightName :: string where
  "kClearSettingsRightName = ''com.bendb.amanuensis.trusty.ClearSettings''"

definition kGetToolVersionRightName :: string where
  "kGetToolVersionRightName = ''com.bendb.amanuensis.trusty.GetToolVersion''"

definition AuthorizedService_new :: "security \<Rightarrow> bytes \<Rightarrow> exception + auth" where
  "AuthorizedService_new sec authExternalForm =
     (if length authExternalForm \<noteq> external_form_size then Inl (InvalidArgument ''Payload isn't the right size'')
      else case create_from_external sec authExternalForm of
          None \<Rightarrow> Inl (InvalidArgument ''payload couldn't be made into an AuthorizationRef'')
        | Some a \<Rightarrow> Inr a)"

definition assert_right :: "security \<Rightarrow> auth \<Rightarrow> string \<Rightarrow> ('s, unit) call" where
  "assert_right sec a right =
     (if copy_right sec a right False then return_call ()
      else if copy_right sec a right True then return_call ()
      else throw_call (InvalidArgument ''Authorization denied''))"

definition AuthorizedService :: "security \<Rightarrow> 's IService \<Rightarrow> auth \<Rightarrow> 's IService" where
  "AuthorizedService sec delegate a =
     \<lparr>get_http_proxy_state =
        and_then (assert_right sec a kGetProxyStateRightName) (\<lambda>_. get_http_proxy_state delegate),
      set_http_proxy_state = (\<lambda>endpoint.
        and_then (assert_right sec a kSetProxyStateRightName) (\<lambda>_. set_http_proxy_state delegate endpoint)),
      reset_proxy_settings =
        and_then (assert_right sec a kClearSettingsRightName) (\<lambda>_. reset_proxy_settings delegate),
      get_current_version =
        and_then (assert_right sec a kGetToolVersionRightName) (\<lambda>_. get_current_version delegate)\<rparr>"

definition granted :: "security \<Rightarrow> auth \<Rightarrow> string \<Rightarrow> bool" where
  "granted sec a right \<longleftrightarrow> copy_right sec a right False \<or> copy_right sec a right True"

section \<open>Signatures\<close>

text \<open>
  The statuses of \<open>SecCodeCreateWithXPCMessage\<close> (or its fallback), \<open>SecRequirementCreateWithString\<close> and
  \<open>SecCodeCheckValidityWithErrors\<close>; 0 is success.
\<close>

record signature =
  code_status :: int
  requirement_status :: int
  validity_status :: int

definition validate_xpc_message_or_connection :: "nat \<Rightarrow> signature \<Rightarrow> bool" where
  "validate_xpc_message_or_connection macos sig =
     (if macos \<ge> 12 then True
      else if code_status sig \<noteq> 0 then False
      else if requirement_status sig \<noteq> 0 then False
      else if validity_status sig \<noteq> 0 then False
      else True)"

text \<open>\<open>peer_status\<close> is what \<open>xpc_connection_set_peer_code_signing_requirement\<close> returns.\<close>

definition isClientSignatureValid :: "nat \<Rightarrow> int \<Rightarrow> signature \<Rightarrow> bool" where
  "isClientSignatureValid macos peer_status sig =
     (if macos \<ge> 12 then peer_status \<noteq> 0
      else if macos \<ge> 11 then True
      else validate_xpc_message_or_connection macos sig)"

definition isMessageSignatureValid :: "nat \<Rightarrow> signature \<Rightarrow> bool" where
  "isMessageSignatureValid macos sig =
     (if macos \<ge> 11 then validate_xpc_message_or_connection macos sig else True)"

section \<open>XpcServer\<close>

text \<open>
  The peers whose context is set, by connection, with their connection id; the authorized ones by id; the
  state of the service; and whether the process has ended.
\<close>

record 's XpcServer =
  contexts :: "nat \<rightharpoonup> nat"
  connections :: "nat \<rightharpoonup> auth"
  nextId :: nat
  service_state :: 's
  terminated :: bool

definition XpcServer_new :: "'s \<Rightarrow> 's XpcServer" where
  "XpcServer_new s = \<lparr>contexts = Map.empty, connections = Map.empty, nextId = 1, service_state = s, terminated = False\<rparr>"

definition CleanUpConnection :: "nat option \<Rightarrow> 's XpcServer \<Rightarrow> 's XpcServer" where
  "CleanUpConnection context srv =
     (case context of None \<Rightarrow> srv | Some cid \<Rightarrow> srv\<lparr>connections := (connections srv)(cid := None)\<rparr>)"

text \<open>True when the connection is established, false when it is dropped.\<close>

definition handleIncomingConnection ::
  "nat \<Rightarrow> int \<Rightarrow> signature \<Rightarrow> nat \<Rightarrow> 's XpcServer \<Rightarrow> bool \<times> 's XpcServer" where
  "handleIncomingConnection macos peer_status sig connection srv =
     (if \<not> isClientSignatureValid macos peer_status sig then (False, srv)
      else (True, srv\<lparr>contexts := (contexts srv)(connection \<mapsto> nextId srv), nextId := nextId srv + 1\<rparr>))"

definition handleOne :: "'s IService \<Rightarrow> IMessage \<Rightarrow> ('s, IMessage) call" where
  "handleOne svc m =
     (case msg_type m of
        Hello \<Rightarrow> throw_call (InvalidArgument ''Hello message should have been handled elsewhere'')
      | GetToolVersion \<Rightarrow> and_then (get_current_version svc)
          (\<lambda>v. return_call (create_message GetToolVersion (XpcUInt64 (ucast v))))
      | GetProxyState \<Rightarrow> and_then (get_http_proxy_state svc)
          (\<lambda>st. return_call (create_message GetProxyState (to_xpc st)))
      | SetProxyState \<Rightarrow>
          (case ProxyState_of_xpc (payload m) of
             Inl e \<Rightarrow> throw_call e
           | Inr st \<Rightarrow> and_then (set_http_proxy_state svc st)
               (\<lambda>_. return_call (create_message SetProxyState XpcNull)))
      | ClearProxySettings \<Rightarrow> and_then (reset_proxy_settings svc)
          (\<lambda>_. return_call (create_message ClearProxySettings XpcNull))
      | ty \<Rightarrow> return_call (create_message ErrorMessage
          (XpcString (c_str (''Unexpected MessageType: '' @ [char_of (unat (type_code ty))])))))"

definition data_bytes :: "XpcObject \<Rightarrow> bytes" where
  "data_bytes obj = (case obj of XpcData bs \<Rightarrow> bs | _ \<Rightarrow> [])"

text \<open>What the server does with a message: nothing, cancel the connection, reply, or end the process.\<close>

datatype Reaction = NoReply | CancelPeer | Reply XpcObject | Terminate exception

definition error_message :: "string \<Rightarrow> IMessage" where
  "error_message s = create_message ErrorMessage (XpcString (c_str s))"

text \<open>The \<open>try\<close> block: the reply, with exceptions turned into error messages. A crash is not caught.\<close>

definition answer_message ::
  "security \<Rightarrow> 's IService \<Rightarrow> nat \<Rightarrow> IMessage \<Rightarrow> ('s XpcServer, IMessage) call" where
  "answer_message sec service connectionId m srv =
     (case connections srv connectionId of
        Some a \<Rightarrow>
          (case handleOne (AuthorizedService sec service a) m (service_state srv) of
             (Inl e, s) \<Rightarrow>
               (if e = Crash then Inl Crash else Inr (error_message (what e)), srv\<lparr>service_state := s\<rparr>)
           | (Inr r, s) \<Rightarrow> (Inr r, srv\<lparr>service_state := s\<rparr>))
      | None \<Rightarrow>
          if msg_type m = Hello then
            (case AuthorizedService_new sec (data_bytes (payload m)) of
               Inl e \<Rightarrow> (Inr (error_message (what e)), srv)
             | Inr a \<Rightarrow> (Inr (create_message Hello XpcNull), srv\<lparr>connections := (connections srv)(connectionId \<mapsto> a)\<rparr>))
          else (Inr (error_message ''Internal error - connection not found''), srv))"

definition code_signing_error :: bytes where
  "code_signing_error = ''XPC_ERROR_PEER_CODE_SIGNING_REQUIREMENT''"

definition getConnectionId :: "nat \<Rightarrow> 's XpcServer \<Rightarrow> exception + nat" where
  "getConnectionId connection srv =
     (case contexts srv connection of None \<Rightarrow> Inl (InvalidArgument ''remote connection has no context'') | Some connectionId \<Rightarrow> Inr connectionId)"

definition handleIncomingMessage ::
  "nat \<Rightarrow> signature \<Rightarrow> security \<Rightarrow> 's IService \<Rightarrow> nat \<Rightarrow> XpcObject \<Rightarrow> 's XpcServer \<Rightarrow> Reaction \<times> 's XpcServer" where
  "handleIncomingMessage macos sig sec service connection message srv =
     (case message of
        XpcError description \<Rightarrow>
          if macos \<ge> 12 \<and> description = code_signing_error then (CancelPeer, srv) else (NoReply, srv)
      | _ \<Rightarrow>
          if \<not> isMessageSignatureValid macos sig then (CancelPeer, srv)
          else case unwrap message of
              None \<Rightarrow> (NoReply, srv)
            | Some m \<Rightarrow>
                (case getConnectionId connection srv of
                   Inl e \<Rightarrow> (Terminate e, srv\<lparr>terminated := True\<rparr>)
                 | Inr cid \<Rightarrow>
                     (case answer_message sec service cid m srv of
                        (Inl e, srv) \<Rightarrow> (Terminate e, srv\<lparr>terminated := True\<rparr>)
                      | (Inr r, srv) \<Rightarrow> (Reply (wrap_message (XpcDictionary []) r), srv))))"

lemma getConnectionId_simps [simp]:
  "contexts srv connection = Some cid \<Longrightarrow> getConnectionId connection srv = Inr cid"
  "contexts srv connection = None \<Longrightarrow> getConnectionId connection srv = Inl (InvalidArgument ''remote connection has no context'')"
  by (simp_all add: getConnectionId_def)

lemma getConnectionId_Inr [simp]: "getConnectionId connection srv = Inr cid \<longleftrightarrow> contexts srv connection = Some cid"
  by (simp add: getConnectionId_def split: option.splits)

section \<open>XpcServiceClient\<close>

text \<open>
  \<open>send_message\<close> over a transport: what \<open>xpc_connection_send_message_with_reply_sync\<close> gives back. The text of an error
  message that is no string is a null pointer.
\<close>

definition client_request :: "MessageType \<Rightarrow> XpcObject \<Rightarrow> XpcObject" where
  "client_request ty obj = wrap_message (XpcDictionary []) (create_message ty obj)"

definition client_reply :: "MessageType \<Rightarrow> XpcObject \<Rightarrow> exception + XpcObject" where
  "client_reply ty replyWrapper =
     (case replyWrapper of
        XpcError description \<Rightarrow> Inl (RuntimeError description)
      | _ \<Rightarrow>
          (case unwrap replyWrapper of
             None \<Rightarrow> Inl (InvalidArgument ''wat'')
           | Some reply \<Rightarrow>
               if msg_type reply = ErrorMessage then
                 (case payload reply of XpcString text \<Rightarrow> Inl (RuntimeError text) | _ \<Rightarrow> Inl Crash)
               else if msg_type reply \<noteq> ty then Inl (InvalidArgument ''nope'')
               else Inr (payload reply)))"

definition send_message :: "(XpcObject \<Rightarrow> ('t, XpcObject) call) \<Rightarrow> MessageType \<Rightarrow> XpcObject \<Rightarrow> ('t, XpcObject) call" where
  "send_message transport ty obj t =
     (case transport (client_request ty obj) t of
        (Inl e, t') \<Rightarrow> (Inl e, t')
      | (Inr reply, t') \<Rightarrow> (client_reply ty reply, t'))"

definition XpcServiceClient :: "(XpcObject \<Rightarrow> ('t, XpcObject) call) \<Rightarrow> 't IService" where
  "XpcServiceClient transport =
     \<lparr>get_http_proxy_state = and_then (send_message transport GetProxyState XpcNull)
        (\<lambda>reply t. (ProxyState_of_xpc reply, t)),
      set_http_proxy_state = (\<lambda>st. and_then (send_message transport SetProxyState (to_xpc st))
        (\<lambda>reply. if reply = XpcNull then return_call () else throw_call (InvalidArgument ''unexpected error''))),
      reset_proxy_settings = and_then (send_message transport ClearProxySettings XpcNull)
        (\<lambda>reply. if reply = XpcNull then return_call () else throw_call (InvalidArgument ''unexpected error'')),
      get_current_version = and_then (send_message transport GetToolVersion XpcNull)
        (\<lambda>reply. case reply of XpcUInt64 v \<Rightarrow> return_call (ucast v) | _ \<Rightarrow> throw_call (InvalidArgument ''unexpected error''))\<rparr>"

text \<open>The constructor says hello with the authorization and keeps the connection when that is accepted.\<close>

definition XpcServiceClient_new :: "(XpcObject \<Rightarrow> ('t, XpcObject) call) \<Rightarrow> bytes \<Rightarrow> ('t, 't IService) call" where
  "XpcServiceClient_new transport authBytes =
     and_then (send_message transport Hello (XpcData authBytes)) (\<lambda>_. return_call (XpcServiceClient transport))"

text \<open>The server as the transport of one of its peers; no reply, or no server any more, leaves the client with an XPC error.\<close>

definition server_transport ::
  "nat \<Rightarrow> signature \<Rightarrow> security \<Rightarrow> 's IService \<Rightarrow> nat \<Rightarrow> XpcObject \<Rightarrow> ('s XpcServer, XpcObject) call" where
  "server_transport macos sig sec service connection message srv =
     (if terminated srv then (Inr (XpcError ''XPC_ERROR_CONNECTION_INTERRUPTED''), srv)
      else case handleIncomingMessage macos sig sec service connection message srv of
        (Reply r, srv') \<Rightarrow> (Inr r, srv')
      | (_, srv') \<Rightarrow> (Inr (XpcError ''XPC_ERROR_CONNECTION_INTERRUPTED''), srv'))"

text \<open>A client opens a connection: the system makes a new connection object and tells the server.\<close>

definition helper_connect ::
  "nat \<Rightarrow> int \<Rightarrow> signature \<Rightarrow> security \<Rightarrow> 's IService \<Rightarrow> bytes \<Rightarrow> ('s XpcServer, 's XpcServer IService) call" where
  "helper_connect macos peer_status sig sec service authBytes srv =
     (if terminated srv then throw_call (RuntimeError ''XPC_ERROR_CONNECTION_INTERRUPTED'') srv
      else case handleIncomingConnection macos peer_status sig (nextId srv) srv of
        (established, srv') \<Rightarrow>
          if established then XpcServiceClient_new (server_transport macos sig sec service (nextId srv)) authBytes srv'
          else throw_call (RuntimeError ''XPC_ERROR_CONNECTION_INVALID'') srv')"

section \<open>Through the wire\<close>

lemma assert_right_eq: "assert_right sec a right s = (if granted sec a right then (Inr (), s) else (Inl (InvalidArgument ''Authorization denied''), s))"
  by (simp add: assert_right_def granted_def call_defs)

lemma unwrap_wrapped: "known_type (msg_type m) \<Longrightarrow> unwrap (wrap_message (XpcDictionary []) m) = Some m"
  by (rule unwrap_wrap) simp_all

lemma wrapped_dictionary: "\<exists>d. wrap_message (XpcDictionary []) m = XpcDictionary d"
  by (simp add: wrap_message_def xpc_set_def)

lemma client_reply_wrapped:
  assumes "known_type (msg_type r)"
  shows "client_reply ty (wrap_message (XpcDictionary []) r) =
    (if msg_type r = ErrorMessage then (case payload r of XpcString text \<Rightarrow> Inl (RuntimeError text) | _ \<Rightarrow> Inl Crash)
     else if msg_type r \<noteq> ty then Inl (InvalidArgument ''nope'') else Inr (payload r))"
  using unwrap_wrapped [OF assms] wrapped_dictionary [of r] by (auto simp: client_reply_def)

text \<open>A request of a known type, as the server of a connected peer sees it.\<close>

lemma server_transport_request:
  assumes "isMessageSignatureValid macos sig" "contexts srv connection = Some cid" "known_type ty" "\<not> terminated srv"
  shows "server_transport macos sig sec service connection (client_request ty obj) srv =
    (case answer_message sec service cid (create_message ty obj) srv of
       (Inl e, srv') \<Rightarrow> (Inr (XpcError ''XPC_ERROR_CONNECTION_INTERRUPTED''), srv'\<lparr>terminated := True\<rparr>)
     | (Inr r, srv') \<Rightarrow> (Inr (wrap_message (XpcDictionary []) r), srv'))"
  using wrapped_dictionary [of "create_message ty obj"] unwrap_wrapped [of "create_message ty obj"] assms
  by (auto simp: server_transport_def handleIncomingMessage_def client_request_def create_message_def
      split: prod.splits sum.splits)

definition authorized :: "nat \<Rightarrow> signature \<Rightarrow> nat \<Rightarrow> auth \<Rightarrow> 's XpcServer \<Rightarrow> bool" where
  "authorized macos sig connection a srv \<longleftrightarrow> isMessageSignatureValid macos sig \<and> \<not> terminated srv \<and>
     (\<exists>cid. contexts srv connection = Some cid \<and> connections srv cid = Some a)"

text \<open>
  A call on the server's service, seen from the peer: every exception arrives as a \<open>std::runtime_error\<close> with its message as a C
  string, and a crash as an interrupted connection to a process that has ended.
\<close>

definition over_wire :: "exception \<Rightarrow> exception" where
  "over_wire e = RuntimeError (if e = Crash then ''XPC_ERROR_CONNECTION_INTERRUPTED'' else c_str (what e))"

definition on_service :: "('s, 'a) call \<Rightarrow> ('s XpcServer, 'a) call" where
  "on_service c srv = (case c (service_state srv) of (r, s) \<Rightarrow>
     (map_sum over_wire id r,
      if r = Inl Crash then srv\<lparr>service_state := s, terminated := True\<rparr> else srv\<lparr>service_state := s\<rparr>))"

lemma client_reply_interrupted [simp]: "client_reply ty (XpcError text) = Inl (RuntimeError text)"
  by (simp add: client_reply_def)

lemma send_to_authorized:
  assumes "authorized macos sig connection a srv" "known_type ty"
  shows "send_message (server_transport macos sig sec service connection) ty obj srv =
    (case handleOne (AuthorizedService sec service a) (create_message ty obj) (service_state srv) of
       (Inl e, s) \<Rightarrow> (Inl (over_wire e),
           if e = Crash then srv\<lparr>service_state := s, terminated := True\<rparr> else srv\<lparr>service_state := s\<rparr>)
     | (Inr r, s) \<Rightarrow> (client_reply ty (wrap_message (XpcDictionary []) r), srv\<lparr>service_state := s\<rparr>))"
  using assms
  by (auto simp: authorized_def send_message_def server_transport_request answer_message_def error_message_def
      over_wire_def client_reply_wrapped create_message_def split: sum.splits prod.splits)

lemma ucast_version [simp]: "ucast (ucast (v :: 32 word) :: 64 word) = v"
  by transfer simp

lemma client_refines:
  assumes auth: "authorized macos sig connection a srv"
    and st: "\<forall>st. fst (get_http_proxy_state service (service_state srv)) = Inr st \<longrightarrow> representable st"
    and st': "representable st'"
  shows "get_http_proxy_state (XpcServiceClient (server_transport macos sig sec service connection)) srv =
      on_service (get_http_proxy_state (AuthorizedService sec service a)) srv"
    and "set_http_proxy_state (XpcServiceClient (server_transport macos sig sec service connection)) st' srv =
      on_service (set_http_proxy_state (AuthorizedService sec service a) st') srv"
    and "reset_proxy_settings (XpcServiceClient (server_transport macos sig sec service connection)) srv =
      on_service (reset_proxy_settings (AuthorizedService sec service a)) srv"
    and "get_current_version (XpcServiceClient (server_transport macos sig sec service connection)) srv =
      on_service (get_current_version (AuthorizedService sec service a)) srv"
proof -
  note call = XpcServiceClient_def and_then_def send_to_authorized [OF auth] handleOne_def AuthorizedService_def
    assert_right_eq create_message_def return_call_def client_reply_wrapped on_service_def
  have "ProxyState_of_xpc (to_xpc st) = Inr st" if "representable st" for st
    using that by (simp add: representable_def proxy_state_xpc)
  then show "get_http_proxy_state (XpcServiceClient (server_transport macos sig sec service connection)) srv =
      on_service (get_http_proxy_state (AuthorizedService sec service a)) srv"
    and "set_http_proxy_state (XpcServiceClient (server_transport macos sig sec service connection)) st' srv =
      on_service (set_http_proxy_state (AuthorizedService sec service a) st') srv"
    using st st' by (auto simp: call split: sum.splits prod.splits)
  show "reset_proxy_settings (XpcServiceClient (server_transport macos sig sec service connection)) srv =
      on_service (reset_proxy_settings (AuthorizedService sec service a)) srv"
    and "get_current_version (XpcServiceClient (server_transport macos sig sec service connection)) srv =
      on_service (get_current_version (AuthorizedService sec service a)) srv"
    by (auto simp: call split: sum.splits prod.splits)
qed

section \<open>The contracts\<close>

definition may_all :: "security \<Rightarrow> auth \<Rightarrow> bool" where
  "may_all sec a \<longleftrightarrow> granted sec a kGetProxyStateRightName \<and> granted sec a kSetProxyStateRightName \<and>
     granted sec a kClearSettingsRightName \<and> granted sec a kGetToolVersionRightName"

definition fresh_ids :: "'s XpcServer \<Rightarrow> bool" where
  "fresh_ids srv \<longleftrightarrow> (\<forall>cid \<ge> nextId srv. connections srv cid = None)"

text \<open>A peer that may do everything, in front of a healthy service.\<close>

definition peer_healthy ::
  "nat \<Rightarrow> signature \<Rightarrow> security \<Rightarrow> nat \<Rightarrow> ('s \<Rightarrow> bool) \<Rightarrow> ('s \<Rightarrow> ProxyState) \<Rightarrow> 's XpcServer \<Rightarrow> bool" where
  "peer_healthy macos sig sec connection healthy settings srv \<longleftrightarrow>
     (\<exists>a. authorized macos sig connection a srv \<and> may_all sec a) \<and> fresh_ids srv \<and>
     healthy (service_state srv) \<and> representable (settings (service_state srv))"

text \<open>A server that would accept a new peer with this authorization.\<close>

definition helper_ready ::
  "nat \<Rightarrow> int \<Rightarrow> signature \<Rightarrow> security \<Rightarrow> bytes \<Rightarrow> ('s \<Rightarrow> bool) \<Rightarrow> ('s \<Rightarrow> ProxyState) \<Rightarrow> 's XpcServer \<Rightarrow> bool" where
  "helper_ready macos peer_status sig sec authBytes healthy settings srv \<longleftrightarrow>
     isClientSignatureValid macos peer_status sig \<and> isMessageSignatureValid macos sig \<and>
     (\<exists>a. AuthorizedService_new sec authBytes = Inr a \<and> may_all sec a) \<and> \<not> terminated srv \<and> fresh_ids srv \<and>
     healthy (service_state srv) \<and> representable (settings (service_state srv))"

lemma peer_unchanged [simp]:
  "authorized macos sig connection a (srv\<lparr>service_state := s\<rparr>) = authorized macos sig connection a srv"
  "fresh_ids (srv\<lparr>service_state := s\<rparr>) = fresh_ids srv"
  by (simp_all add: authorized_def fresh_ids_def)

lemma service_state_id [simp]: "srv\<lparr>service_state := service_state srv\<rparr> = srv"
  by (cases srv) simp

text \<open>A client of a service that keeps the contract keeps it, too.\<close>

context proxy_service
begin

lemma peer_service:
  "proxy_service (XpcServiceClient (server_transport macos sig sec svc connection))
     (peer_healthy macos sig sec connection healthy settings) (\<lambda>srv. settings (service_state srv))"
proof unfold_locales
  fix srv st
  assume peer: "peer_healthy macos sig sec connection healthy settings srv"
  then obtain a where a: "authorized macos sig connection a srv" "may_all sec a" and h: "healthy (service_state srv)"
      and r: "representable (settings (service_state srv))" and f: "fresh_ids srv"
    by (auto simp: peer_healthy_def)
  have get: "get_http_proxy_state svc (service_state srv) = (Inr (settings (service_state srv)), service_state srv)"
    by (rule get_total [OF h])
  then have ok: "\<forall>st. fst (get_http_proxy_state svc (service_state srv)) = Inr st \<longrightarrow> representable st" using r by simp
  note client = on_service_def AuthorizedService_def and_then_def assert_right_eq may_all_def
  show "get_http_proxy_state (XpcServiceClient (server_transport macos sig sec svc connection)) srv =
      (Inr (settings (service_state srv)), srv)"
    using a(2) get r by (simp add: client_refines [OF a(1) ok r] client)
  show "get_current_version (XpcServiceClient (server_transport macos sig sec svc connection)) srv = (Inr kToolVersion, srv)"
    using a(2) version_total [OF h] r by (simp add: client_refines [OF a(1) ok r] client)
  assume st: "representable st"
  from set_total [OF h st] obtain s' where s': "set_http_proxy_state svc st (service_state srv) = (Inr (), s')" "healthy s'"
      "settings s' = in_force st" by blast
  with a f st have "peer_healthy macos sig sec connection healthy settings (srv\<lparr>service_state := s'\<rparr>)"
    by (auto simp: peer_healthy_def)
  with s' a(2) st show "\<exists>srv'. set_http_proxy_state (XpcServiceClient (server_transport macos sig sec svc connection)) st srv =
      (Inr (), srv') \<and> peer_healthy macos sig sec connection healthy settings srv' \<and>
      settings (service_state srv') = in_force st"
    by (intro exI [of _ "srv\<lparr>service_state := s'\<rparr>"]) (simp add: client_refines [OF a(1) ok st] client)
qed

end

text \<open>
  While the helper is \<open>ready\<close>, a client can be made; that leaves the settings as they are, and the client
  is a \<open>proxy_service\<close> as long as it is used.
\<close>

locale proxy_factory =
  fixes create :: "('s, 's IService) call" and ready :: "'s \<Rightarrow> bool" and settings :: "'s \<Rightarrow> ProxyState"
  assumes create_total: "ready s \<Longrightarrow> \<exists>client s' healthy. create s = (Inr client, s') \<and> settings s' = settings s \<and>
      proxy_service client healthy settings \<and> healthy s' \<and> (\<forall>s. healthy s \<longrightarrow> ready s)"

lemma helper_connects:
  assumes "isClientSignatureValid macos peer_status sig" "isMessageSignatureValid macos sig"
    and "AuthorizedService_new sec authBytes = Inr a" "\<not> terminated srv" "fresh_ids srv"
  shows "\<exists>srv'. helper_connect macos peer_status sig sec service authBytes srv =
      (Inr (XpcServiceClient (server_transport macos sig sec service (nextId srv))), srv') \<and>
    service_state srv' = service_state srv \<and> authorized macos sig (nextId srv) a srv' \<and> fresh_ids srv'"
proof -
  let ?srv = "srv\<lparr>contexts := (contexts srv)(nextId srv \<mapsto> nextId srv), nextId := nextId srv + 1\<rparr>"
  have "connections ?srv (nextId srv) = None" using assms(5) by (simp add: fresh_ids_def)
  then show ?thesis
    using assms by (auto simp: helper_connect_def handleIncomingConnection_def XpcServiceClient_new_def and_then_def
        send_message_def server_transport_request answer_message_def create_message_def data_bytes_def
        client_reply_wrapped return_call_def authorized_def fresh_ids_def)
qed

interpretation wire: proxy_service "XpcServiceClient (server_transport macos sig sec TrustyService connection)"
    "peer_healthy macos sig sec connection sys_healthy trusty_settings" "\<lambda>srv. trusty_settings (service_state srv)"
  for macos sig sec connection
  by (rule trusty.peer_service)

interpretation helper: proxy_factory "helper_connect macos peer_status sig sec TrustyService authBytes"
    "helper_ready macos peer_status sig sec authBytes sys_healthy trusty_settings"
    "\<lambda>srv. trusty_settings (service_state srv)"
  for macos peer_status sig sec authBytes
proof
  fix srv
  assume ready: "helper_ready macos peer_status sig sec authBytes sys_healthy trusty_settings srv"
  then obtain a where a: "isClientSignatureValid macos peer_status sig" "isMessageSignatureValid macos sig"
      "AuthorizedService_new sec authBytes = Inr a" "\<not> terminated srv" "fresh_ids srv" "may_all sec a"
      and h: "sys_healthy (service_state srv)" "representable (trusty_settings (service_state srv))"
    by (auto simp: helper_ready_def)
  from helper_connects [OF a(1-5)] obtain srv' where
    srv': "helper_connect macos peer_status sig sec TrustyService authBytes srv =
      (Inr (XpcServiceClient (server_transport macos sig sec TrustyService (nextId srv))), srv')"
      "service_state srv' = service_state srv" "authorized macos sig (nextId srv) a srv'" "fresh_ids srv'" by blast
  moreover have "peer_healthy macos sig sec (nextId srv) sys_healthy trusty_settings srv'"
    using srv' a(6) h by (auto simp: peer_healthy_def)
  moreover have "\<forall>s. peer_healthy macos sig sec (nextId srv) sys_healthy trusty_settings s \<longrightarrow>
      helper_ready macos peer_status sig sec authBytes sys_healthy trusty_settings s"
    using a by (auto simp: peer_healthy_def helper_ready_def authorized_def)
  ultimately show "\<exists>client s' healthy.
      helper_connect macos peer_status sig sec TrustyService authBytes srv = (Inr client, s') \<and>
      trusty_settings (service_state s') = trusty_settings (service_state srv) \<and>
      proxy_service client healthy (\<lambda>srv. trusty_settings (service_state srv)) \<and> healthy s' \<and>
      (\<forall>s. healthy s \<longrightarrow> helper_ready macos peer_status sig sec authBytes sys_healthy trusty_settings s)"
    using wire.proxy_service_axioms by metis
qed

section \<open>Properties\<close>

text \<open>The settings change only on behalf of an authorized peer: if handling a message changed the state of
  the service, then the signature check let the message pass, the peer had said hello with an
  authorization, the message asked for a change, and the authorization grants the right for it.\<close>

theorem only_authorized_changes:
  assumes "handleIncomingMessage macos sig sec service connection message srv = (r, srv')"
    and "service_state srv' \<noteq> service_state srv"
    and "\<And>s. snd (get_http_proxy_state service s) = s" and "\<And>s. snd (get_current_version service s) = s"
  shows "isMessageSignatureValid macos sig \<and>
    (\<exists>m cid a. unwrap message = Some m \<and> contexts srv connection = Some cid \<and> connections srv cid = Some a \<and>
       (msg_type m = SetProxyState \<and> granted sec a kSetProxyStateRightName \<or>
        msg_type m = ClearProxySettings \<and> granted sec a kClearSettingsRightName))"
proof -
  have get: "snd (and_then (assert_right sec a right) (\<lambda>_. get_http_proxy_state service) s) = s"
    "snd (and_then (assert_right sec a right) (\<lambda>_. get_current_version service) s) = s" for a right s
    using assms(3,4) by (simp_all add: and_then_def assert_right_eq)
  have one: "msg_type m = SetProxyState \<and> granted sec a kSetProxyStateRightName \<or>
      msg_type m = ClearProxySettings \<and> granted sec a kClearSettingsRightName"
    if "snd (handleOne (AuthorizedService sec service a) m s) \<noteq> s" for m a s
    using that get [of a kGetProxyStateRightName s] get [of a kGetToolVersionRightName s]
    by (auto simp: handleOne_def AuthorizedService_def and_then_def return_call_def throw_call_def assert_right_eq
        split: MessageType.splits sum.splits if_splits prod.splits)
  have change: "\<exists>a. connections srv cid = Some a \<and> snd (handleOne (AuthorizedService sec service a) m (service_state srv)) \<noteq> service_state srv"
    if "service_state (snd (answer_message sec service cid m srv)) \<noteq> service_state srv" for cid m
    using that by (auto simp: answer_message_def split: option.splits sum.splits if_splits prod.splits)
  from assms(1,2) obtain m cid where "isMessageSignatureValid macos sig" "unwrap message = Some m"
      "contexts srv connection = Some cid" "service_state (snd (answer_message sec service cid m srv)) \<noteq> service_state srv"
    by (auto simp: handleIncomingMessage_def split: XpcObject.splits option.splits sum.splits if_splits prod.splits)
  with change [of cid m] one show ?thesis by blast
qed

text \<open>A server in front of the example system, with one authorized peer.\<close>

definition open_security :: security where
  "open_security = \<lparr>create_from_external = (\<lambda>_. Some 7), copy_right = (\<lambda>_ _ interactive. interactive)\<rparr>"

definition example_server :: "Sys XpcServer" where
  "example_server = \<lparr>contexts = [5 \<mapsto> 1], connections = [1 \<mapsto> 7], nextId = 2, service_state = example_sys, terminated = False\<rparr>"

definition localhost_state :: ProxyState where
  "localhost_state = \<lparr>is_enabled = True, get_host = ''localhost'', get_port = 9999\<rparr>"

definition good_signature :: signature where
  "good_signature = \<lparr>code_status = 0, requirement_status = 0, validity_status = 0\<rparr>"

lemmas example_defs = open_security_def example_server_def example_sys_def localhost_state_def good_signature_def

lemma trusty_pure: "snd (get_http_proxy_state TrustyService s) = s" "snd (get_current_version TrustyService s) = s"
  by (simp_all add: TrustyService_def trusty_get_def null_defs trusty_version_def call_defs split: option.splits)

lemma only_authorized_changes_witness:
  "isMessageSignatureValid 11 good_signature \<and>
    (\<exists>m cid a. unwrap (client_request SetProxyState (to_xpc localhost_state)) = Some m \<and>
       contexts example_server 5 = Some cid \<and> connections example_server cid = Some a \<and>
       (msg_type m = SetProxyState \<and> granted open_security a kSetProxyStateRightName \<or>
        msg_type m = ClearProxySettings \<and> granted open_security a kClearSettingsRightName))"
proof -
  let ?r = "handleIncomingMessage 11 good_signature open_security TrustyService 5
      (client_request SetProxyState (to_xpc localhost_state)) example_server"
  have "to_int32 (9999 :: 64 word) = 9999" by (simp add: to_int32_def)
  then have "live (service_state (snd ?r)) \<noteq> []"
    by (simp add: handleIncomingMessage_def client_request_def wrap_message_def create_message_def unwrap_def xpc_get_def
        xpc_set_def type_of_code_def isMessageSignatureValid_def validate_xpc_message_or_connection_def answer_message_def
        handleOne_def ProxyState_of_xpc_def to_xpc_def AuthorizedService_def assert_right_def call_defs TrustyService_def
        trusty_set_def set_services_def locker_defs null_defs commit_and_apply_def new_config_def example_defs)
  then have "service_state (snd ?r) \<noteq> service_state example_server"
    by (auto simp: example_server_def example_sys_def)
  then show ?thesis
    by (rule only_authorized_changes [OF prod.collapse [symmetric] _ trusty_pure])
qed

text \<open>C26: the client sees through the connection: for a peer that has said hello with an authorization, each
  call through the client, the wire and the server is the call of the authorized service itself, with its
  result and its effect; an exception arrives as a \<open>std::runtime_error\<close> with its message, and a crash as an
  interrupted connection to a process that has ended.\<close>

theorem client_is_service:
  assumes "authorized macos sig connection a srv" and "representable st'"
    and "\<forall>st. fst (get_http_proxy_state service (service_state srv)) = Inr st \<longrightarrow> representable st"
  shows "get_http_proxy_state (XpcServiceClient (server_transport macos sig sec service connection)) srv =
      on_service (get_http_proxy_state (AuthorizedService sec service a)) srv \<and>
    set_http_proxy_state (XpcServiceClient (server_transport macos sig sec service connection)) st' srv =
      on_service (set_http_proxy_state (AuthorizedService sec service a) st') srv \<and>
    reset_proxy_settings (XpcServiceClient (server_transport macos sig sec service connection)) srv =
      on_service (reset_proxy_settings (AuthorizedService sec service a)) srv \<and>
    get_current_version (XpcServiceClient (server_transport macos sig sec service connection)) srv =
      on_service (get_current_version (AuthorizedService sec service a)) srv"
  by (simp add: client_refines [OF assms(1,3,2)])

lemma client_is_service_witness:
  "get_http_proxy_state (XpcServiceClient (server_transport 11 good_signature open_security TrustyService 5)) example_server =
      (Inr disabled_state, example_server) \<and>
    get_current_version (XpcServiceClient (server_transport 11 good_signature open_security TrustyService 5)) example_server =
      (Inr 1, example_server)"
proof -
  have auth: "authorized 11 good_signature 5 7 example_server"
    by (simp add: authorized_def isMessageSignatureValid_def validate_xpc_message_or_connection_def example_defs)
  have rep: "representable localhost_state" by (simp add: representable_def localhost_state_def)
  have get: "get_http_proxy_state TrustyService (service_state example_server) = (Inr disabled_state, example_sys)"
    by (simp add: TrustyService_def trusty_get_def null_defs call_defs example_server_def example_sys_def
        state_of_config_def disabled_state_def)
  have ok: "\<forall>st. fst (get_http_proxy_state TrustyService (service_state example_server)) = Inr st \<longrightarrow> representable st"
    unfolding get by (simp add: representable_def disabled_state_def)
  note client = client_is_service [OF auth rep ok, of open_security]
  have "example_server\<lparr>service_state := example_sys\<rparr> = example_server" by (simp add: example_server_def)
  then have "on_service (get_http_proxy_state (AuthorizedService open_security TrustyService 7)) example_server =
      (Inr disabled_state, example_server)"
    "on_service (get_current_version (AuthorizedService open_security TrustyService 7)) example_server = (Inr 1, example_server)"
    using get by (simp_all add: on_service_def AuthorizedService_def and_then_def assert_right_eq granted_def
        open_security_def TrustyService_def trusty_version_def return_call_def kToolVersion_def example_server_def)
  with client show ?thesis by simp
qed

text \<open>On macOS 12 and later the signature check of a new connection is inverted: a peer whose signing
  requirement was set (status 0) is dropped, and one for which it could not be set is accepted, and no
  message of it is checked afterwards.\<close>

theorem signature_check_inverted:
  assumes "macos \<ge> 12"
  shows "(fst (handleIncomingConnection macos peer_status sig connection srv) \<longleftrightarrow> peer_status \<noteq> 0) \<and>
    isMessageSignatureValid macos any_sig"
  using assms
  by (simp add: handleIncomingConnection_def isClientSignatureValid_def isMessageSignatureValid_def
      validate_xpc_message_or_connection_def)

lemma signature_check_inverted_witness:
  "(fst (handleIncomingConnection 14 0 \<lparr>code_status = 0, requirement_status = 0, validity_status = 0\<rparr> 5
      (XpcServer_new ())) \<longleftrightarrow> (0 :: int) \<noteq> 0) \<and>
    isMessageSignatureValid 14 \<lparr>code_status = 1, requirement_status = 1, validity_status = 1\<rparr>"
  by (rule signature_check_inverted) simp

end
