(* ===== verification/MacProxy.thy ===== *)
theory MacProxy
  imports XpcServer
begin

text \<open>
  \<open>app/mac/MacProxy.cpp\<close>: the proxy that points the system's settings at itself and puts them back. For
  every task it makes a new client of the helper; its lemmas are proved from the contract \<open>proxy_factory\<close>
  alone, which is interpreted by the client over the connection to the server in front of \<open>TrustyService\<close>.
\<close>

section \<open>Rights\<close>

definition kAuthorizationRuleClassAllow :: string where
  "kAuthorizationRuleClassAllow = ''allow''"

definition kAuthorizationRuleAuthenticateAsAdmin :: string where
  "kAuthorizationRuleAuthenticateAsAdmin = ''authenticate-admin''"

text \<open>The rights with the rules the source intends for them, in the order of the map.\<close>

definition auth_names_and_rules :: "(string \<times> string) list" where
  "auth_names_and_rules =
     [(kClearSettingsRightName, kAuthorizationRuleAuthenticateAsAdmin),
      (kGetProxyStateRightName, kAuthorizationRuleClassAllow),
      (kGetToolVersionRightName, kAuthorizationRuleClassAllow),
      (kSetProxyStateRightName, kAuthorizationRuleAuthenticateAsAdmin)]"

text \<open>A bad status is raised as a \<open>std::system_error\<close>.\<close>

definition assert_success :: "int \<Rightarrow> exception + unit" where
  "assert_success status = (if status \<noteq> 0 then Inl (SystemError status) else Inr ())"

text \<open>The rules in the authorization database are a map; the calls of the security service can also fail for other reasons than
  a right without a rule. A status is 0 on success.\<close>

record AuthCalls =
  create_status :: int
  get_failure :: "string \<Rightarrow> int"
  set_status :: "string \<Rightarrow> int"

definition errAuthorizationDenied :: int where
  "errAuthorizationDenied = -60005"

definition right_get :: "AuthCalls \<Rightarrow> string \<Rightarrow> (string \<rightharpoonup> string) \<Rightarrow> int" where
  "right_get A name db =
     (if get_failure A name \<noteq> 0 then get_failure A name else if db name = None then errAuthorizationDenied else 0)"

definition install_right :: "AuthCalls \<Rightarrow> string \<times> string \<Rightarrow> (string \<rightharpoonup> string, unit) call" where
  "install_right A pair db =
     (let status = right_get A (fst pair) db
      in if status = errAuthorizationDenied then
           let rule = kAuthorizationRuleClassAllow; status = set_status A (fst pair)
           in (assert_success status, if status = 0 then db(fst pair \<mapsto> rule) else db)
         else (assert_success status, db))"

fun install_rights :: "AuthCalls \<Rightarrow> (string \<times> string) list \<Rightarrow> (string \<rightharpoonup> string, unit) call" where
  "install_rights A [] = return_call ()"
| "install_rights A (pair # pairs) = and_then (install_right A pair) (\<lambda>_. install_rights A pairs)"

definition init_auth :: "AuthCalls \<Rightarrow> (string \<rightharpoonup> string, unit) call" where
  "init_auth A = and_then (\<lambda>db. (assert_success (create_status A), db)) (\<lambda>_. install_rights A auth_names_and_rules)"

section \<open>MacProxy\<close>

text \<open>\<open>port_to_restore_\<close> is not initialised by the constructor: its first value is arbitrary.\<close>

record MacProxy =
  mac_port :: int
  enabled :: bool
  hostname_to_restore :: bytes
  port_to_restore :: int

definition MacProxy_new :: "int \<Rightarrow> int \<Rightarrow> MacProxy" where
  "MacProxy_new port garbage = \<lparr>mac_port = port, enabled = False, hostname_to_restore = [], port_to_restore = garbage\<rparr>"

text \<open>The constructor with its \<open>std::call_once\<close>: the flag, and the database. An exception leaves the flag unset.\<close>

definition MacProxy_construct :: "AuthCalls \<Rightarrow> int \<Rightarrow> int \<Rightarrow> (bool \<times> (string \<rightharpoonup> string), MacProxy) call" where
  "MacProxy_construct A port garbage = (\<lambda>(auth_init_flag, db).
     if auth_init_flag then (Inr (MacProxy_new port garbage), (auth_init_flag, db))
     else case init_auth A db of
         (Inl e, db) \<Rightarrow> (Inl e, (False, db))
       | (Inr _, db) \<Rightarrow> (Inr (MacProxy_new port garbage), (True, db)))"

definition MacProxy_is_enabled :: "MacProxy \<Rightarrow> bool" where
  "MacProxy_is_enabled mp = enabled mp"

text \<open>
  \<open>acquire_rights\<close>: \<open>copy_rights\<close> stands for \<open>AuthorizationCopyRights\<close>, a status and the items of the result set with
  the flag that says that a right cannot be authorized beforehand. The names so flagged are logged, then a
  bad status raises. The items are read before the status is looked at: when the call fails the pointer to
  them was never set, and what is read through it is arbitrary.
\<close>

type_synonym copy_rights = "string list \<Rightarrow> int \<times> (string \<times> bool) list"

definition acquire_rights :: "copy_rights \<Rightarrow> string list \<Rightarrow> string list \<times> (exception + unit)" where
  "acquire_rights copy_rights names =
     (case copy_rights names of (status, items) \<Rightarrow>
        (map fst (filter snd items), assert_success status))"

definition client_rights :: "string list" where
  "client_rights = [kGetProxyStateRightName, kSetProxyStateRightName, kClearSettingsRightName, kGetToolVersionRightName]"

text \<open>\<open>authBytes\<close> is the external form of the authorization, \<open>connect\<close> the constructor of the client.\<close>

definition create_client_with_rights ::
  "copy_rights \<Rightarrow> bytes \<Rightarrow> (bytes \<Rightarrow> ('s, 's IService) call) \<Rightarrow> ('s, 's IService) call" where
  "create_client_with_rights copy_rights authBytes connect =
     (case snd (acquire_rights copy_rights client_rights) of
        Inl e \<Rightarrow> throw_call e
      | Inr _ \<Rightarrow> connect authBytes)"

text \<open>Any exception on the way means that the helper has to be installed; a crash is none.\<close>

definition should_install_helper_tool :: "('s, 's IService) call \<Rightarrow> ('s, bool) call" where
  "should_install_helper_tool create s =
     (case and_then create get_current_version s of
        (Inl e, s') \<Rightarrow> (if e = Crash then Inl Crash else Inr True, s')
      | (Inr version, s') \<Rightarrow> (Inr (version < kToolVersion), s'))"

text \<open>
  \<open>bless_helper_program\<close>: what the system answered, and the error code after it. A failure whose code is 0
  leaves no error.
\<close>

record Blessing =
  rights_status :: int
  job_blessed :: bool
  bless_error :: int

definition bless_helper_program :: "Blessing \<Rightarrow> int \<Rightarrow> int" where
  "bless_helper_program answer ec =
     (if rights_status answer = 0
      then if \<not> job_blessed answer then bless_error answer else ec
      else rights_status answer)"

text \<open>The loop of at most three attempts, from the one given; the result is the error left at its end.\<close>

function bless_attempts :: "(nat \<Rightarrow> Blessing) \<Rightarrow> nat \<Rightarrow> int \<Rightarrow> int" where
  "bless_attempts answers attempts ec =
     (if attempts < 3
      then let ec = bless_helper_program (answers attempts) 0
           in if ec = 0 then ec else bless_attempts answers (Suc attempts) ec
      else ec)"
  by pat_completeness auto
termination by (relation "measure (\<lambda>(_, attempts, _). 3 - attempts)") auto

declare bless_attempts.simps [simp del]

lemma bless_attempts_zero:
  "bless_attempts answers 0 0 = 0 \<longleftrightarrow> (\<exists>i < 3. bless_helper_program (answers i) 0 = 0)"
proof -
  have "bless_attempts answers 0 0 = 0 \<longleftrightarrow> (\<exists>i \<in> {0, 1, 2}. bless_helper_program (answers i) 0 = 0)"
    by (simp add: bless_attempts.simps Let_def numeral_2_eq_2)
  also have "{0, 1, 2} = {i. i < (3 :: nat)}" by auto
  finally show ?thesis by auto
qed

text \<open>
  \<open>enable\<close> and \<open>disable\<close> act on the helper's state and the proxy's. \<open>create\<close> makes a client, \<open>blessings\<close> are
  the answers to the attempts to install the helper.
\<close>

definition lift_call :: "('s, 'a) call \<Rightarrow> ('s \<times> MacProxy, 'a) call" where
  "lift_call c = (\<lambda>(s, mp). case c s of (r, s') \<Rightarrow> (r, (s', mp)))"

definition apply_settings :: "'s IService \<Rightarrow> ('s \<times> MacProxy, unit) call" where
  "apply_settings client =
     and_then (lift_call (get_http_proxy_state client)) (\<lambda>current (s, mp).
       if \<not> is_enabled current \<or> get_host current \<noteq> ''localhost'' \<or> get_port current \<noteq> mac_port mp
       then and_then
         (lift_call (set_http_proxy_state client \<lparr>is_enabled = True, get_host = ''localhost'', get_port = mac_port mp\<rparr>))
         (\<lambda>_ (s, mp). (Inr (), (s, mp\<lparr>enabled := True\<rparr>)))
         (s, mp\<lparr>hostname_to_restore := get_host current, port_to_restore := get_port current\<rparr>)
       else (Inr (), (s, mp\<lparr>enabled := True\<rparr>)))"

definition MacProxy_enable :: "('s, 's IService) call \<Rightarrow> (nat \<Rightarrow> Blessing) \<Rightarrow> ('s \<times> MacProxy, unit) call" where
  "MacProxy_enable create blessings = (\<lambda>(s, mp).
     if enabled mp then (Inr (), (s, mp))
     else and_then (lift_call (should_install_helper_tool create)) (\<lambda>install (s, mp).
       let ec = bless_attempts blessings 0 0
       in if install \<and> ec \<noteq> 0 then (Inl (SystemError ec), (s, mp))
          else and_then (lift_call create) apply_settings (s, mp)) (s, mp))"

definition MacProxy_disable :: "('s, 's IService) call \<Rightarrow> ('s \<times> MacProxy, unit) call" where
  "MacProxy_disable create = (\<lambda>(s, mp).
     if enabled mp then
       and_then (lift_call create) (\<lambda>client. and_then
         (lift_call (set_http_proxy_state client
           \<lparr>is_enabled = False, get_host = hostname_to_restore mp, get_port = port_to_restore mp\<rparr>))
         (\<lambda>_ (s, mp). (Inr (), (s, mp\<lparr>enabled := False\<rparr>)))) (s, mp)
     else (Inr (), (s, mp)))"

text \<open>The destructor disables and swallows what that raises.\<close>

definition MacProxy_delete :: "('s, 's IService) call \<Rightarrow> 's \<times> MacProxy \<Rightarrow> 's \<times> MacProxy" where
  "MacProxy_delete create p = snd (MacProxy_disable create p)"

definition say_hi :: "('s, 's IService) call \<Rightarrow> ('s \<times> MacProxy, unit) call" where
  "say_hi create = (\<lambda>(s, mp). lift_call
     (and_then create (\<lambda>client.
      and_then (get_http_proxy_state client) (\<lambda>_.
      and_then (set_http_proxy_state client \<lparr>is_enabled = True, get_host = ''localhost'', get_port = mac_port mp\<rparr>) (\<lambda>_.
      and_then (get_http_proxy_state client) (\<lambda>_. reset_proxy_settings client))))) (s, mp))"

lemmas mac_defs = MacProxy_enable_def MacProxy_disable_def apply_settings_def lift_call_def and_then_def

text \<open>The settings that point at the proxy.\<close>

definition own_settings :: "MacProxy \<Rightarrow> ProxyState" where
  "own_settings mp = \<lparr>is_enabled = True, get_host = ''localhost'', get_port = mac_port mp\<rparr>"

lemma create_with_rights:
  "fst (copy_rights client_rights) = 0 \<Longrightarrow> create_client_with_rights copy_rights authBytes connect = connect authBytes"
  by (simp add: create_client_with_rights_def acquire_rights_def assert_success_def case_prod_beta)

section \<open>From the contract\<close>

context proxy_factory
begin

lemma helper_current:
  assumes "ready s"
  shows "\<exists>s'. should_install_helper_tool create s = (Inr False, s') \<and> ready s' \<and> settings s' = settings s"
proof -
  from create_total [OF assms] obtain client s' healthy where c: "create s = (Inr client, s')" "settings s' = settings s"
      "proxy_service client healthy settings" "healthy s'" "\<forall>s. healthy s \<longrightarrow> ready s" by blast
  with proxy_service.version_total [OF c(3,4)] show ?thesis
    by (simp add: should_install_helper_tool_def and_then_def)
qed

lemma client_sets:
  assumes "ready s" "representable st"
  shows "\<exists>client s0 s'. create s = (Inr client, s0) \<and> get_http_proxy_state client s0 = (Inr (settings s), s0) \<and>
    ready s0 \<and> settings s0 = settings s \<and>
    set_http_proxy_state client st s0 = (Inr (), s') \<and> ready s' \<and> settings s' = in_force st"
proof -
  from create_total [OF assms(1)] obtain client s0 healthy where c: "create s = (Inr client, s0)" "settings s0 = settings s"
      "proxy_service client healthy settings" "healthy s0" "\<forall>s. healthy s \<longrightarrow> ready s" by blast
  from proxy_service.set_total [OF c(3,4) assms(2)] proxy_service.get_total [OF c(3,4)] c show ?thesis by auto
qed

lemma enable_sets:
  assumes "ready s" "representable (own_settings mp)" "\<not> enabled mp" "settings s \<noteq> own_settings mp"
  shows "\<exists>s'. MacProxy_enable create blessings (s, mp) = (Inr (), (s', mp\<lparr>enabled := True,
      hostname_to_restore := get_host (settings s), port_to_restore := get_port (settings s)\<rparr>)) \<and>
    ready s' \<and> settings s' = own_settings mp"
proof -
  from helper_current [OF assms(1)] obtain s1 where s1: "should_install_helper_tool create s = (Inr False, s1)" "ready s1"
      "settings s1 = settings s" by blast
  from client_sets [OF s1(2) assms(2)] obtain client s0 s' where c: "create s1 = (Inr client, s0)"
      "get_http_proxy_state client s0 = (Inr (settings s), s0)"
      "set_http_proxy_state client (own_settings mp) s0 = (Inr (), s')" "ready s'" "settings s' = own_settings mp"
    unfolding s1(3) by (auto simp: own_settings_def in_force_def)
  have "\<not> is_enabled (settings s) \<or> get_host (settings s) \<noteq> ''localhost'' \<or> get_port (settings s) \<noteq> mac_port mp"
    using assms(4) by (cases "settings s") (simp add: own_settings_def)
  moreover have "mp\<lparr>hostname_to_restore := h, port_to_restore := p, enabled := True\<rparr> =
      mp\<lparr>enabled := True, hostname_to_restore := h, port_to_restore := p\<rparr>" for h p by (cases mp) simp
  ultimately show ?thesis
    using assms(3) s1(1) c by (simp add: mac_defs own_settings_def [symmetric])
qed

lemma enable_already:
  assumes "ready s" "\<not> enabled mp" "settings s = own_settings mp"
  shows "\<exists>s'. MacProxy_enable create blessings (s, mp) = (Inr (), (s', mp\<lparr>enabled := True\<rparr>)) \<and>
    ready s' \<and> settings s' = own_settings mp"
proof -
  from helper_current [OF assms(1)] obtain s1 where s1: "should_install_helper_tool create s = (Inr False, s1)" "ready s1"
      "settings s1 = settings s" by blast
  have "representable disabled_state" by (simp add: representable_def disabled_state_def)
  from client_sets [OF s1(2) this] obtain client s0 where "create s1 = (Inr client, s0)"
      "get_http_proxy_state client s0 = (Inr (own_settings mp), s0)" "ready s0" "settings s0 = own_settings mp"
    unfolding s1(3) assms(3) by blast
  then show ?thesis using assms(2) s1(1) by (auto simp: mac_defs own_settings_def)
qed

lemma disable_resets:
  assumes "ready s" "enabled mp"
    and "representable \<lparr>is_enabled = False, get_host = hostname_to_restore mp, get_port = port_to_restore mp\<rparr>"
  shows "\<exists>s'. MacProxy_disable create (s, mp) = (Inr (), (s', mp\<lparr>enabled := False\<rparr>)) \<and> ready s' \<and>
    settings s' = in_force \<lparr>is_enabled = False, get_host = hostname_to_restore mp, get_port = port_to_restore mp\<rparr>"
proof -
  from client_sets [OF assms(1,3)] obtain client s0 s' where "create s = (Inr client, s0)"
      "set_http_proxy_state client \<lparr>is_enabled = False, get_host = hostname_to_restore mp, get_port = port_to_restore mp\<rparr> s0
        = (Inr (), s')" "ready s'"
      "settings s' = in_force \<lparr>is_enabled = False, get_host = hostname_to_restore mp, get_port = port_to_restore mp\<rparr>"
    by blast
  with assms(2) show ?thesis by (auto simp: mac_defs)
qed

text \<open>Without the helper, and with every attempt to install it failing, nothing changes.\<close>

lemma enable_fails:
  assumes "\<not> enabled mp" "\<And>s. \<exists>e s'. create s = (Inl e, s') \<and> e \<noteq> Crash" "\<forall>i < 3. bless_helper_program (blessings i) 0 \<noteq> 0"
  shows "\<exists>s'. MacProxy_enable create blessings (s, mp) = (Inl (SystemError (bless_attempts blessings 0 0)), (s', mp))"
proof -
  from assms(2) obtain e s' where "create s = (Inl e, s')" "e \<noteq> Crash" by blast
  then have "should_install_helper_tool create s = (Inr True, s')" by (simp add: should_install_helper_tool_def and_then_def)
  with assms(1,3) show ?thesis by (auto simp: MacProxy_enable_def lift_call_def and_then_def Let_def bless_attempts_zero)
qed

text \<open>\<open>say_hi\<close> gets as far as the reset, with the settings pointing at the proxy.\<close>

lemma say_hi_until_reset:
  assumes "ready s" "representable (own_settings mp)"
  shows "\<exists>client s'. say_hi create (s, mp) = lift_call (reset_proxy_settings (client :: _ IService)) (s', mp) \<and> settings s' = own_settings mp"
proof -
  from create_total [OF assms(1)] obtain client s0 healthy where c: "create s = (Inr client, s0)"
      "proxy_service client healthy settings" "healthy s0" by blast
  from proxy_service.set_total [OF c(2,3) assms(2)] obtain s' where set: "set_http_proxy_state client (own_settings mp) s0 = (Inr (), s')"
      "healthy s'" "settings s' = in_force (own_settings mp)" by blast
  have "in_force (own_settings mp) = own_settings mp" by (simp add: in_force_def own_settings_def)
  with set c(1) proxy_service.get_total [OF c(2,3)] proxy_service.get_total [OF c(2) set(2)] show ?thesis
    by - (rule exI [of _ client], rule exI [of _ s'], auto simp: say_hi_def lift_call_def and_then_def own_settings_def)
qed

text \<open>What is left after a session.\<close>

lemma session:
  assumes "ready s" "representable (settings s)" "representable (own_settings mp)" "\<not> enabled mp"
    and "settings s \<noteq> own_settings mp"
  shows "\<exists>s1 mp1 s2 mp2. MacProxy_enable create blessings (s, mp) = (Inr (), (s1, mp1)) \<and> settings s1 = own_settings mp \<and>
    ready s1 \<and> MacProxy_disable create (s1, mp1) = (Inr (), (s2, mp2)) \<and> ready s2 \<and>
    settings s2 = in_force ((settings s)\<lparr>is_enabled := False\<rparr>)"
proof -
  let ?mp = "mp\<lparr>enabled := True, hostname_to_restore := get_host (settings s), port_to_restore := get_port (settings s)\<rparr>"
  from enable_sets [OF assms(1,3-5)] obtain s1 where s1: "MacProxy_enable create blessings (s, mp) = (Inr (), (s1, ?mp))"
      "ready s1" "settings s1 = own_settings mp" by blast
  have old: "\<lparr>is_enabled = False, get_host = hostname_to_restore ?mp, get_port = port_to_restore ?mp\<rparr> =
      (settings s)\<lparr>is_enabled := False\<rparr>" by (cases "settings s") simp
  have "representable ((settings s)\<lparr>is_enabled := False\<rparr>)" using assms(2) by (simp add: representable_def)
  from disable_resets [OF s1(2), of ?mp, unfolded old, OF _ this] s1 show ?thesis by auto
qed

lemma session_already_set:
  assumes "ready s" "settings s = own_settings (MacProxy_new port garbage)" "- (2 ^ 31) \<le> garbage" "garbage < 2 ^ 31"
  shows "\<exists>s1 mp1 s2 mp2. MacProxy_enable create blessings (s, MacProxy_new port garbage) = (Inr (), (s1, mp1)) \<and>
    settings s1 = settings s \<and> ready s1 \<and> MacProxy_disable create (s1, mp1) = (Inr (), (s2, mp2)) \<and>
    ready s2 \<and> settings s2 = disabled_state"
proof -
  let ?mp = "(MacProxy_new port garbage)\<lparr>enabled := True\<rparr>"
  have "\<not> enabled (MacProxy_new port garbage)" by (simp add: MacProxy_new_def)
  from enable_already [OF assms(1) this assms(2)] obtain s1 where
    "MacProxy_enable create blessings (s, MacProxy_new port garbage) = (Inr (), (s1, ?mp))" "ready s1" "settings s1 = settings s"
    unfolding assms(2) by blast
  moreover from disable_resets [OF this(2), of ?mp] assms(3,4) obtain s2 where
    "MacProxy_disable create (s1, ?mp) = (Inr (), (s2, ?mp\<lparr>enabled := False\<rparr>))" "ready s2" "settings s2 = disabled_state"
    by (auto simp: MacProxy_new_def representable_def in_force_def)
  ultimately show ?thesis by blast
qed

end

section \<open>Properties\<close>

text \<open>With the helper ready and the system's calls succeeding, enabling the proxy makes a client, is authorized,
  and points the system's settings at localhost and the proxy's port; disabling it puts host and port back,
  but always as disabled: whether the user had the old proxy switched on is not restored. The whole way is
  covered: client, wire, server, authorization, service.\<close>

theorem proxy_session:
  assumes "helper_ready macos peer_status sig sec authBytes sys_healthy trusty_settings srv"
    and "st = trusty_settings (service_state srv)" and "st \<noteq> own_settings mp"
    and "\<not> enabled mp" and "0 \<le> mac_port mp" and "mac_port mp < 65536"
    and "fst (copy_rights client_rights) = 0"
    and "create = create_client_with_rights copy_rights authBytes (helper_connect macos peer_status sig sec TrustyService)"
  shows "\<exists>s1 mp1 s2 mp2. MacProxy_enable create blessings (srv, mp) = (Inr (), (s1, mp1)) \<and>
    trusty_get (service_state s1) = (Inr \<lparr>is_enabled = True, get_host = ''localhost'', get_port = mac_port mp\<rparr>, service_state s1) \<and>
    MacProxy_disable create (s1, mp1) = (Inr (), (s2, mp2)) \<and>
    trusty_get (service_state s2) = (Inr (if get_host st = [] then disabled_state else st\<lparr>is_enabled := False\<rparr>), service_state s2)"
proof -
  have ready: "representable (trusty_settings (service_state srv))" using assms(1) by (simp add: helper_ready_def)
  have own: "representable (own_settings mp)" using assms(5,6) by (simp add: representable_def own_settings_def)
  from helper.session [OF assms(1) ready own assms(4), of blessings] assms(2,3)
  obtain s1 mp1 s2 mp2 where s: "MacProxy_enable create blessings (srv, mp) = (Inr (), (s1, mp1))"
      "trusty_settings (service_state s1) = own_settings mp" "MacProxy_disable create (s1, mp1) = (Inr (), (s2, mp2))"
      "trusty_settings (service_state s2) = in_force (st\<lparr>is_enabled := False\<rparr>)"
      "helper_ready macos peer_status sig sec authBytes sys_healthy trusty_settings s1"
      "helper_ready macos peer_status sig sec authBytes sys_healthy trusty_settings s2"
    unfolding assms(8) create_with_rights [of copy_rights, OF assms(7)] by blast
  have "sys_healthy (service_state s1)" "sys_healthy (service_state s2)" using s(5,6) by (simp_all add: helper_ready_def)
  from this [THEN trusty_get_run] s(1-4) show ?thesis
    by (auto simp: own_settings_def in_force_def)
qed

definition used_sys :: Sys where
  "used_sys = example_sys\<lparr>saved := [\<lparr>service_id = ''b'', proxies = Some \<lparr>proto_enabled = True,
     config = Some \<lparr>http_proxy = Some ''corp'', http_port = Some 80, http_enable = Some 1, other_settings = []\<rparr>\<rparr>\<rparr>]\<rparr>"

definition copies_rights :: copy_rights where
  "copies_rights names = (0, map (\<lambda>name. (name, False)) names)"

definition unanswered :: "nat \<Rightarrow> Blessing" where
  "unanswered i = \<lparr>rights_status = -1, job_blessed = False, bless_error = 0\<rparr>"

text \<open>A helper on macOS 11 that has just started, and an authorization that may do everything.\<close>

abbreviation create_client :: "(Sys XpcServer, Sys XpcServer IService) call" where
  "create_client \<equiv> create_client_with_rights copies_rights (replicate 32 CHR ''x'')
     (helper_connect 11 0 good_signature open_security TrustyService)"

lemma example_ready:
  assumes "sys_healthy sys" "representable (trusty_settings sys)"
  shows "helper_ready 11 0 good_signature open_security (replicate 32 CHR ''x'') sys_healthy trusty_settings (XpcServer_new sys)"
  using assms
  by (simp add: helper_ready_def isClientSignatureValid_def isMessageSignatureValid_def validate_xpc_message_or_connection_def
      good_signature_def AuthorizedService_new_def external_form_size_def open_security_def may_all_def granted_def
      fresh_ids_def XpcServer_new_def)

lemma used_settings: "trusty_settings used_sys = \<lparr>is_enabled = True, get_host = ''corp'', get_port = 80\<rparr>"
  by (simp add: trusty_settings_def used_sys_def example_sys_def state_of_config_def)

lemma used_ready:
  "helper_ready 11 0 good_signature open_security (replicate 32 CHR ''x'') sys_healthy trusty_settings (XpcServer_new used_sys)"
proof (rule example_ready)
  show "sys_healthy used_sys" by (simp add: sys_healthy_def used_sys_def example_sys_def usable_def)
  show "representable (trusty_settings used_sys)" by (simp add: used_settings representable_def)
qed

lemma proxy_session_witness:
  "\<exists>s1 mp1 s2 mp2. MacProxy_enable create_client unanswered (XpcServer_new used_sys, MacProxy_new 9999 0) = (Inr (), (s1, mp1)) \<and>
    trusty_get (service_state s1) = (Inr localhost_state, service_state s1) \<and>
    MacProxy_disable create_client (s1, mp1) = (Inr (), (s2, mp2)) \<and>
    trusty_get (service_state s2) = (Inr \<lparr>is_enabled = False, get_host = ''corp'', get_port = 80\<rparr>, service_state s2)"
proof -
  let ?st = "\<lparr>is_enabled = True, get_host = ''corp'', get_port = 80\<rparr>"
  have st: "?st = trusty_settings (service_state (XpcServer_new used_sys))" by (simp add: XpcServer_new_def used_settings)
  have "?st \<noteq> own_settings (MacProxy_new 9999 0)" "\<not> enabled (MacProxy_new 9999 0)" "mac_port (MacProxy_new 9999 0) = 9999"
    by (simp_all add: MacProxy_new_def own_settings_def)
  then show ?thesis
    using proxy_session [OF used_ready st, of "MacProxy_new 9999 0", OF _ _ _ _ _ refl, of copies_rights unanswered]
    by (simp add: localhost_state_def copies_rights_def)
qed

text \<open>When the settings already point at the proxy, a session ends by removing them: the values to restore
  were never stored, so \<open>disable\<close> writes an empty host, and the helper drops the whole configuration.\<close>

theorem session_wipes_own_settings:
  assumes "helper_ready macos peer_status sig sec authBytes sys_healthy trusty_settings srv"
    and "trusty_settings (service_state srv) = own_settings (MacProxy_new port garbage)"
    and "- (2 ^ 31) \<le> garbage" and "garbage < 2 ^ 31"
    and "fst (copy_rights client_rights) = 0"
    and "create = create_client_with_rights copy_rights authBytes (helper_connect macos peer_status sig sec TrustyService)"
  shows "\<exists>s1 mp1 s2 mp2. MacProxy_enable create blessings (srv, MacProxy_new port garbage) = (Inr (), (s1, mp1)) \<and>
    trusty_get (service_state s1) = (Inr (own_settings (MacProxy_new port garbage)), service_state s1) \<and>
    MacProxy_disable create (s1, mp1) = (Inr (), (s2, mp2)) \<and>
    trusty_get (service_state s2) = (Inr disabled_state, service_state s2)"
proof -
  from helper.session_already_set [OF assms(1-4), of blessings]
  obtain s1 mp1 s2 mp2 where s: "MacProxy_enable create blessings (srv, MacProxy_new port garbage) = (Inr (), (s1, mp1))"
      "trusty_settings (service_state s1) = trusty_settings (service_state srv)"
      "MacProxy_disable create (s1, mp1) = (Inr (), (s2, mp2))" "trusty_settings (service_state s2) = disabled_state"
      "helper_ready macos peer_status sig sec authBytes sys_healthy trusty_settings s1"
      "helper_ready macos peer_status sig sec authBytes sys_healthy trusty_settings s2"
    unfolding assms(6) create_with_rights [of copy_rights, OF assms(5)] by blast
  have "sys_healthy (service_state s1)" "sys_healthy (service_state s2)" using s(5,6) by (simp_all add: helper_ready_def)
  from this [THEN trusty_get_run] s(1-4) assms(2) show ?thesis by auto
qed

definition own_sys :: Sys where
  "own_sys = example_sys\<lparr>saved := [\<lparr>service_id = ''b'', proxies = Some \<lparr>proto_enabled = True,
     config = Some \<lparr>http_proxy = Some ''localhost'', http_port = Some 9999, http_enable = Some 1, other_settings = []\<rparr>\<rparr>\<rparr>]\<rparr>"

lemma session_wipes_own_settings_witness:
  "\<exists>s1 mp1 s2 mp2. MacProxy_enable create_client unanswered (XpcServer_new own_sys, MacProxy_new 9999 42) = (Inr (), (s1, mp1)) \<and>
    trusty_get (service_state s1) = (Inr localhost_state, service_state s1) \<and>
    MacProxy_disable create_client (s1, mp1) = (Inr (), (s2, mp2)) \<and>
    trusty_get (service_state s2) = (Inr disabled_state, service_state s2)"
proof -
  have st: "trusty_settings own_sys = \<lparr>is_enabled = True, get_host = ''localhost'', get_port = 9999\<rparr>"
    by (simp add: trusty_settings_def own_sys_def example_sys_def state_of_config_def)
  have "sys_healthy own_sys" by (simp add: sys_healthy_def own_sys_def example_sys_def usable_def)
  moreover have "representable (trusty_settings own_sys)" by (simp add: st representable_def)
  ultimately have ready: "helper_ready 11 0 good_signature open_security (replicate 32 CHR ''x'') sys_healthy trusty_settings
      (XpcServer_new own_sys)" by (rule example_ready)
  have own: "trusty_settings (service_state (XpcServer_new own_sys)) = own_settings (MacProxy_new 9999 42)"
    by (simp add: st own_settings_def MacProxy_new_def XpcServer_new_def)
  show ?thesis
    using session_wipes_own_settings [OF ready own _ _ _ refl, of copies_rights unanswered]
    by (simp add: copies_rights_def own_settings_def localhost_state_def MacProxy_new_def)
qed

text \<open>On a system without rules for them, every right is installed with the rule that grants it to
  everyone, also the two for which the source names administrator authentication.\<close>

theorem rights_granted_to_all:
  assumes "create_status A = 0" and "\<And>name. get_failure A name = 0" and "\<And>name. set_status A name = 0"
  shows "\<exists>db. init_auth A Map.empty = (Inr (), db) \<and>
    db kSetProxyStateRightName = Some kAuthorizationRuleClassAllow \<and>
    db kClearSettingsRightName = Some kAuthorizationRuleClassAllow \<and>
    map_of auth_names_and_rules kSetProxyStateRightName = Some kAuthorizationRuleAuthenticateAsAdmin \<and>
    map_of auth_names_and_rules kClearSettingsRightName = Some kAuthorizationRuleAuthenticateAsAdmin"
proof -
  have names: "distinct (map fst auth_names_and_rules)" by code_simp
  have "install_rights A pairs db = (Inr (), \<lambda>name. if name \<in> set (map fst pairs) then Some kAuthorizationRuleClassAllow else db name)"
    if "distinct (map fst pairs)" "\<forall>name \<in> set (map fst pairs). db name = None" for pairs db
    using that
  proof (induction pairs arbitrary: db)
    case (Cons pair pairs)
    then have "install_right A pair db = (Inr (), db(fst pair \<mapsto> kAuthorizationRuleClassAllow))"
      using assms(2,3) by (simp add: install_right_def right_get_def assert_success_def)
    moreover from Cons.prems have "\<forall>name \<in> set (map fst pairs). (db(fst pair \<mapsto> kAuthorizationRuleClassAllow)) name = None"
      by (metis distinct.simps(2) fun_upd_other list.set_intros(2) list.simps(9))
    ultimately show ?case using Cons.IH Cons.prems(1) by (fastforce simp: and_then_def)
  qed (simp add: return_call_def)
  from this [OF names, of Map.empty] assms(1)
  have "init_auth A Map.empty = (Inr (), \<lambda>name. if name \<in> set (map fst auth_names_and_rules) then Some kAuthorizationRuleClassAllow else None)"
    by (simp add: init_auth_def and_then_def assert_success_def)
  moreover have "kSetProxyStateRightName \<in> set (map fst auth_names_and_rules)" "kClearSettingsRightName \<in> set (map fst auth_names_and_rules)"
    "map_of auth_names_and_rules kSetProxyStateRightName = Some kAuthorizationRuleAuthenticateAsAdmin"
    "map_of auth_names_and_rules kClearSettingsRightName = Some kAuthorizationRuleAuthenticateAsAdmin"
    by code_simp+
  ultimately show ?thesis by simp
qed

text \<open>When the database refuses a rule, the proxy cannot be made, and the next attempt starts over.\<close>

lemma refused_right:
  assumes "init_auth A db = (Inl e, db')"
  shows "MacProxy_construct A port garbage (False, db) = (Inl e, (False, db'))"
  using assms by (simp add: MacProxy_construct_def)

lemma rights_granted_to_all_witness:
  "\<exists>db. init_auth \<lparr>create_status = 0, get_failure = (\<lambda>_. 0), set_status = (\<lambda>_. 0)\<rparr> Map.empty = (Inr (), db) \<and>
    db kSetProxyStateRightName = Some kAuthorizationRuleClassAllow"
  using rights_granted_to_all [of "\<lparr>create_status = 0, get_failure = (\<lambda>_. 0), set_status = (\<lambda>_. 0)\<rparr>"] by auto

end
