(* ===== verification/Application.thy ===== *)
theory Application
  imports MainWindow MacProxy
begin

text \<open>
  The application around the proxy: \<open>app/MainWindow.cpp\<close> (constructor, destructor, menu), \<open>app/ProxyFactory.cpp\<close> and
  \<open>app/main.cpp\<close>. The platform's proxy is known to the window by its two virtual operations; the slot of the proxy is
  connected by \<open>Proxy::init\<close> and disconnected by \<open>Proxy::deinit\<close>. An exception that ends the construction unwinds the stack. Events are what Qt's loop delivers: clients, and
  choices of the user with the answers to the dialogs.
\<close>

section \<open>The proxy of the platform\<close>

record 'p platform =
  platform_enable :: "('p, unit) call"
  platform_delete :: "'p \<Rightarrow> 'p"

text \<open>The generic proxy, for systems without support, and the one of macOS.\<close>

definition generic_platform :: "'p platform" where
  "generic_platform = \<lparr>platform_enable = return_call (), platform_delete = id\<rparr>"

definition mac_platform :: "('s, 's IService) call \<Rightarrow> (nat \<Rightarrow> Blessing) \<Rightarrow> ('s \<times> MacProxy) platform" where
  "mac_platform create blessings =
     \<lparr>platform_enable = MacProxy_enable create blessings, platform_delete = MacProxy_delete create\<rparr>"

section \<open>The window\<close>

record 'p Window =
  platform_proxy :: 'p
  receiving :: bool
  proxy :: Proxy
  txModel :: TransactionModel
  save_enabled :: bool
  files :: files
  quitting :: bool

definition proxy_port :: "int option \<Rightarrow> int" where
  "proxy_port setting = (case setting of None \<Rightarrow> 9998 | Some port \<Rightarrow> port)"

definition Proxy_init :: "'p Window \<Rightarrow> 'p Window" where
  "Proxy_init w = w\<lparr>receiving := True\<rparr>"

definition Proxy_deinit :: "'p Window \<Rightarrow> 'p Window" where
  "Proxy_deinit w = w\<lparr>receiving := False\<rparr>"

text \<open>What becomes of the construction: the proxy was not made (for instance because the port is taken), the window
  failed and its children were deleted, or it runs.\<close>

datatype 'p Startup = NoProxy exception | NoWindow exception 'p | Running "'p Window"

text \<open>The settings are only read: whatever port they hold is passed on.\<close>

definition createMenu :: "'p Window \<Rightarrow> 'p Window" where
  "createMenu w = w\<lparr>save_enabled := False\<rparr>"

definition MainWindow_new :: "'p platform \<Rightarrow> (int \<Rightarrow> exception + 'p) \<Rightarrow> int option \<Rightarrow> files \<Rightarrow> 'p Startup" where
  "MainWindow_new pf create_proxy setting fs =
     (case create_proxy (proxy_port setting) of
        Inl e \<Rightarrow> NoProxy e
      | Inr p \<Rightarrow>
          (case platform_enable pf p of
             (Inl e, p) \<Rightarrow> NoWindow e (if e = Crash then p else platform_delete pf p)
           | (Inr _, p) \<Rightarrow> Running (Proxy_init (createMenu
               \<lparr>platform_proxy = p, receiving = False, proxy = Proxy_new, txModel = TransactionModel_new,
                save_enabled = True, files = fs, quitting = False\<rparr>))))"

definition MainWindow_delete :: "'p platform \<Rightarrow> 'p Window \<Rightarrow> 'p Window" where
  "MainWindow_delete pf w = (let w = Proxy_deinit w in w\<lparr>platform_proxy := platform_delete pf (platform_proxy w)\<rparr>)"

datatype WindowEvent =
    ClientConnected conn
  | SaveChosen SaveDialog "int \<Rightarrow> Reads"
  | QuitChosen
  | AboutChosen

text \<open>A client of a proxy whose slot is not connected is dropped. \<open>transactionStarted\<close> goes to the table and to the save
  action, which it enables. Both \<open>Quit\<close> and \<open>About\<close> leave the loop.\<close>

definition client_connected :: "conn \<Rightarrow> 'p Window \<Rightarrow> 'p Window" where
  "client_connected c w =
     (if \<not> receiving w then w
      else w\<lparr>proxy := on_client_connected c (proxy w),
             txModel := transactionStarted (sint (next_id (proxy w))) (txModel w),
             save_enabled := True\<rparr>)"

fun window_event :: "qt \<Rightarrow> WindowEvent \<Rightarrow> 'p Window \<Rightarrow> 'p Window" where
  "window_event Q (ClientConnected c) w = client_connected c w"
| "window_event Q (SaveChosen dlg tx_of) w =
     (if save_enabled w then w\<lparr>files := saveTransactionFile Q dlg tx_of (txModel w) (files w)\<rparr> else w)"
| "window_event Q QuitChosen w = w\<lparr>quitting := True\<rparr>"
| "window_event Q AboutChosen w = w\<lparr>quitting := True\<rparr>"

text \<open>\<open>QApplication::exec\<close>: events until the loop is left.\<close>

fun exec :: "qt \<Rightarrow> WindowEvent list \<Rightarrow> 'p Window \<Rightarrow> 'p Window" where
  "exec Q [] w = w"
| "exec Q (ev # evs) w = (if quitting w then w else exec Q evs (window_event Q ev w))"

definition app_main :: "qt \<Rightarrow> 'p platform \<Rightarrow> (int \<Rightarrow> exception + 'p) \<Rightarrow> int option \<Rightarrow> files \<Rightarrow> WindowEvent list \<Rightarrow> 'p Startup" where
  "app_main Q pf create_proxy setting fs evs =
     (case MainWindow_new pf create_proxy setting fs of
        Running w \<Rightarrow> Running (MainWindow_delete pf (exec Q evs w))
      | st \<Rightarrow> st)"

section \<open>What a session does\<close>

text \<open>The clients that come before the user quits.\<close>

fun clients_served :: "WindowEvent list \<Rightarrow> conn list" where
  "clients_served [] = []"
| "clients_served (ClientConnected c # evs) = c # clients_served evs"
| "clients_served (SaveChosen _ _ # evs) = clients_served evs"
| "clients_served (_ # evs) = []"

text \<open>The table has the transactions the proxy started, and they are the ones of the clients.\<close>

definition serves :: "conn list \<Rightarrow> 'p Window \<Rightarrow> bool" where
  "serves cs w \<longleftrightarrow> receiving w \<and> proxy w = fold on_client_connected cs Proxy_new \<and>
     txModel w = table_of (proxy w) \<and> (save_enabled w \<longleftrightarrow> cs \<noteq> [])"

lemma table_of_connected: "transactionStarted (sint (next_id p)) (table_of p) = table_of (on_client_connected c p)"
  by (simp add: table_of_def on_client_connected_def)

lemma serves_event:
  "serves cs w \<Longrightarrow> serves (cs @ (case ev of ClientConnected c \<Rightarrow> [c] | _ \<Rightarrow> [])) (window_event Q ev w)"
  "platform_proxy (window_event Q ev w) = platform_proxy w"
  by (cases ev; simp add: serves_def client_connected_def table_of_connected)+

lemma exec_quitting [simp]: "quitting w \<Longrightarrow> exec Q evs w = w"
  by (cases evs) simp_all

lemma exec_serves:
  "serves cs w \<Longrightarrow> \<not> quitting w \<Longrightarrow>
   serves (cs @ clients_served evs) (exec Q evs w) \<and> platform_proxy (exec Q evs w) = platform_proxy w"
proof (induction evs arbitrary: cs w)
  case (Cons ev evs)
  note step = serves_event(1) [OF Cons.prems(1), of ev Q] serves_event(2) [of Q ev w]
  show ?case
  proof (cases "quitting (window_event Q ev w)")
    case True
    with Cons.prems(2) have "ev = QuitChosen \<or> ev = AboutChosen" by (cases ev) (auto simp: client_connected_def split: if_splits)
    with step True Cons.prems(2) show ?thesis by auto
  next
    case False
    from Cons.IH [OF step(1) False] step(2) False Cons.prems(2) show ?thesis by (cases ev) auto
  qed
qed simp

lemma window_serves: "MainWindow_new pf create_proxy setting fs = Running w \<Longrightarrow> serves [] w \<and> \<not> quitting w \<and> files w = fs"
  by (auto simp: MainWindow_new_def Proxy_init_def createMenu_def serves_def table_of_def Proxy_new_def split: sum.splits prod.splits)

text \<open>A session changes files by saving only, and what is saved is the table of that moment.\<close>

lemma files_change:
  "files (window_event Q ev w) \<noteq> files w \<Longrightarrow> \<exists>dlg tx_of. ev = SaveChosen dlg tx_of \<and> save_enabled w \<and>
     files (window_event Q ev w) = saveTransactionFile Q dlg tx_of (txModel w) (files w)"
  by (cases ev) (auto simp: client_connected_def split: if_splits)

text \<open>When the proxy cannot be enabled, its window is gone and the settings are as \<open>enable\<close> left them.\<close>

lemma start_fails:
  assumes "create_proxy (proxy_port setting) = Inr (s, mp)" "\<not> enabled mp"
    and "MacProxy_enable create blessings (s, mp) = (Inl e, (s', mp))"
  shows "app_main Q (mac_platform create blessings) create_proxy setting fs evs = NoWindow e (s', mp)"
  using assms by (simp add: app_main_def MainWindow_new_def mac_platform_def MacProxy_delete_def MacProxy_disable_def)

section \<open>Properties\<close>

text \<open>C24: a session of the application on macOS, with the helper ready and the system's calls succeeding: while the window
  is open the system uses localhost and the port of the settings as its proxy; the table has one row for each client that came before the
  user quit (by \<open>Quit\<close> or \<open>About\<close>), in order and under ascending ids, and saving is possible exactly when there is
  one. When the window is deleted, host and port of the system's proxy are what they were before, but it is
  disabled; if the system used this very proxy already, though, there was nothing to keep, and the configuration is wiped.\<close>

theorem application_session:
  assumes "helper_ready macos peer_status sig sec authBytes sys_healthy trusty_settings srv"
    and "old = trusty_settings (service_state srv)" and "port = proxy_port setting" and "0 \<le> port" and "port < 65536"
    and "- (2 ^ 31) \<le> garbage" and "garbage < 2 ^ 31"
    and "fst (copy_rights client_rights) = 0"
    and "create = create_client_with_rights copy_rights authBytes (helper_connect macos peer_status sig sec TrustyService)"
    and "pf = mac_platform create blessings"
    and "length (clients_served evs) < 2 ^ 31 - 1"
  shows "\<exists>w. MainWindow_new pf (\<lambda>port. Inr (srv, MacProxy_new port garbage)) setting fs = Running w \<and>
    (let open_window = exec Q evs w;
         settings = (\<lambda>w. fst (trusty_get (service_state (fst (platform_proxy w)))))
     in settings open_window = Inr \<lparr>is_enabled = True, get_host = ''localhost'', get_port = port\<rparr> \<and>
        transactions (txModel open_window) = map int [1..<Suc (length (clients_served evs))] \<and>
        save_enabled open_window = (clients_served evs \<noteq> []) \<and>
        settings (MainWindow_delete pf open_window) = Inr (if old = \<lparr>is_enabled = True, get_host = ''localhost'', get_port = port\<rparr> \<or> get_host old = []
                 then disabled_state else old\<lparr>is_enabled := False\<rparr>))"
proof -
  let ?mp = "MacProxy_new port garbage"
  have new: "\<not> enabled ?mp" "mac_port ?mp = port" by (simp_all add: MacProxy_new_def)
  let ?own = "\<lparr>is_enabled = True, get_host = ''localhost'', get_port = port\<rparr>"
  let ?after = "if old = ?own \<or> get_host old = [] then disabled_state else old\<lparr>is_enabled := False\<rparr>"
  have own: "own_settings ?mp = ?own" by (simp add: own_settings_def MacProxy_new_def)
  have "\<exists>s1 mp1 s2 mp2. MacProxy_enable create blessings (srv, ?mp) = (Inr (), (s1, mp1)) \<and>
      trusty_get (service_state s1) = (Inr ?own, service_state s1) \<and>
      MacProxy_disable create (s1, mp1) = (Inr (), (s2, mp2)) \<and> trusty_get (service_state s2) = (Inr ?after, service_state s2)"
  proof (cases "old = ?own")
    case True
    then have "trusty_settings (service_state srv) = own_settings ?mp" using assms(2) own by simp
    from session_wipes_own_settings [OF assms(1) this assms(6-9), of blessings] show ?thesis using True own by auto
  next
    case False
    with own proxy_session [OF assms(1,2) _ new(1) _ _ assms(8,9), of blessings] new(2) assms(4,5) show ?thesis by auto
  qed
  then obtain s1 mp1 s2 mp2 where s: "MacProxy_enable create blessings (srv, ?mp) = (Inr (), (s1, mp1))"
      "trusty_get (service_state s1) = (Inr ?own, service_state s1)"
      "MacProxy_disable create (s1, mp1) = (Inr (), (s2, mp2))" "trusty_get (service_state s2) = (Inr ?after, service_state s2)"
    by blast
  have "\<exists>w. MainWindow_new pf (\<lambda>port. Inr (srv, MacProxy_new port garbage)) setting fs = Running w \<and> platform_proxy w = (s1, mp1)"
    using s(1) by (simp add: MainWindow_new_def assms(3) [symmetric] assms(10) mac_platform_def Proxy_init_def createMenu_def)
  then obtain w where w: "MainWindow_new pf (\<lambda>port. Inr (srv, MacProxy_new port garbage)) setting fs = Running w"
      "platform_proxy w = (s1, mp1)" by blast
  from window_serves [OF w(1)] exec_serves [of "[]" w evs Q] w(2)
  have e: "serves (clients_served evs) (exec Q evs w)" "platform_proxy (exec Q evs w) = (s1, mp1)" by simp_all
  then have "transactions (txModel (exec Q evs w)) = map int [1..<Suc (length (clients_served evs))]"
    "save_enabled (exec Q evs w) = (clients_served evs \<noteq> [])"
    using table_of_clients [OF assms(11)] by (simp_all add: serves_def)
  moreover have "platform_proxy (MainWindow_delete pf (exec Q evs w)) = (s2, mp2)"
    using s(3) e(2) by (simp add: MainWindow_delete_def Proxy_deinit_def assms(10) mac_platform_def MacProxy_delete_def)
  ultimately show ?thesis using w(1) e(2) s(2,4) by (auto simp: Let_def)
qed

lemma application_session_witness:
  "\<exists>w. MainWindow_new (mac_platform create_client unanswered) (\<lambda>port. Inr (XpcServer_new used_sys, MacProxy_new port 0)) None Map.empty = Running w \<and>
    transactions (txModel (exec ascii_qt [ClientConnected 4, ClientConnected 2, AboutChosen, ClientConnected 9] w)) = [1, 2] \<and>
    fst (trusty_get (service_state (fst (platform_proxy (MainWindow_delete (mac_platform create_client unanswered)
      (exec ascii_qt [ClientConnected 4, ClientConnected 2, AboutChosen, ClientConnected 9] w)))))) =
      Inr \<lparr>is_enabled = False, get_host = ''corp'', get_port = 80\<rparr>"
proof -
  let ?st = "\<lparr>is_enabled = True, get_host = ''corp'', get_port = 80\<rparr>"
  have st: "?st = trusty_settings (service_state (XpcServer_new used_sys))"
    by (simp add: XpcServer_new_def trusty_settings_def used_sys_def example_sys_def state_of_config_def)
  have garbage: "- (2 ^ 31) \<le> (0 :: int)" "(0 :: int) < 2 ^ 31" by simp_all
  have port: "9998 = proxy_port None" by (simp add: proxy_port_def)
  have rights: "fst (copies_rights client_rights) = 0" by (simp add: copies_rights_def)
  have cs: "clients_served [ClientConnected 4, ClientConnected 2, AboutChosen, ClientConnected 9] = [4, 2]" by simp
  have few: "length (clients_served [ClientConnected 4, ClientConnected 2, AboutChosen, ClientConnected 9]) < 2 ^ 31 - 1" by simp
  have range: "0 \<le> (9998 :: int)" "(9998 :: int) < 65536" by simp_all
  from application_session [where copy_rights = copies_rights and blessings = unanswered and fs = Map.empty and Q = ascii_qt,
    OF used_ready st port range garbage rights refl refl few]
  show ?thesis unfolding cs by (auto simp: Let_def upt_rec)
qed

end
