(* ===== verification/WindowsProxy.thy ===== *)
theory WindowsProxy
  imports Xpc
begin

text \<open>
  \<open>app/win/WindowsProxy.cpp\<close>: the proxy that points WinINet's settings at itself while it lives.

  WinINet is not code of the repository. Its two calls are the fields of \<open>wininet\<close>, a query and an update of
  the options of the default connection that may fail; what the code relies on is \<open>wininet_laws\<close>. A string a
  query returns is owned by the caller until it is freed.
\<close>

section \<open>WinINet\<close>

datatype PerConnOption = AUTOCONFIG_URL | AUTODISCOVERY_FLAGS | FLAGS | PROXY_BYPASS | PROXY_SERVER

text \<open>The union of a number and a string that may be null.\<close>

datatype OptionValue = dwValue (dw: nat) | pszValue (psz: "string option")

type_synonym WinSettings = "PerConnOption \<Rightarrow> OptionValue"

datatype Notice = PROXY_SETTINGS_CHANGED | REFRESH

record Windows =
  win_settings :: WinSettings
  notices :: "Notice list"
  owned :: "PerConnOption list"

record wininet =
  query_options :: "WinSettings \<Rightarrow> PerConnOption list \<Rightarrow> OptionValue list option"
  set_options :: "WinSettings \<Rightarrow> (PerConnOption \<times> OptionValue) list \<Rightarrow> bool \<times> WinSettings"

text \<open>
  A query that succeeds gives the values in force. An update that succeeds puts the given values in force; one
  that fails may have applied some of them.
\<close>

definition wininet_laws :: "wininet \<Rightarrow> bool" where
  "wininet_laws W \<longleftrightarrow>
     (\<forall>s opts vs. query_options W s opts = Some vs \<longrightarrow> vs = map s opts) \<and>
     (\<forall>s opts s'. set_options W s opts = (True, s') \<longrightarrow> s' = fold (\<lambda>(opt, v) s. s(opt := v)) opts s)"

section \<open>WindowsProxy\<close>

definition is_string_value :: "PerConnOption \<Rightarrow> bool" where
  "is_string_value opt \<longleftrightarrow> opt = AUTOCONFIG_URL \<or> opt = PROXY_BYPASS \<or> opt = PROXY_SERVER"

record WindowsProxy =
  win_port :: int
  originalOptions :: "(PerConnOption \<times> OptionValue) list"

definition saved_options :: "PerConnOption list" where
  "saved_options = [AUTOCONFIG_URL, AUTODISCOVERY_FLAGS, FLAGS, PROXY_BYPASS, PROXY_SERVER]"

definition PROXY_TYPE_PROXY :: nat where
  "PROXY_TYPE_PROXY = 2"

definition proxyName :: string where
  "proxyName = ''127.0.0.1:9999''"

definition own_options :: "(PerConnOption \<times> OptionValue) list" where
  "own_options = [(AUTOCONFIG_URL, pszValue None), (PROXY_SERVER, pszValue (Some proxyName)),
     (FLAGS, dwValue PROXY_TYPE_PROXY), (PROXY_BYPASS, pszValue (Some ''''))]"

definition notify_all :: "Windows \<Rightarrow> Windows" where
  "notify_all w = w\<lparr>notices := notices w @ [PROXY_SETTINGS_CHANGED, REFRESH]\<rparr>"

text \<open>The strings among the options that are not null.\<close>

definition string_options :: "(PerConnOption \<times> OptionValue) list \<Rightarrow> PerConnOption list" where
  "string_options opts = map fst (filter (\<lambda>(opt, v). is_string_value opt \<and> v \<noteq> pszValue None) opts)"

text \<open>The constructor.\<close>

definition WindowsProxy_new :: "wininet \<Rightarrow> int \<Rightarrow> Windows \<Rightarrow> (exception + WindowsProxy) \<times> Windows" where
  "WindowsProxy_new W port w =
     (case query_options W (win_settings w) saved_options of
        None \<Rightarrow> (Inl (DomainException ''Could not query current proxy settings''), w)
      | Some vs \<Rightarrow>
          let original = zip saved_options vs; w = w\<lparr>owned := owned w @ string_options original\<rparr> in
          (case set_options W (win_settings w) own_options of
             (False, s) \<Rightarrow> (Inl (DomainException ''Could not set proxy options''), w\<lparr>win_settings := s\<rparr>)
           | (True, s) \<Rightarrow>
               (Inr \<lparr>win_port = port, originalOptions = original\<rparr>, notify_all (w\<lparr>win_settings := s\<rparr>))))"

definition GlobalFree :: "PerConnOption \<Rightarrow> Windows \<Rightarrow> Windows" where
  "GlobalFree opt w = w\<lparr>owned := remove1 opt (owned w)\<rparr>"

text \<open>The destructor puts the options back, tells everyone and frees the strings, whether the update worked or not.\<close>

definition WindowsProxy_delete :: "wininet \<Rightarrow> WindowsProxy \<Rightarrow> Windows \<Rightarrow> Windows" where
  "WindowsProxy_delete W p w =
     (let w = notify_all (w\<lparr>win_settings := snd (set_options W (win_settings w) (originalOptions p))\<rparr>)
      in fold (\<lambda>(opt, v) w. if is_string_value opt \<and> v \<noteq> pszValue None then GlobalFree opt w else w) (originalOptions p) w)"

section \<open>Lemmas\<close>

lemma free_all:
  "fold (\<lambda>(opt, v) w. if is_string_value opt \<and> v \<noteq> pszValue None then GlobalFree opt w else w) opts w =
   w\<lparr>owned := fold remove1 (string_options opts) (owned w)\<rparr>"
proof (induction opts arbitrary: w)
  case (Cons o' opts)
  then show ?case
    by (cases o'; cases "is_string_value (fst o') \<and> snd o' \<noteq> pszValue None") (auto simp: string_options_def GlobalFree_def)
qed (simp add: string_options_def)

lemma wininet_sets:
  "wininet_laws W \<Longrightarrow> fst (set_options W s opts) \<Longrightarrow> set_options W s opts = (True, fold (\<lambda>(opt, v) s. s(opt := v)) opts s)"
  by (cases "set_options W s opts") (simp add: wininet_laws_def)

lemma remove_added: "fold remove1 ys (xs @ ys) = xs" if "distinct ys" "set ys \<inter> set xs = {}"
  using that
proof (induction ys)
  case (Cons y ys)
  then have "remove1 y (xs @ y # ys) = xs @ ys" by (auto simp: remove1_append)
  with Cons show ?case by simp
qed simp

lemma options_restored:
  "fold (\<lambda>(opt, v) s. s(opt := v)) (zip saved_options (map s saved_options)) s' = s"
  by (rule ext, rename_tac opt, case_tac opt) (simp_all add: saved_options_def)

lemma saved_length [simp]: "length saved_options = 5"
  by (simp add: saved_options_def)

lemma string_options_distinct:
  "distinct (string_options (zip saved_options vs))" if "length vs = 5"
proof -
  from that obtain a b c d e where "vs = [a, b, c, d, e]"
    by (auto simp: length_Suc_conv numeral_eq_Suc)
  then show ?thesis by (simp add: string_options_def saved_options_def)
qed

section \<open>Properties\<close>

text \<open>While the proxy lives, WinINet uses it: the proxy server is \<open>127.0.0.1:9999\<close> (whatever port the
  proxy was made for), no automatic configuration and no bypass list. When it is deleted all settings are
  what they were, programs were told twice, and every string the query returned has been freed once.\<close>

theorem windows_session:
  assumes "wininet_laws W" and "query_options W (win_settings w) saved_options \<noteq> None"
    and "\<forall>s. fst (set_options W s own_options)"
    and "\<forall>s s'. fst (set_options W s (zip saved_options (map s' saved_options)))"
    and "owned w = []"
  shows "\<exists>p w'. WindowsProxy_new W port w = (Inr p, w') \<and>
    win_settings w' = (win_settings w)(AUTOCONFIG_URL := pszValue None, PROXY_SERVER := pszValue (Some ''127.0.0.1:9999''),
      FLAGS := dwValue PROXY_TYPE_PROXY, PROXY_BYPASS := pszValue (Some '''')) \<and>
    WindowsProxy_delete W p w' = w\<lparr>notices := notices w @ [PROXY_SETTINGS_CHANGED, REFRESH, PROXY_SETTINGS_CHANGED, REFRESH]\<rparr>"
proof -
  let ?orig = "zip saved_options (map (win_settings w) saved_options)"
  let ?own = "(win_settings w)(AUTOCONFIG_URL := pszValue None, PROXY_SERVER := pszValue (Some proxyName),
      FLAGS := dwValue PROXY_TYPE_PROXY, PROXY_BYPASS := pszValue (Some ''''))"
  let ?w = "w\<lparr>win_settings := ?own, notices := notices w @ [PROXY_SETTINGS_CHANGED, REFRESH], owned := string_options ?orig\<rparr>"
  have query: "query_options W (win_settings w) saved_options = Some (map (win_settings w) saved_options)"
    using assms(1,2) by (auto simp: wininet_laws_def)
  have set1: "set_options W (win_settings w) own_options = (True, ?own)"
    using wininet_sets [OF assms(1), of "win_settings w" own_options] assms(3) by (simp add: own_options_def)
  have set2: "set_options W ?own ?orig = (True, win_settings w)"
    using wininet_sets [OF assms(1), of ?own ?orig] assms(4) unfolding options_restored by blast
  have new: "WindowsProxy_new W port w = (Inr \<lparr>win_port = port, originalOptions = ?orig\<rparr>, ?w)"
    using assms(5) by (simp add: WindowsProxy_new_def query Let_def set1 notify_all_def)
  have "fold remove1 (string_options ?orig) (string_options ?orig) = []"
    using remove_added [OF string_options_distinct, of "map (win_settings w) saved_options" "[]"] by simp
  then have "WindowsProxy_delete W \<lparr>win_port = port, originalOptions = ?orig\<rparr> ?w =
      w\<lparr>notices := notices w @ [PROXY_SETTINGS_CHANGED, REFRESH, PROXY_SETTINGS_CHANGED, REFRESH]\<rparr>"
    using assms(5) by (simp add: WindowsProxy_delete_def free_all Let_def notify_all_def set2)
  with new show ?thesis by (simp add: proxyName_def)
qed

definition obliging_wininet :: wininet where
  "obliging_wininet = \<lparr>query_options = (\<lambda>s opts. Some (map s opts)),
     set_options = (\<lambda>s opts. (True, fold (\<lambda>(opt, v) s. s(opt := v)) opts s))\<rparr>"

definition example_windows :: Windows where
  "example_windows = \<lparr>win_settings = (\<lambda>opt. if is_string_value opt then pszValue (Some ''corp:80'') else dwValue 3),
     notices = [], owned = []\<rparr>"

lemma windows_session_witness:
  "\<exists>p w'. WindowsProxy_new obliging_wininet 9998 example_windows = (Inr p, w') \<and>
     win_settings w' PROXY_SERVER = pszValue (Some ''127.0.0.1:9999'') \<and>
     win_settings (WindowsProxy_delete obliging_wininet p w') PROXY_SERVER = pszValue (Some ''corp:80'')"
  using windows_session [of obliging_wininet example_windows 9998]
  by (auto simp: wininet_laws_def obliging_wininet_def example_windows_def is_string_value_def)

text \<open>When the new options cannot be set, the constructor raises after the query: no destructor runs, the
  strings of the saved options are never freed, and nobody puts back what the failed update applied.\<close>

theorem failed_session_leaks:
  assumes "wininet_laws W" and "query_options W (win_settings w) saved_options \<noteq> None"
    and "set_options W (win_settings w) own_options = (False, s)"
  shows "WindowsProxy_new W port w = (Inl (DomainException ''Could not set proxy options''),
    w\<lparr>win_settings := s, owned := owned w @
      filter (\<lambda>opt. win_settings w opt \<noteq> pszValue None) [AUTOCONFIG_URL, PROXY_BYPASS, PROXY_SERVER]\<rparr>)"
proof -
  have query: "query_options W (win_settings w) saved_options = Some (map (win_settings w) saved_options)"
    using assms(1,2) by (auto simp: wininet_laws_def)
  have "string_options (zip saved_options (map (win_settings w) saved_options)) =
      filter (\<lambda>opt. win_settings w opt \<noteq> pszValue None) [AUTOCONFIG_URL, PROXY_BYPASS, PROXY_SERVER]"
    by (simp add: string_options_def saved_options_def is_string_value_def)
  then show ?thesis using assms(3) by (simp add: WindowsProxy_new_def query Let_def)
qed

lemma failed_session_leaks_witness:
  "owned (snd (WindowsProxy_new (obliging_wininet\<lparr>set_options := \<lambda>s opts. (False, s)\<rparr>) 9999 example_windows)) =
     [AUTOCONFIG_URL, PROXY_BYPASS, PROXY_SERVER]"
proof -
  let ?W = "obliging_wininet\<lparr>set_options := \<lambda>s opts. (False, s)\<rparr>"
  have "wininet_laws ?W" "query_options ?W (win_settings example_windows) saved_options \<noteq> None"
    "set_options ?W (win_settings example_windows) own_options = (False, win_settings example_windows)"
    by (simp_all add: wininet_laws_def obliging_wininet_def)
  from failed_session_leaks [OF this, of 9999] show ?thesis
    by (simp add: example_windows_def is_string_value_def)
qed

end
