(* ===== verification/Platforms.thy ===== *)
theory Platforms
  imports Application WindowsProxy
begin

text \<open>
  \<open>app/ProxyFactory.cpp\<close> and the catch clause of \<open>app/main.cpp\<close>: the proxy that is made for the system the program was
  built for, called by the window through its virtual functions, and what becomes of a program that cannot start.
\<close>

section \<open>ProxyFactory\<close>

datatype OS = Q_OS_WIN | Q_OS_MACOS | OtherOS

text \<open>The proxies of the three classes, each with the part of the outside world it changes.\<close>

datatype 's AnyProxy = IsWindows Windows WindowsProxy | IsMac 's MacProxy | IsGeneric int

definition ProxyFactory_Create :: "OS \<Rightarrow> wininet \<Rightarrow> Windows \<Rightarrow> 's \<Rightarrow> int \<Rightarrow> int \<Rightarrow> exception + 's AnyProxy" where
  "ProxyFactory_Create os W win s garbage port =
     (case os of
        Q_OS_WIN \<Rightarrow> (case WindowsProxy_new W port win of (Inl e, _) \<Rightarrow> Inl e | (Inr p, win') \<Rightarrow> Inr (IsWindows win' p))
      | Q_OS_MACOS \<Rightarrow> Inr (IsMac s (MacProxy_new port garbage))
      | OtherOS \<Rightarrow> Inr (IsGeneric port))"

text \<open>The virtual \<open>enable\<close> and the virtual destructor; only \<open>MacProxy\<close> overrides \<open>enable\<close>.\<close>

definition any_enable :: "('s, 's IService) call \<Rightarrow> (nat \<Rightarrow> Blessing) \<Rightarrow> ('s AnyProxy, unit) call" where
  "any_enable create blessings p =
     (case p of
        IsMac s mp \<Rightarrow> (case MacProxy_enable create blessings (s, mp) of (r, (s', mp')) \<Rightarrow> (r, IsMac s' mp'))
      | _ \<Rightarrow> return_call () p)"

definition any_delete :: "wininet \<Rightarrow> ('s, 's IService) call \<Rightarrow> 's AnyProxy \<Rightarrow> 's AnyProxy" where
  "any_delete W create p =
     (case p of
        IsWindows win wp \<Rightarrow> IsWindows (WindowsProxy_delete W wp win) wp
      | IsMac s mp \<Rightarrow> (case MacProxy_delete create (s, mp) of (s', mp') \<Rightarrow> IsMac s' mp')
      | IsGeneric port \<Rightarrow> IsGeneric port)"

definition any_platform :: "wininet \<Rightarrow> ('s, 's IService) call \<Rightarrow> (nat \<Rightarrow> Blessing) \<Rightarrow> 's AnyProxy platform" where
  "any_platform W create blessings = \<lparr>platform_enable = any_enable create blessings, platform_delete = any_delete W create\<rparr>"

section \<open>main\<close>

text \<open>Only \<open>std::domain_error\<close> is caught and reported; any other exception leaves \<open>main\<close> and ends the process.\<close>

datatype 'p Exit = Returned "'p Window" | Reported string | Terminated exception

fun catch_domain_error :: "exception \<Rightarrow> 'p Exit" where
  "catch_domain_error (DomainException s) = Reported s"
| "catch_domain_error e = Terminated e"

definition main_catch :: "'p Startup \<Rightarrow> 'p Exit" where
  "main_catch st =
     (case st of
        Running w \<Rightarrow> Returned w
      | NoProxy e \<Rightarrow> catch_domain_error e
      | NoWindow e p \<Rightarrow> catch_domain_error e)"

section \<open>Properties\<close>

text \<open>C27: a session of the application on Windows, as long as WinINet obeys, with fewer than 2^31 - 1 clients: while the window is
  open the options of WinINet say that the proxy \<open>127.0.0.1:9999\<close>, and nothing but it, is used: the flags ask for a proxy
  only, there is no configuration script and no bypass list, and the discovery flags are the user's. That holds whatever
  port the settings name; the object of the proxy is made for that port, which is 9998 when they name none. The table has
  one row for each client, in order; and when the window is deleted all options are what they were and nothing is
  leaked.\<close>

theorem windows_application_session:
  assumes "wininet_laws W" and "query_options W (win_settings win) saved_options \<noteq> None"
    and "\<forall>s. fst (set_options W s own_options)"
    and "\<forall>s s'. fst (set_options W s (zip saved_options (map s' saved_options)))"
    and "owned win = []" and "length (clients_served evs) < 2 ^ 31 - 1"
  shows "\<exists>w win1 wp. MainWindow_new (any_platform W create blessings) (ProxyFactory_Create Q_OS_WIN W win s garbage) setting fs = Running w \<and>
    platform_proxy (exec Q evs w) = IsWindows win1 wp \<and>
    win_settings win1 FLAGS = dwValue 2 \<and> win_settings win1 PROXY_SERVER = pszValue (Some ''127.0.0.1:9999'') \<and>
    win_settings win1 PROXY_BYPASS = pszValue (Some '''') \<and> win_settings win1 AUTOCONFIG_URL = pszValue None \<and>
    win_settings win1 AUTODISCOVERY_FLAGS = win_settings win AUTODISCOVERY_FLAGS \<and>
    win_port wp = (case setting of None \<Rightarrow> 9998 | Some port \<Rightarrow> port) \<and>
    transactions (txModel (exec Q evs w)) = map int [1..<Suc (length (clients_served evs))] \<and>
    platform_proxy (MainWindow_delete (any_platform W create blessings) (exec Q evs w)) =
      IsWindows (win\<lparr>notices := notices win @ [PROXY_SETTINGS_CHANGED, REFRESH, PROXY_SETTINGS_CHANGED, REFRESH]\<rparr>) wp"
proof -
  let ?pf = "any_platform W create blessings"
  from windows_session [OF assms(1-5), of "proxy_port setting"] obtain wp win1 where
    new: "WindowsProxy_new W (proxy_port setting) win = (Inr wp, win1)"
    and settings: "win_settings win1 = (win_settings win)(AUTOCONFIG_URL := pszValue None,
      PROXY_SERVER := pszValue (Some ''127.0.0.1:9999''), FLAGS := dwValue PROXY_TYPE_PROXY, PROXY_BYPASS := pszValue (Some ''''))"
    and delete: "WindowsProxy_delete W wp win1 =
      win\<lparr>notices := notices win @ [PROXY_SETTINGS_CHANGED, REFRESH, PROXY_SETTINGS_CHANGED, REFRESH]\<rparr>" by auto
  from new have port: "win_port wp = proxy_port setting"
    by (auto simp: WindowsProxy_new_def Let_def split: option.splits prod.splits bool.splits)
  obtain w where w: "MainWindow_new ?pf (ProxyFactory_Create Q_OS_WIN W win s garbage) setting fs = Running w"
    "platform_proxy w = IsWindows win1 wp"
    by (simp add: MainWindow_new_def ProxyFactory_Create_def new any_platform_def any_enable_def return_call_def Proxy_init_def createMenu_def)
  from window_serves [OF w(1)] exec_serves [of "[]" w evs Q] w(2)
  have e: "serves (clients_served evs) (exec Q evs w)" "platform_proxy (exec Q evs w) = IsWindows win1 wp" by simp_all
  then have "transactions (txModel (exec Q evs w)) = map int [1..<Suc (length (clients_served evs))]"
    using table_of_clients [OF assms(6)] by (simp add: serves_def)
  moreover have "platform_proxy (MainWindow_delete ?pf (exec Q evs w)) = IsWindows (WindowsProxy_delete W wp win1) wp"
    using e(2) by (simp add: MainWindow_delete_def Proxy_deinit_def any_platform_def any_delete_def)
  ultimately show ?thesis using w(1) e(2) settings port delete by (auto simp: proxy_port_def PROXY_TYPE_PROXY_def)
qed

lemma windows_application_session_witness:
  "\<exists>w win1 wp. MainWindow_new (any_platform obliging_wininet create_client unanswered)
       (ProxyFactory_Create Q_OS_WIN obliging_wininet example_windows (XpcServer_new used_sys) 0) None Map.empty = Running w \<and>
    platform_proxy (exec ascii_qt [ClientConnected 4, QuitChosen] w) = IsWindows win1 wp \<and>
    win_settings win1 FLAGS = dwValue 2 \<and> win_settings win1 PROXY_SERVER = pszValue (Some ''127.0.0.1:9999'') \<and> win_port wp = 9998 \<and>
    transactions (txModel (exec ascii_qt [ClientConnected 4, QuitChosen] w)) = [1]"
  using windows_application_session [of obliging_wininet example_windows "[ClientConnected 4, QuitChosen]" create_client unanswered
      "XpcServer_new used_sys" 0 None Map.empty ascii_qt]
  by (fastforce simp: wininet_laws_def obliging_wininet_def example_windows_def upt_rec)

text \<open>A failure to start is reported when WinINet refuses; when the helper cannot be installed on macOS, the process ends without
  a message.\<close>

lemma failed_start:
  "query_options W (win_settings win) saved_options = None \<Longrightarrow>
     main_catch (app_main Q (any_platform W create blessings) (ProxyFactory_Create Q_OS_WIN W win s garbage) setting fs evs) =
       Reported ''Could not query current proxy settings''"
  "MacProxy_enable create blessings (s, MacProxy_new (proxy_port setting) garbage) = (Inl (SystemError status), (s', mp')) \<Longrightarrow>
     main_catch (app_main Q (any_platform W create blessings) (ProxyFactory_Create Q_OS_MACOS W win s garbage) setting fs evs) =
       Terminated (SystemError status)"
  by (simp_all add: main_catch_def app_main_def MainWindow_new_def ProxyFactory_Create_def
      WindowsProxy_new_def any_platform_def any_enable_def)

end
