(* ===== verification/Log.thy ===== *)
theory Log
  imports Transaction Xpc
begin

text \<open>
  The logging library (\<open>log/\<close>) and the log values and writers of the other parts: \<open>QtLogWriter\<close>, \<open>QStringValue\<close>,
  \<open>CFStringValue\<close>, \<open>NotificationStateValue\<close>, \<open>ParsePhaseValue\<close>.

  A \<open>std::stringstream\<close> in the C locale is the list of bytes written to it. Not code of the repository, so
  arguments: how a pointer is printed, and \<open>codecvt_utf8\<close>, whose failure is an exception that leaves a
  \<open>noexcept\<close> function, which ends the process (\<open>None\<close>). \<open>long\<close> has 64 bits, as on the systems with the
  helper and on Linux.
\<close>

section \<open>Severities\<close>

datatype Severity = Verbose | Debug | Info | Warn | Error | Fatal

fun severity_code :: "Severity \<Rightarrow> 8 word" where
  "severity_code Verbose = 0"
| "severity_code Debug = 1"
| "severity_code Info = 2"
| "severity_code Warn = 3"
| "severity_code Error = 4"
| "severity_code Fatal = 0xFF"

lemma severity_code_inject [simp]: "(severity_code a = severity_code b) = (a = b)"
  by (cases a; cases b) simp_all

text \<open>\<open><=\<close> on the enumeration compares the codes.\<close>

instantiation Severity :: linorder
begin

definition less_eq_Severity :: "Severity \<Rightarrow> Severity \<Rightarrow> bool" where
  "less_eq_Severity a b \<longleftrightarrow> severity_code a \<le> severity_code b"

definition less_Severity :: "Severity \<Rightarrow> Severity \<Rightarrow> bool" where
  "less_Severity a b \<longleftrightarrow> severity_code a < severity_code b"

instance
  by standard (auto simp: less_eq_Severity_def less_Severity_def less_le_not_le intro: order.trans
      dest: order.antisym)

end

fun severity_name :: "Severity \<Rightarrow> bytes" where
  "severity_name Verbose = ''V''"
| "severity_name Debug = ''D''"
| "severity_name Info = ''I''"
| "severity_name Warn = ''W''"
| "severity_name Error = ''E''"
| "severity_name Fatal = ''F''"

section \<open>Values\<close>

text \<open>One constructor for each type the visitor knows, with the name of the value first.\<close>

datatype LogValue =
    BoolValue bytes bool
  | CStrValue bytes bytes
  | WCStrValue bytes "64 word"
  | StringValue bytes bytes
  | WStringValue bytes "32 word list"
  | CharValue bytes char
  | I8Value bytes "8 word"
  | U8Value bytes "8 word"
  | ShortValue bytes "16 word"
  | UShortValue bytes "16 word"
  | IntValue bytes "32 word"
  | UIntValue bytes "32 word"
  | LongValue bytes "64 word"
  | ULongValue bytes "64 word"
  | LongLongValue bytes "64 word"
  | ULongLongValue bytes "64 word"

datatype ILogValue = SingleValue LogValue | LogValueCollection "ILogValue list"

record streams =
  pointer_text :: "64 word \<Rightarrow> bytes"
  to_bytes :: "32 word list \<Rightarrow> bytes option"

section \<open>StringStreamLogValueVisitor\<close>

record Visitor =
  ss :: bytes
  finished :: bool

definition Visitor_new :: Visitor where
  "Visitor_new = \<lparr>ss = ''['', finished = False\<rparr>"

definition put :: "bytes \<Rightarrow> Visitor \<Rightarrow> Visitor" where
  "put bs v = v\<lparr>ss := ss v @ bs\<rparr>"

definition plain :: "bytes \<Rightarrow> bytes \<Rightarrow> bytes" where
  "plain name text = '' '' @ name @ ''='' @ text"

definition quoted :: "bytes \<Rightarrow> bytes \<Rightarrow> bytes" where
  "quoted name text = '' '' @ name @ ''='' @ [CHR 0x22] @ text @ [CHR 0x22]"

text \<open>Integers of one byte are characters to a stream; a wide C string is a pointer to it.\<close>

fun visit :: "streams \<Rightarrow> LogValue \<Rightarrow> Visitor \<Rightarrow> Visitor option" where
  "visit S (BoolValue name b) v = Some (put (plain name (if b then ''1'' else ''0'')) v)"
| "visit S (CStrValue name s) v = Some (put (quoted name (c_str s)) v)"
| "visit S (WCStrValue name p) v = Some (put (quoted name (pointer_text S p)) v)"
| "visit S (StringValue name s) v = Some (put (quoted name s) v)"
| "visit S (WStringValue name ws) v = map_option (\<lambda>bs. put (quoted name bs) v) (to_bytes S ws)"
| "visit S (CharValue name c) v = Some (put (plain name [c]) v)"
| "visit S (I8Value name w) v = Some (put (plain name [char_of (unat w)]) v)"
| "visit S (U8Value name w) v = Some (put (plain name [char_of (unat w)]) v)"
| "visit S (ShortValue name w) v = Some (put (plain name (dec_int (sint w))) v)"
| "visit S (UShortValue name w) v = Some (put (plain name (dec_int (uint w))) v)"
| "visit S (IntValue name w) v = Some (put (plain name (dec_int (sint w))) v)"
| "visit S (UIntValue name w) v = Some (put (plain name (dec_int (uint w))) v)"
| "visit S (LongValue name w) v = Some (put (plain name (dec_int (sint w))) v)"
| "visit S (ULongValue name w) v = Some (put (plain name (dec_int (uint w))) v)"
| "visit S (LongLongValue name w) v = Some (put (plain name (dec_int (sint w))) v)"
| "visit S (ULongLongValue name w) v = Some (put (plain name (dec_int (uint w))) v)"

text \<open>\<open>accept\<close>: a value visits itself, a collection lets its elements accept one after the other.\<close>

fun accept :: "streams \<Rightarrow> ILogValue \<Rightarrow> Visitor \<Rightarrow> Visitor option"
  and accept_all :: "streams \<Rightarrow> ILogValue list \<Rightarrow> Visitor \<Rightarrow> Visitor option" where
  "accept S (SingleValue x) v = visit S x v"
| "accept S (LogValueCollection xs) v = accept_all S xs v"
| "accept_all S [] v = Some v"
| "accept_all S (x # xs) v = Option.bind (accept S x v) (accept_all S xs)"

definition str :: "Visitor \<Rightarrow> bytes \<times> Visitor" where
  "str v = (let v = (if \<not> finished v then (put '' ]\<newline>'' v)\<lparr>finished := True\<rparr> else v) in (ss v, v))"

section \<open>Values of the other parts\<close>

text \<open>\<open>encode\<close> is \<open>toLocal8Bit\<close>.\<close>

definition QStringValue :: "(qstring \<Rightarrow> bytes) \<Rightarrow> bytes \<Rightarrow> qstring \<Rightarrow> LogValue" where
  "QStringValue encode name s = CStrValue name (encode s)"

definition QSqlErrorValue :: "(qstring \<Rightarrow> bytes) \<Rightarrow> qstring \<Rightarrow> LogValue" where
  "QSqlErrorValue encode text = QStringValue encode ''sql_error'' text"

text \<open>
  The UTF-8 of a CoreFoundation string, from its own buffer when it has one, else copied into memory, which
  may not be available; then nothing is visited.
\<close>

definition CFStringValue :: "bool \<Rightarrow> bool \<Rightarrow> bytes \<Rightarrow> bytes \<Rightarrow> ILogValue" where
  "CFStringValue has_pointer memory name utf8 =
     (if \<not> has_pointer \<and> \<not> memory then LogValueCollection [] else SingleValue (CStrValue name utf8))"

text \<open>On Windows, the message of \<open>GetLastError\<close>; \<open>FormatMessageA\<close> leaves the buffer empty when it fails.\<close>

definition LastErrorValue :: "(nat \<Rightarrow> bytes option) \<Rightarrow> nat \<Rightarrow> LogValue" where
  "LastErrorValue format_message last_error =
     CStrValue ''LastError'' (case format_message last_error of None \<Rightarrow> [] | Some text \<Rightarrow> text)"

fun ns_text :: "NotificationState \<Rightarrow> bytes" where
  "ns_text NsNone = ''NotificationState::None''"
| "ns_text RequestLine = ''NotificationState::RequestLine''"
| "ns_text RequestHeaders = ''NotificationState::RequestHeaders''"
| "ns_text RequestBody = ''NotificationState::RequestBody''"
| "ns_text RequestComplete = ''NotificationState::RequestComplete''"
| "ns_text ResponseHeaders = ''NotificationState::ResponseHeaders''"
| "ns_text ResponseBody = ''NotificationState::ResponseBody''"
| "ns_text ResponseComplete = ''NotificationState::ResponseComplete''"
| "ns_text TLSTunnel = ''NotificationState::TLSTunnel''"
| "ns_text NsError = ''NotificationState::Error''"

fun phase_text :: "ParsePhase \<Rightarrow> bytes" where
  "phase_text Start = ''ParsePhase::Start''"
| "phase_text ReceivedMessageLine = ''ParsePhase::ReceivedMessageLine''"
| "phase_text ReceivedHeaders = ''ParsePhase::ReceivedHeaders''"
| "phase_text ReceivedBody = ''ParsePhase::ReceivedBody''"
| "phase_text ReceivedFullMessage = ''ParsePhase::ReceivedFullMessage''"

definition NotificationStateValue :: "NotificationState \<Rightarrow> LogValue" where
  "NotificationStateValue ns = StringValue ''ns'' (ns_text ns)"

definition ParsePhaseValue :: "bytes \<Rightarrow> ParsePhase \<Rightarrow> LogValue" where
  "ParsePhaseValue name p = StringValue name (phase_text p)"

section \<open>Writers\<close>

datatype OsLogType = OS_LOG_TYPE_DEBUG | OS_LOG_TYPE_INFO | OS_LOG_TYPE_DEFAULT | OS_LOG_TYPE_ERROR | OS_LOG_TYPE_FAULT

datatype QtMsgType = QtDebugMsg | QtInfoMsg | QtWarningMsg | QtCriticalMsg | QtFatalMsg

datatype Writer = SimpleLogWriter | OsLogWriter | QtLogWriter | OutputDebugStringWriter

text \<open>The registered writer, and what each writer has handed over: to the standard error stream, the system's log,
  Qt's msg handler, and the queue of the debug-print agent.\<close>

record LogState =
  g_writer :: Writer
  cerr :: "bytes list"
  os_entries :: "(OsLogType \<times> bytes) list"
  qt_messages :: "(QtMsgType \<times> bytes) list"
  work_queue :: "bytes list"

definition LogState_new :: LogState where
  "LogState_new = \<lparr>g_writer = SimpleLogWriter, cerr = [], os_entries = [], qt_messages = [], work_queue = []\<rparr>"

definition register_log_writer :: "Writer \<Rightarrow> LogState \<Rightarrow> LogState" where
  "register_log_writer w s = s\<lparr>g_writer := w\<rparr>"

definition simple_write :: "streams \<Rightarrow> Severity \<Rightarrow> bytes \<Rightarrow> ILogValue \<Rightarrow> LogState \<Rightarrow> LogState option" where
  "simple_write S severity msg value s =
     Option.bind (visit S (StringValue ''sev'' (severity_name severity)) Visitor_new) (\<lambda>v.
     Option.bind (visit S (CStrValue ''msg'' msg) v) (\<lambda>v.
     Option.bind (accept S value v) (\<lambda>v. Some (s\<lparr>cerr := cerr s @ [fst (str v) @ [LF]]\<rparr>))))"

fun log_type_for_severity :: "Severity \<Rightarrow> OsLogType" where
  "log_type_for_severity Verbose = OS_LOG_TYPE_DEBUG"
| "log_type_for_severity Debug = OS_LOG_TYPE_INFO"
| "log_type_for_severity Info = OS_LOG_TYPE_DEFAULT"
| "log_type_for_severity Warn = OS_LOG_TYPE_DEFAULT"
| "log_type_for_severity Error = OS_LOG_TYPE_ERROR"
| "log_type_for_severity Fatal = OS_LOG_TYPE_FAULT"

text \<open>\<open>%s\<close> with a C string reads up to its terminator.\<close>

definition os_write ::
  "(OsLogType \<Rightarrow> bool) \<Rightarrow> streams \<Rightarrow> Severity \<Rightarrow> bytes \<Rightarrow> ILogValue \<Rightarrow> LogState \<Rightarrow> LogState option" where
  "os_write os_log_type_enabled S severity msg value s =
     (let type = log_type_for_severity severity in
      if os_log_type_enabled type then
        Option.bind (accept S value Visitor_new) (\<lambda>v.
          Some (s\<lparr>os_entries := os_entries s @ [(type, c_str msg @ '' '' @ c_str (fst (str v)))]\<rparr>))
      else Some s)"

fun qt_type :: "Severity \<Rightarrow> QtMsgType" where
  "qt_type Verbose = QtDebugMsg"
| "qt_type Debug = QtDebugMsg"
| "qt_type Info = QtInfoMsg"
| "qt_type Warn = QtWarningMsg"
| "qt_type Error = QtCriticalMsg"
| "qt_type Fatal = QtFatalMsg"

text \<open>\<open>QMessageLogger::fatal\<close> ends the process after the message.\<close>

definition qt_write :: "streams \<Rightarrow> Severity \<Rightarrow> bytes \<Rightarrow> ILogValue \<Rightarrow> LogState \<Rightarrow> LogState option" where
  "qt_write S severity msg value s =
     Option.bind (accept S value Visitor_new) (\<lambda>v.
       if qt_type severity = QtFatalMsg then None
       else Some (s\<lparr>qt_messages := qt_messages s @
         [(qt_type severity, c_str msg @ '' '' @ c_str (fst (str v)) @ [LF])]\<rparr>))"

definition debug_string_write :: "streams \<Rightarrow> Severity \<Rightarrow> bytes \<Rightarrow> ILogValue \<Rightarrow> LogState \<Rightarrow> LogState option" where
  "debug_string_write S severity msg value s =
     Option.bind (accept S value Visitor_new) (\<lambda>v.
       Some (s\<lparr>work_queue := work_queue s @ [c_str msg @ '' '' @ fst (str v)]\<rparr>))"

text \<open>The agent prints what it receives until it receives an empty string: what it has printed, and whether it
  still waits.\<close>

fun LogPrintWorker_run :: "bytes list \<Rightarrow> bytes list \<times> bool" where
  "LogPrintWorker_run [] = ([], True)"
| "LogPrintWorker_run (msg # queue) =
     (if msg = [] then ([], False)
      else case LogPrintWorker_run queue of (printed, waits) \<Rightarrow> (c_str msg # printed, waits))"

text \<open>The queue of the agent, once it has been made: the first writer makes and starts it, the others find it.\<close>

definition InitQueue :: "bytes list option \<Rightarrow> bytes list option" where
  "InitQueue g_WorkQueue = (case g_WorkQueue of None \<Rightarrow> Some [] | Some buffer \<Rightarrow> Some buffer)"

definition OutputDebugStringWriter_new :: "bytes list option \<Rightarrow> bytes list option" where
  "OutputDebugStringWriter_new g_WorkQueue = InitQueue g_WorkQueue"

definition LogPrintWorker_print :: "bytes \<Rightarrow> bytes list option \<Rightarrow> bytes list option" where
  "LogPrintWorker_print msg g_WorkQueue = map_option (\<lambda>buffer. buffer @ [msg]) g_WorkQueue"

lemma writers_share_worker:
  "OutputDebugStringWriter_new (LogPrintWorker_print msg (OutputDebugStringWriter_new q)) =
   LogPrintWorker_print msg (OutputDebugStringWriter_new q)"
  "OutputDebugStringWriter_new q \<noteq> None"
  by (cases q; simp add: OutputDebugStringWriter_new_def InitQueue_def LogPrintWorker_print_def)+

section \<open>Events\<close>

definition g_min_severity :: Severity where
  "g_min_severity = Debug"

definition is_enabled_for_severity :: "Severity \<Rightarrow> bool" where
  "is_enabled_for_severity severity \<longleftrightarrow> g_min_severity \<le> severity"

definition do_log_event ::
  "(OsLogType \<Rightarrow> bool) \<Rightarrow> streams \<Rightarrow> Severity \<Rightarrow> bytes \<Rightarrow> ILogValue \<Rightarrow> LogState \<Rightarrow> LogState option" where
  "do_log_event os_log_type_enabled S severity msg value s =
     (case g_writer s of
        SimpleLogWriter \<Rightarrow> simple_write S severity msg value s
      | OsLogWriter \<Rightarrow> os_write os_log_type_enabled S severity msg value s
      | QtLogWriter \<Rightarrow> qt_write S severity msg value s
      | OutputDebugStringWriter \<Rightarrow> debug_string_write S severity msg value s)"

text \<open>\<open>log_event\<close> over the \<open>write\<close> operation it ends in.\<close>

definition log_event ::
  "(Severity \<Rightarrow> bytes \<Rightarrow> ILogValue \<Rightarrow> 's \<Rightarrow> 's option) \<Rightarrow> Severity \<Rightarrow> bytes \<Rightarrow> ILogValue list \<Rightarrow> 's \<Rightarrow> 's option" where
  "log_event write severity msg values s =
     (if \<not> is_enabled_for_severity severity then Some s
      else write severity msg (LogValueCollection values) s)"

definition log_verbose :: "(Severity \<Rightarrow> bytes \<Rightarrow> ILogValue \<Rightarrow> 's \<Rightarrow> 's option) \<Rightarrow> bytes \<Rightarrow> ILogValue list \<Rightarrow> 's \<Rightarrow> 's option" where
  "log_verbose write = log_event write Verbose"

definition log_debug :: "(Severity \<Rightarrow> bytes \<Rightarrow> ILogValue \<Rightarrow> 's \<Rightarrow> 's option) \<Rightarrow> bytes \<Rightarrow> ILogValue list \<Rightarrow> 's \<Rightarrow> 's option" where
  "log_debug write = log_event write Debug"

definition log_info :: "(Severity \<Rightarrow> bytes \<Rightarrow> ILogValue \<Rightarrow> 's \<Rightarrow> 's option) \<Rightarrow> bytes \<Rightarrow> ILogValue list \<Rightarrow> 's \<Rightarrow> 's option" where
  "log_info write = log_event write Info"

definition log_warn :: "(Severity \<Rightarrow> bytes \<Rightarrow> ILogValue \<Rightarrow> 's \<Rightarrow> 's option) \<Rightarrow> bytes \<Rightarrow> ILogValue list \<Rightarrow> 's \<Rightarrow> 's option" where
  "log_warn write = log_event write Warn"

definition log_error :: "(Severity \<Rightarrow> bytes \<Rightarrow> ILogValue \<Rightarrow> 's \<Rightarrow> 's option) \<Rightarrow> bytes \<Rightarrow> ILogValue list \<Rightarrow> 's \<Rightarrow> 's option" where
  "log_error write = log_event write Error"

text \<open>\<open>make_log_configurer\<close> and \<open>configure_logging\<close>: the writer of the platform; on macOS a first event follows.\<close>

datatype Platform = OnWindows | OnDarwin | OnOther

definition platform_writer :: "Platform \<Rightarrow> Writer" where
  "platform_writer p = (case p of OnWindows \<Rightarrow> OutputDebugStringWriter | OnDarwin \<Rightarrow> OsLogWriter | OnOther \<Rightarrow> QtLogWriter)"

definition configure_logging :: "(OsLogType \<Rightarrow> bool) \<Rightarrow> streams \<Rightarrow> Platform \<Rightarrow> LogState \<Rightarrow> LogState option" where
  "configure_logging os_log_type_enabled S p s =
     (let s = register_log_writer (platform_writer p) s in
      if p = OnDarwin then
        log_info (do_log_event os_log_type_enabled S) ''OS logger registered'' [SingleValue (IntValue ''code'' 1337)] s
      else Some s)"

type_synonym event = "Severity \<times> bytes \<times> ILogValue list"

text \<open>A series of events.\<close>

fun log_events :: "(Severity \<Rightarrow> bytes \<Rightarrow> ILogValue \<Rightarrow> 's \<Rightarrow> 's option) \<Rightarrow> event list \<Rightarrow> 's \<Rightarrow> 's option" where
  "log_events write [] s = Some s"
| "log_events write ((severity, msg, values) # es) s =
     Option.bind (log_event write severity msg values s) (log_events write es)"

section \<open>The text of a value\<close>

text \<open>What a value adds to the line, without a visitor; and which values can be printed.\<close>

fun field_text :: "streams \<Rightarrow> ILogValue \<Rightarrow> bytes" where
  "field_text S (SingleValue x) = (case visit S x \<lparr>ss = [], finished = False\<rparr> of Some v \<Rightarrow> ss v | None \<Rightarrow> [])"
| "field_text S (LogValueCollection xs) = concat (map (field_text S) xs)"

fun printable :: "streams \<Rightarrow> ILogValue \<Rightarrow> bool" where
  "printable S (SingleValue (WStringValue name ws)) = (to_bytes S ws \<noteq> None)"
| "printable S (SingleValue x) = True"
| "printable S (LogValueCollection xs) = list_all (printable S) xs"

lemma put_simps [simp]:
  "ss (put bs v) = ss v @ bs" "finished (put bs v) = finished v" "put bs (put as v) = put (as @ bs) v" "put [] v = v"
  by (simp_all add: put_def)

lemma visit_put: "visit S x v = map_option (\<lambda>w. put (ss w) v) (visit S x \<lparr>ss = [], finished = False\<rparr>)"
  by (cases x) (simp_all add: put_def map_option.compositionality comp_def)

lemma visit_None: "visit S x v = None \<longleftrightarrow> \<not> printable S (SingleValue x)"
  by (cases x) auto

lemma accept_eq:
  "accept S x v = (if printable S x then Some (put (field_text S x) v) else None)"
  "accept_all S xs v = (if list_all (printable S) xs then Some (put (concat (map (field_text S) xs)) v) else None)"
proof (induction S x v and S xs v rule: accept_accept_all.induct)
  case (1 S x v)
  then show ?case
    using visit_put [of S x v] visit_None [of S x v]
    by (cases "visit S x \<lparr>ss = [], finished = False\<rparr>") auto
qed simp_all

lemma field_text_simps [simp]:
  "field_text S (SingleValue (StringValue name s)) = quoted name s"
  "field_text S (SingleValue (CStrValue name s)) = quoted name (c_str s)"
  by simp_all

lemma str_open [simp]: "fst (str (put bs Visitor_new)) = ''['' @ bs @ '' ]\<newline>''"
  by (simp add: str_def Visitor_new_def)

text \<open>Asking for the text again gives the same text.\<close>

lemma str_idempotent: "str (snd (str v)) = str v"
  by (simp add: str_def Let_def)

section \<open>What a writer promises\<close>

text \<open>
  A writer turns an event it is switched on for into one entry at the end of what it has written, and
  writes nothing for the others.
\<close>

locale log_writer =
  fixes "write" :: "Severity \<Rightarrow> bytes \<Rightarrow> ILogValue \<Rightarrow> 's \<Rightarrow> 's option"
    and active :: "'s \<Rightarrow> bool"
    and accepts :: "Severity \<Rightarrow> ILogValue \<Rightarrow> bool"
    and on :: "Severity \<Rightarrow> bool"
    and entry :: "Severity \<Rightarrow> bytes \<Rightarrow> ILogValue \<Rightarrow> 'e"
    and entries :: "'s \<Rightarrow> 'e list"
  assumes write_on: "active s \<Longrightarrow> accepts sev v \<Longrightarrow> on sev \<Longrightarrow>
      \<exists>s'. write sev msg v s = Some s' \<and> active s' \<and> entries s' = entries s @ [entry sev msg v]"
    and write_off: "active s \<Longrightarrow> \<not> on sev \<Longrightarrow> write sev msg v s = Some s"
begin

lemma logged:
  "active s \<Longrightarrow> \<forall>(sev, msg, vs) \<in> set es. is_enabled_for_severity sev \<longrightarrow> accepts sev (LogValueCollection vs) \<Longrightarrow>
   \<exists>s'. log_events write es s = Some s' \<and> active s' \<and> entries s' = entries s @
     map (\<lambda>(sev, msg, vs). entry sev msg (LogValueCollection vs))
       (filter (\<lambda>(sev, msg, vs). is_enabled_for_severity sev \<and> on sev) es)"
proof (induction es arbitrary: s)
  case (Cons e es)
  obtain sev msg vs where e: "e = (sev, msg, vs)" by (cases e) auto
  have rest: "\<forall>(sev, msg, vs) \<in> set es. is_enabled_for_severity sev \<longrightarrow> accepts sev (LogValueCollection vs)"
    using Cons.prems(2) by simp
  show ?case
  proof (cases "is_enabled_for_severity sev \<and> on sev")
    case True
    with write_on [OF Cons.prems(1), of sev "LogValueCollection vs" msg] Cons.prems(2) e obtain s' where
      "log_event write sev msg vs s = Some s'" "active s'" "entries s' = entries s @ [entry sev msg (LogValueCollection vs)]"
      by (auto simp: log_event_def)
    with Cons.IH [OF this(2) rest] True show ?thesis by (simp add: e)
  next
    case False
    then have "log_event write sev msg vs s = Some s" using write_off [OF Cons.prems(1)] by (simp add: log_event_def)
    with Cons.IH [OF Cons.prems(1) rest] False show ?thesis by (auto simp: e)
  qed
qed simp

text \<open>A prefix of the events gives a prefix of the entries: later events never rewrite what was logged.\<close>

lemma logged_prefix:
  assumes "active s" "\<forall>(sev, msg, vs) \<in> set (es @ fs). is_enabled_for_severity sev \<longrightarrow> accepts sev (LogValueCollection vs)"
  shows "\<exists>s' s'' new. log_events write es s = Some s' \<and> log_events write (es @ fs) s = Some s'' \<and>
    entries s'' = entries s' @ new"
  using logged [OF assms] logged [of s es] assms by fastforce

end

lemma do_log_event_writer:
  "g_writer s = SimpleLogWriter \<Longrightarrow> do_log_event on S sev msg v s = simple_write S sev msg v s"
  "g_writer s = OsLogWriter \<Longrightarrow> do_log_event on S sev msg v s = os_write on S sev msg v s"
  "g_writer s = QtLogWriter \<Longrightarrow> do_log_event on S sev msg v s = qt_write S sev msg v s"
  "g_writer s = OutputDebugStringWriter \<Longrightarrow> do_log_event on S sev msg v s = debug_string_write S sev msg v s"
  by (simp_all add: do_log_event_def)

text \<open>The line of an event on the standard error stream, and its text for the others.\<close>

definition simple_line :: "streams \<Rightarrow> Severity \<Rightarrow> bytes \<Rightarrow> ILogValue \<Rightarrow> bytes" where
  "simple_line S sev msg v =
     ''['' @ quoted ''sev'' (severity_name sev) @ quoted ''msg'' (c_str msg) @ field_text S v @ '' ]\<newline>\<newline>''"

definition event_text :: "streams \<Rightarrow> bytes \<Rightarrow> ILogValue \<Rightarrow> bytes" where
  "event_text S msg v = c_str msg @ '' '' @ c_str (''['' @ field_text S v @ '' ]\<newline>'')"

interpretation simple: log_writer "do_log_event on S" "\<lambda>s. g_writer s = SimpleLogWriter" "\<lambda>_. printable S"
  "\<lambda>_. True" "simple_line S" cerr for on S
  by unfold_locales (auto simp: do_log_event_writer simple_write_def accept_eq simple_line_def)

interpretation os: log_writer "do_log_event on S" "\<lambda>s. g_writer s = OsLogWriter" "\<lambda>_. printable S"
  "\<lambda>sev. on (log_type_for_severity sev)" "\<lambda>sev msg v. (log_type_for_severity sev, event_text S msg v)" os_entries for on S
  by unfold_locales (auto simp: do_log_event_writer os_write_def accept_eq event_text_def)

interpretation qt: log_writer "do_log_event on S" "\<lambda>s. g_writer s = QtLogWriter" "\<lambda>sev v. sev \<noteq> Fatal \<and> printable S v"
  "\<lambda>_. True" "\<lambda>sev msg v. (qt_type sev, event_text S msg v @ [LF])" qt_messages for on S
proof
  fix s :: LogState and sev v msg
  assume "g_writer s = QtLogWriter" "sev \<noteq> Fatal \<and> printable S v"
  moreover from this(2) have "qt_type sev \<noteq> QtFatalMsg" by (cases sev) simp_all
  ultimately show "\<exists>s'. do_log_event on S sev msg v s = Some s' \<and> g_writer s' = QtLogWriter \<and>
      qt_messages s' = qt_messages s @ [(qt_type sev, event_text S msg v @ [LF])]"
    by (simp add: do_log_event_writer qt_write_def accept_eq event_text_def)
qed simp

interpretation debug_string: log_writer "do_log_event on S" "\<lambda>s. g_writer s = OutputDebugStringWriter" "\<lambda>_. printable S"
  "\<lambda>_. True" "\<lambda>sev msg v. c_str msg @ '' ['' @ field_text S v @ '' ]\<newline>''" work_queue for on S
  by unfold_locales (auto simp: do_log_event_writer debug_string_write_def accept_eq)

lemma configured:
  "\<exists>s'. configure_logging on S p s = Some s' \<and> g_writer s' = platform_writer p"
proof (cases "p = OnDarwin")
  case True
  let ?s = "register_log_writer OsLogWriter s" and ?v = "LogValueCollection [SingleValue (IntValue ''code'' 1337)]"
  have w: "g_writer ?s = OsLogWriter" and p: "printable S ?v" by (simp_all add: register_log_writer_def)
  have "\<exists>s'. do_log_event on S Info ''OS logger registered'' ?v ?s = Some s' \<and> g_writer s' = OsLogWriter"
  proof (cases "on (log_type_for_severity Info)")
    case True
    obtain s' where "do_log_event on S Info ''OS logger registered'' ?v ?s = Some s'" "g_writer s' = OsLogWriter"
      using os.write_on [where on = on and sev = Info and msg = "''OS logger registered''", OF w p True] by blast
    then show ?thesis by blast
  next
    case False
    from os.write_off [where on = on and sev = Info, OF w this] w show ?thesis by simp
  qed
  moreover have "is_enabled_for_severity Info"
    by (simp add: is_enabled_for_severity_def g_min_severity_def less_eq_Severity_def word_le_nat_alt)
  ultimately show ?thesis
    by (simp add: True configure_logging_def platform_writer_def log_info_def log_event_def Let_def)
qed (simp add: configure_logging_def register_log_writer_def Let_def)

text \<open>The agent of the debug-print writer never meets the empty string that would end it.\<close>

lemma worker_waits:
  "[] \<notin> set queue \<Longrightarrow> LogPrintWorker_run queue = (map c_str queue, True)"
  by (induction queue) auto

lemma worker_waits_for_events:
  "\<exists>s'. log_events (do_log_event on S) es s = Some s' \<and> LogPrintWorker_run (work_queue s') = (map c_str (work_queue s'), True)"
  if "g_writer s = OutputDebugStringWriter" "[] \<notin> set (work_queue s)"
    "\<forall>(sev, msg, vs) \<in> set es. is_enabled_for_severity sev \<longrightarrow> printable S (LogValueCollection vs)"
proof -
  from debug_string.logged [OF that(1,3), of on] obtain s' where
    s': "log_events (do_log_event on S) es s = Some s'" "work_queue s' = work_queue s @
      map (\<lambda>(sev, msg, vs). c_str msg @ '' ['' @ field_text S (LogValueCollection vs) @ '' ]\<newline>'')
        (filter (\<lambda>(sev, msg, vs). is_enabled_for_severity sev) es)" by auto
  with that(2) have "[] \<notin> set (work_queue s')" by (auto simp: append_eq_Cons_conv Cons_eq_append_conv)
  with s'(1) worker_waits show ?thesis by blast
qed

lemma enabled_iff: "is_enabled_for_severity sev \<longleftrightarrow> sev \<noteq> Verbose"
  by (cases sev) (simp_all add: is_enabled_for_severity_def g_min_severity_def less_eq_Severity_def word_le_nat_alt)

section \<open>Ambiguity\<close>

text \<open>The fields of an event whose values are all strings.\<close>

definition string_fields :: "(bytes \<times> bytes) list \<Rightarrow> ILogValue" where
  "string_fields fs = LogValueCollection (map (\<lambda>(n, v). SingleValue (StringValue n v)) fs)"

definition unambiguous :: "bytes \<times> bytes \<Rightarrow> bool" where
  "unambiguous f \<longleftrightarrow> CHR ''='' \<notin> set (fst f) \<and> CHR 0x22 \<notin> set (snd f)"

lemma string_fields_simps [simp]:
  "field_text S (string_fields []) = []"
  "field_text S (string_fields ((n, v) # fs)) = quoted n v @ field_text S (string_fields fs)"
  by (simp_all add: string_fields_def del: field_text.simps(1))

lemma split_at_first:
  "xs @ c # ys = xs' @ c # ys' \<Longrightarrow> c \<notin> set xs \<Longrightarrow> c \<notin> set xs' \<Longrightarrow> xs = xs' \<and> ys = ys'"
  by (induction xs arbitrary: xs') (auto simp: Cons_eq_append_conv append_eq_Cons_conv)

lemma quoted_inject:
  assumes "quoted n v @ r = quoted n' v' @ r'" "unambiguous (n, v)" "unambiguous (n', v')"
  shows "n = n' \<and> v = v' \<and> r = r'"
proof -
  from assms(1) have "n @ CHR ''='' # CHR 0x22 # v @ CHR 0x22 # r = n' @ CHR ''='' # CHR 0x22 # v' @ CHR 0x22 # r'"
    by (simp add: quoted_def)
  from split_at_first [OF this] assms(2,3) have "n = n'" "v @ CHR 0x22 # r = v' @ CHR 0x22 # r'"
    by (simp_all add: unambiguous_def)
  with split_at_first [OF this(2)] assms(2,3) show ?thesis by (simp add: unambiguous_def)
qed

lemma string_fields_inject:
  "field_text S (string_fields fs) = field_text S (string_fields gs) \<Longrightarrow> list_all unambiguous fs \<Longrightarrow>
   list_all unambiguous gs \<Longrightarrow> fs = gs"
proof (induction fs arbitrary: gs)
  case Nil
  then show ?case by (cases gs) (auto simp: quoted_def)
next
  case (Cons f fs)
  obtain n v where f: "f = (n, v)" by (cases f)
  with Cons.prems(1) obtain n' v' gs' where gs: "gs = (n', v') # gs'" by (cases gs) (auto simp: quoted_def)
  from Cons.prems f gs have "n = n' \<and> v = v' \<and> field_text S (string_fields fs) = field_text S (string_fields gs')"
    by (intro quoted_inject) simp_all
  with Cons f gs show ?case by simp
qed

text \<open>With quotes in a value it is not so: one field can look like two.\<close>

lemma quotes_forge_fields:
  "field_text S (string_fields [(n, v @ [CHR 0x22] @ '' '' @ m @ ''='' @ [CHR 0x22] @ w)]) =
   field_text S (string_fields [(n, v), (m, w)])"
  by (simp add: quoted_def)

section \<open>Properties\<close>

text \<open>C32: what a program logs with the writer the library starts with: for any series of events whose values can be
  printed, the standard error stream gets one line per event that is not verbose, in the order of the events, each
  with the letter of its severity, its message and its fields in order.\<close>

theorem events_logged:
  assumes "\<forall>(sev, msg, vs) \<in> set es. printable S (LogValueCollection vs)"
  shows "\<exists>s. log_events (do_log_event on S) es LogState_new = Some s \<and> g_writer s = SimpleLogWriter \<and>
    cerr s = map (\<lambda>(sev, msg, vs). ''['' @ quoted ''sev'' (severity_name sev) @ quoted ''msg'' (c_str msg) @
        concat (map (field_text S) vs) @ '' ]\<newline>\<newline>'')
      (filter (\<lambda>(sev, _, _). sev \<noteq> Verbose) es)"
proof -
  have "g_writer LogState_new = SimpleLogWriter" "cerr LogState_new = []" by (simp_all add: LogState_new_def)
  with simple.logged [OF this(1), of es S on] assms show ?thesis
    by (fastforce simp: simple_line_def enabled_iff)
qed

definition plain_streams :: streams where
  "plain_streams = \<lparr>pointer_text = (\<lambda>_. ''0x0''), to_bytes = (\<lambda>_. None)\<rparr>"

lemma events_logged_witness:
  "\<exists>s. log_events (do_log_event (\<lambda>_. True) plain_streams)
      [(Verbose, ''step'', []), (Info, ''up'', [SingleValue (IntValue ''port'' 9999), SingleValue (U8Value ''code'' 65)])]
      LogState_new = Some s \<and>
    cerr s = [''[ sev='' @ [CHR 0x22] @ ''I'' @ [CHR 0x22] @ '' msg='' @ [CHR 0x22] @ ''up'' @ [CHR 0x22] @
      '' port=9999 code=A ]\<newline>\<newline>'']"
proof -
  let ?es = "[(Verbose, ''step'', []),
    (Info, ''up'', [SingleValue (IntValue ''port'' 9999), SingleValue (U8Value ''code'' 65)])]"
  have dec: "dec_int 9999 = ''9999''" and A: "char_of (65 :: nat) = CHR ''A''"
    by (simp_all add: dec_int_def dec_nat.simps char_of_eq_iff)
  have "\<forall>(sev, msg, vs) \<in> set ?es. printable plain_streams (LogValueCollection vs)" by simp
  from events_logged [OF this, of "\<lambda>_. True"] obtain s where s: "log_events (do_log_event (\<lambda>_. True) plain_streams) ?es LogState_new = Some s"
    "cerr s = map (\<lambda>(sev, msg, vs). ''['' @ quoted ''sev'' (severity_name sev) @ quoted ''msg'' (c_str msg) @
        concat (map (field_text plain_streams) vs) @ '' ]\<newline>\<newline>'') (filter (\<lambda>(sev, _, _). sev \<noteq> Verbose) ?es)" by blast
  note s(2)
  also have "map (\<lambda>(sev, msg, vs). ''['' @ quoted ''sev'' (severity_name sev) @ quoted ''msg'' (c_str msg) @
        concat (map (field_text plain_streams) vs) @ '' ]\<newline>\<newline>'') (filter (\<lambda>(sev, _, _). sev \<noteq> Verbose) ?es) =
      [''[ sev='' @ [CHR 0x22] @ ''I'' @ [CHR 0x22] @ '' msg='' @ [CHR 0x22] @ ''up'' @ [CHR 0x22] @
      '' port=9999 code=A ]\<newline>\<newline>'']"
    by (simp add: quoted_def plain_def c_str_def dec A)
  finally show ?thesis using s(1) by blast
qed

text \<open>An event whose fields are strings.\<close>

definition string_event :: "Severity \<times> bytes \<times> (bytes \<times> bytes) list \<Rightarrow> event" where
  "string_event e = (case e of (sev, msg, fs) \<Rightarrow> (sev, msg, map (\<lambda>(n, v). SingleValue (StringValue n v)) fs))"

definition readable :: "Severity \<times> bytes \<times> (bytes \<times> bytes) list \<Rightarrow> bool" where
  "readable e = (case e of (sev, msg, fs) \<Rightarrow> CHR 0x22 \<notin> set msg \<and> CHR 0x00 \<notin> set msg \<and> list_all unambiguous fs)"

lemma string_event_printable: "printable S (LogValueCollection (snd (snd (string_event e))))"
  by (cases e) (auto simp: string_event_def list_all_iff)

definition event_line :: "Severity \<times> bytes \<times> (bytes \<times> bytes) list \<Rightarrow> bytes" where
  "event_line e = (case e of (sev, msg, fs) \<Rightarrow>
     ''['' @ field_text plain_streams (string_fields ((''sev'', severity_name sev) # (''msg'', c_str msg) # fs)) @ '' ]\<newline>\<newline>'')"

lemma severity_name_unambiguous: "unambiguous (''sev'', severity_name sev)"
  by (cases sev) (simp_all add: unambiguous_def)

lemma severity_name_inject: "severity_name a = severity_name b \<Longrightarrow> a = b"
  by (cases a; cases b) simp_all

lemma event_line_inject:
  assumes "event_line e = event_line e'" "readable e" "readable e'"
  shows "e = e'"
proof -
  obtain sev msg fs where e: "e = (sev, msg, fs)" by (cases e) auto
  obtain sev' msg' fs' where e': "e' = (sev', msg', fs')" by (cases e') auto
  have "(''sev'', severity_name sev) # (''msg'', msg) # fs = (''sev'', severity_name sev') # (''msg'', msg') # fs'"
    using assms by (intro string_fields_inject [of plain_streams])
      (auto simp: e e' event_line_def readable_def severity_name_unambiguous unambiguous_def [of "(''msg'', _)"])
  with severity_name_inject show ?thesis by (auto simp: e e')
qed

lemma string_events_lines:
  assumes "log_events (do_log_event on S) (map string_event es) LogState_new = Some s"
  shows "cerr s = map event_line (filter (\<lambda>(sev, _, _). sev \<noteq> Verbose) es)"
proof -
  have w: "g_writer LogState_new = SimpleLogWriter" "cerr LogState_new = []" by (simp_all add: LogState_new_def)
  have plain_text: "concat (map (field_text S) (snd (snd (string_event e)))) = field_text plain_streams (string_fields (snd (snd e)))" for e
    by (cases e) (simp add: string_event_def string_fields_def comp_def case_prod_beta)
  have "\<forall>(sev, msg, vs) \<in> set (map string_event es). is_enabled_for_severity sev \<longrightarrow> printable S (LogValueCollection vs)"
    using string_event_printable by (metis (no_types, lifting) case_prodI2 imageE list.set_map snd_conv)
  from simple.logged [OF w(1) this, of on] assms w(2) have
    "cerr s = map (\<lambda>(sev, msg, vs). simple_line S sev msg (LogValueCollection vs))
      (filter (\<lambda>(sev, msg, vs). sev \<noteq> Verbose) (map string_event es))" by (simp add: enabled_iff)
  also have "\<dots> = map event_line (filter (\<lambda>(sev, _, _). sev \<noteq> Verbose) es)"
    using plain_text by (induction es) (auto simp: string_event_def event_line_def simple_line_def)
  finally show ?thesis .
qed

text \<open>C33: the log can be read back as long as no value has a quote in it (they are not escaped) and no name an
  equals sign: two series of events with string values that leave the same lines are the same series, verbose
  events aside.\<close>

theorem log_readable:
  assumes "log_events (do_log_event on S) (map string_event es) LogState_new = Some s"
    and "log_events (do_log_event on S) (map string_event fs) LogState_new = Some s'"
    and "list_all readable es" and "list_all readable fs" and "cerr s = cerr s'"
  shows "filter (\<lambda>(sev, _, _). sev \<noteq> Verbose) es = filter (\<lambda>(sev, _, _). sev \<noteq> Verbose) fs"
proof (rule map_inj_on)
  show "map event_line (filter (\<lambda>(sev, _, _). sev \<noteq> Verbose) es) = map event_line (filter (\<lambda>(sev, _, _). sev \<noteq> Verbose) fs)"
    using assms(5) string_events_lines [OF assms(1)] string_events_lines [OF assms(2)] by simp
  show "inj_on event_line (set (filter (\<lambda>(sev, _, _). sev \<noteq> Verbose) es) \<union> set (filter (\<lambda>(sev, _, _). sev \<noteq> Verbose) fs))"
    using assms(3,4) by - (intro inj_onI, rule event_line_inject, auto simp: list_all_iff)
qed

lemma log_readable_witness:
  "filter (\<lambda>(sev, _, _). sev \<noteq> Verbose) [(Verbose, ''a'', []), (Info, ''b'', [(''n'', ''v'')])] =
   filter (\<lambda>(sev, _, _). sev \<noteq> Verbose) [(Info, ''b'', [(''n'', ''v'')])]"
proof -
  have run: "log_events (do_log_event (\<lambda>_. True) plain_streams) (map string_event es) LogState_new =
      Some (LogState_new\<lparr>cerr := [event_line (Info, ''b'', [(''n'', ''v'')])]\<rparr>)"
    if "es \<in> {[(Verbose, ''a'', []), (Info, ''b'', [(''n'', ''v'')])], [(Info, ''b'', [(''n'', ''v'')])]}" for es
    using that by (auto simp: string_event_def log_event_def enabled_iff do_log_event_def simple_write_def accept_eq
        LogState_new_def event_line_def)
  show ?thesis
    by (rule log_readable [OF run run]) (simp_all add: readable_def unambiguous_def)
qed

end
