(* ===== verification/HelperSessions.thy ===== *)
theory HelperSessions
  imports XpcServer Log
begin

text \<open>
  The privileged helper over its lifetime: \<open>trusty/main.cpp\<close>, \<open>XpcServer::serve\<close> and the destructor of
  \<open>XpcServer\<close> (\<open>trusty/XpcServer.cpp\<close>), and the connection kept by \<open>XpcServiceClient\<close> at the other end.

  XPC delivers the events one by one on the main queue, until the process ends. What it promises: a new connection is an
  object that no other peer uses, and messages come only from connections that were set up and activated.
\<close>

section \<open>The events of the listener and its peers\<close>

datatype HelperEvent =
    PeerConnects nat int signature
  | PeerMessage nat signature XpcObject
  | PeerGone nat

text \<open>When the last reference to a connection is gone, XPC calls the finalizer with the context.\<close>

definition peer_gone :: "nat \<Rightarrow> 's XpcServer \<Rightarrow> 's XpcServer" where
  "peer_gone c srv = (CleanUpConnection (contexts srv c) srv)\<lparr>contexts := (contexts srv)(c := None)\<rparr>"

text \<open>The destructor of the service of a peer frees its authorization; \<open>freed\<close> lists those freed so far. A peer that goes takes
  the last reference to its service with it.\<close>

definition AuthorizedService_delete :: "auth option \<Rightarrow> auth list \<Rightarrow> auth list" where
  "AuthorizedService_delete a freed = (case a of None \<Rightarrow> freed | Some x \<Rightarrow> freed @ [x])"

definition frees_of_peer :: "nat \<Rightarrow> 's XpcServer \<Rightarrow> auth list \<Rightarrow> auth list" where
  "frees_of_peer c srv freed = AuthorizedService_delete (Option.bind (contexts srv c) (connections srv)) freed"

fun helper_event :: "nat \<Rightarrow> security \<Rightarrow> 's IService \<Rightarrow> HelperEvent \<Rightarrow> 's XpcServer \<Rightarrow> 's XpcServer" where
  "helper_event macos sec service (PeerConnects c peer_status sig) srv =
     snd (handleIncomingConnection macos peer_status sig c srv)"
| "helper_event macos sec service (PeerMessage c sig msg) srv =
     snd (handleIncomingMessage macos sig sec service c msg srv)"
| "helper_event macos sec service (PeerGone c) srv = peer_gone c srv"

fun possible :: "HelperEvent \<Rightarrow> 's XpcServer \<Rightarrow> bool" where
  "possible (PeerConnects c _ _) srv = (\<not> terminated srv \<and> contexts srv c = None)"
| "possible (PeerMessage c _ _) srv = (\<not> terminated srv \<and> contexts srv c \<noteq> None)"
| "possible (PeerGone c) srv = (\<not> terminated srv)"

text \<open>The helper after a history of events, the latest first.\<close>

inductive helper_run :: "nat \<Rightarrow> security \<Rightarrow> 's IService \<Rightarrow> 's \<Rightarrow> HelperEvent list \<Rightarrow> 's XpcServer \<Rightarrow> bool"
  for macos sec service s where
  start: "helper_run macos sec service s [] (XpcServer_new s)"
| event: "helper_run macos sec service s evs srv \<Longrightarrow> possible ev srv \<Longrightarrow>
    helper_run macos sec service s (ev # evs) (helper_event macos sec service ev srv)"

inductive_simps helper_run_simps [simp]:
  "helper_run macos sec service s [] srv"
  "helper_run macos sec service s (ev # evs) srv"

section \<open>The process\<close>

definition queue_event :: "nat \<Rightarrow> security \<Rightarrow> 's IService \<Rightarrow> HelperEvent \<Rightarrow> 's XpcServer \<Rightarrow> 's XpcServer" where
  "queue_event macos sec service ev srv = (if terminated srv then srv else helper_event macos sec service ev srv)"

text \<open>\<open>serve\<close> returns when the Mach service cannot be opened, and then only; \<open>evs\<close> is what the main queue delivers
  (the first event first).\<close>

definition serve :: "nat \<Rightarrow> security \<Rightarrow> 's IService \<Rightarrow> bool \<Rightarrow> HelperEvent list \<Rightarrow> 's XpcServer \<Rightarrow> bool \<times> 's XpcServer" where
  "serve macos sec service listener evs srv =
     (if \<not> listener then (True, srv) else (False, fold (queue_event macos sec service) evs srv))"

definition helper_main :: "nat \<Rightarrow> security \<Rightarrow> bool \<Rightarrow> HelperEvent list \<Rightarrow> LogState \<Rightarrow> Sys \<Rightarrow> LogState \<times> bool \<times> Sys XpcServer" where
  "helper_main macos sec listener evs l sys =
     (register_log_writer OsLogWriter l, serve macos sec TrustyService listener evs (XpcServer_new sys))"

definition XpcServer_delete :: "'s XpcServer \<Rightarrow> 's XpcServer" where
  "XpcServer_delete srv = srv\<lparr>connections := Map.empty\<rparr>"

section \<open>What a history says about a peer\<close>

fun about :: "nat \<Rightarrow> HelperEvent \<Rightarrow> bool" where
  "about c (PeerConnects d _ _) = (d = c)"
| "about c (PeerGone d) = (d = c)"
| "about c (PeerMessage _ _ _) = False"

text \<open>The events since the peer connected, and whether it passed the check when it did.\<close>

definition session_of :: "nat \<Rightarrow> HelperEvent list \<Rightarrow> HelperEvent list" where
  "session_of c evs = takeWhile (\<lambda>ev. \<not> about c ev) evs"

definition accepted_peer :: "nat \<Rightarrow> nat \<Rightarrow> HelperEvent list \<Rightarrow> bool" where
  "accepted_peer macos c evs = (case dropWhile (\<lambda>ev. \<not> about c ev) evs of
     PeerConnects _ peer_status sig # _ \<Rightarrow> isClientSignatureValid macos peer_status sig
   | _ \<Rightarrow> False)"

fun hello_with :: "nat \<Rightarrow> security \<Rightarrow> nat \<Rightarrow> auth \<Rightarrow> HelperEvent \<Rightarrow> bool" where
  "hello_with macos sec c a (PeerMessage d sig msg) =
     (d = c \<and> isMessageSignatureValid macos sig \<and> (case unwrap msg of
        None \<Rightarrow> False
      | Some m \<Rightarrow> msg_type m = Hello \<and> AuthorizedService_new sec (data_bytes (payload m)) = Inr a))"
| "hello_with macos sec c a _ = False"

definition said_hello :: "nat \<Rightarrow> security \<Rightarrow> nat \<Rightarrow> auth \<Rightarrow> HelperEvent list \<Rightarrow> bool" where
  "said_hello macos sec c a evs = list_ex (hello_with macos sec c a) (session_of c evs)"

lemma history_simps [simp]:
  "about c ev \<Longrightarrow> session_of c (ev # evs) = []"
  "\<not> about c ev \<Longrightarrow> session_of c (ev # evs) = ev # session_of c evs"
  "\<not> about c ev \<Longrightarrow> accepted_peer macos c (ev # evs) = accepted_peer macos c evs"
  "accepted_peer macos c (PeerConnects c peer_status sig # evs) = isClientSignatureValid macos peer_status sig"
  by (simp_all add: session_of_def accepted_peer_def)

lemma said_hello_later: "said_hello macos sec c a evs \<Longrightarrow> \<not> about c ev \<Longrightarrow> said_hello macos sec c a (ev # evs)"
  by (simp add: said_hello_def)

section \<open>The invariant\<close>

text \<open>A message touches no context; it can only add the authorization the peer presents.\<close>

lemma message_effect:
  assumes "handleIncomingMessage macos sig sec service c msg srv = (r, srv')"
  shows "contexts srv' = contexts srv" "nextId srv' = nextId srv"
    and "connections srv' = connections srv \<or>
      (\<exists>cid a. contexts srv c = Some cid \<and> connections srv cid = None \<and> hello_with macos sec c a (PeerMessage c sig msg) \<and>
         connections srv' = (connections srv)(cid \<mapsto> a))"
proof -
  have answer: "contexts (snd (answer_message sec service cid m srv)) = contexts srv \<and>
      nextId (snd (answer_message sec service cid m srv)) = nextId srv \<and>
      (connections (snd (answer_message sec service cid m srv)) = connections srv \<or>
       (\<exists>a. connections srv cid = None \<and> msg_type m = Hello \<and> AuthorizedService_new sec (data_bytes (payload m)) = Inr a \<and>
         connections (snd (answer_message sec service cid m srv)) = (connections srv)(cid \<mapsto> a)))" for cid m
    by (auto simp: answer_message_def split: option.splits sum.splits prod.splits)
  consider "contexts srv' = contexts srv" "nextId srv' = nextId srv" "connections srv' = connections srv"
    | cid m where "isMessageSignatureValid macos sig" "unwrap msg = Some m" "contexts srv c = Some cid"
      "contexts srv' = contexts (snd (answer_message sec service cid m srv))"
      "nextId srv' = nextId (snd (answer_message sec service cid m srv))"
      "connections srv' = connections (snd (answer_message sec service cid m srv))"
    using assms that
    by (auto simp: handleIncomingMessage_def split: XpcObject.splits option.splits sum.splits if_splits prod.splits)
  then have "contexts srv' = contexts srv \<and> nextId srv' = nextId srv \<and> (connections srv' = connections srv \<or>
      (\<exists>cid a. contexts srv c = Some cid \<and> connections srv cid = None \<and> hello_with macos sec c a (PeerMessage c sig msg) \<and>
         connections srv' = (connections srv)(cid \<mapsto> a)))"
  proof cases
    case 2
    then show ?thesis using answer [of cid m] by auto
  qed simp
  then show "contexts srv' = contexts srv" "nextId srv' = nextId srv"
    "connections srv' = connections srv \<or>
      (\<exists>cid a. contexts srv c = Some cid \<and> connections srv cid = None \<and> hello_with macos sec c a (PeerMessage c sig msg) \<and>
         connections srv' = (connections srv)(cid \<mapsto> a))"
    by simp_all
qed

definition helper_inv :: "nat \<Rightarrow> security \<Rightarrow> HelperEvent list \<Rightarrow> 's XpcServer \<Rightarrow> bool" where
  "helper_inv macos sec evs srv \<longleftrightarrow>
     (\<forall>c cid. contexts srv c = Some cid \<longrightarrow> cid < nextId srv \<and> accepted_peer macos c evs) \<and>
     (\<forall>c d cid. contexts srv c = Some cid \<and> contexts srv d = Some cid \<longrightarrow> c = d) \<and>
     (\<forall>cid a. connections srv cid = Some a \<longrightarrow> (\<exists>c. contexts srv c = Some cid \<and> said_hello macos sec c a evs))"

lemma helper_invD:
  assumes "helper_inv macos sec evs srv"
  shows "contexts srv c = Some cid \<Longrightarrow> cid < nextId srv" "contexts srv c = Some cid \<Longrightarrow> accepted_peer macos c evs"
    and "contexts srv c = Some cid \<Longrightarrow> contexts srv d = Some cid \<Longrightarrow> c = d"
    and "connections srv cid = Some a \<Longrightarrow> \<exists>c. contexts srv c = Some cid \<and> said_hello macos sec c a evs"
  using assms unfolding helper_inv_def by blast+

lemma helper_invI:
  assumes "\<And>c cid. contexts srv c = Some cid \<Longrightarrow> cid < nextId srv" "\<And>c cid. contexts srv c = Some cid \<Longrightarrow> accepted_peer macos c evs"
    and "\<And>c d cid. contexts srv c = Some cid \<Longrightarrow> contexts srv d = Some cid \<Longrightarrow> c = d"
    and "\<And>cid a. connections srv cid = Some a \<Longrightarrow> \<exists>c. contexts srv c = Some cid \<and> said_hello macos sec c a evs"
  shows "helper_inv macos sec evs srv"
  using assms unfolding helper_inv_def by blast

lemma inv_connects:
  assumes "helper_inv macos sec evs srv" "contexts srv c = None"
  shows "helper_inv macos sec (PeerConnects c peer_status sig # evs) (snd (handleIncomingConnection macos peer_status sig c srv))"
    (is "helper_inv _ _ (?ev # _) ?srv")
proof -
  note inv = helper_invD [OF assms(1)]
  have old: "contexts ?srv d = contexts srv d" if "d \<noteq> c" for d
    using that by (simp add: handleIncomingConnection_def)
  have new: "contexts ?srv c = Some cid \<Longrightarrow> cid = nextId srv \<and> nextId ?srv = nextId srv + 1 \<and> isClientSignatureValid macos peer_status sig" for cid
    using assms(2) by (auto simp: handleIncomingConnection_def split: if_splits)
  have mono: "nextId srv \<le> nextId ?srv" "connections ?srv = connections srv" by (simp_all add: handleIncomingConnection_def)
  show ?thesis
  proof (rule helper_invI)
    fix d cid assume d: "contexts ?srv d = Some cid"
    show "cid < nextId ?srv" using d new inv(1) [of d cid] old [of d] mono(1) by (cases "d = c") auto
    show "accepted_peer macos d (?ev # evs)" using d new inv(2) [of d cid] old [of d] by (cases "d = c") auto
    fix e assume e: "contexts ?srv e = Some cid"
    consider "d = c" "e = c" | "d = c" "e \<noteq> c" | "d \<noteq> c" "e = c" | "d \<noteq> c" "e \<noteq> c" by blast
    then show "d = e"
    proof cases
      case 2
      with e old [of e] have "cid < nextId srv" by (intro inv(1)) simp
      with new d 2 show ?thesis by simp
    next
      case 3
      with d old [of d] have "cid < nextId srv" by (intro inv(1)) simp
      with new e 3 show ?thesis by simp
    next
      case 4
      then show ?thesis using d e old inv(3) [of d cid e] by simp
    qed simp
  next
    fix cid a assume "connections ?srv cid = Some a"
    then obtain d where d: "contexts srv d = Some cid" "said_hello macos sec d a evs" using inv(4) mono(2) by auto
    with assms(2) have "d \<noteq> c" by auto
    with d old [of d] show "\<exists>d. contexts ?srv d = Some cid \<and> said_hello macos sec d a (?ev # evs)"
      by (auto intro!: exI [of _ d] said_hello_later)
  qed
qed

lemma inv_message:
  assumes "helper_inv macos sec evs srv"
  shows "helper_inv macos sec (PeerMessage c sig msg # evs) (snd (handleIncomingMessage macos sig sec service c msg srv))"
    (is "helper_inv _ _ (?ev # _) ?srv")
proof -
  note inv = helper_invD [OF assms(1)]
  note effect = message_effect [OF prod.collapse [symmetric], of macos sig sec service c msg srv]
  show ?thesis
  proof (rule helper_invI)
    fix cid a assume a: "connections ?srv cid = Some a"
    show "\<exists>d. contexts ?srv d = Some cid \<and> said_hello macos sec d a (?ev # evs)"
    proof (cases "connections srv cid = Some a")
      case True
      from inv(4) [OF this] show ?thesis using effect(1) said_hello_later [of macos sec _ a evs ?ev] by auto
    next
      case False
      with a effect(3) have "contexts srv c = Some cid" "hello_with macos sec c a ?ev" by (auto split: if_splits)
      then show ?thesis using effect(1) by (auto simp: said_hello_def)
    qed
  qed (use inv effect(1,2) in auto)
qed

lemma inv_gone:
  assumes "helper_inv macos sec evs srv"
  shows "helper_inv macos sec (PeerGone c # evs) (peer_gone c srv)"
proof -
  note inv = helper_invD [OF assms(1)]
  have ctx: "contexts (peer_gone c srv) d = (if d = c then None else contexts srv d)" for d
    by (simp add: peer_gone_def CleanUpConnection_def)
  have same: "nextId (peer_gone c srv) = nextId srv" by (simp add: peer_gone_def CleanUpConnection_def split: option.splits)
  show ?thesis
  proof (rule helper_invI)
    fix cid a assume "connections (peer_gone c srv) cid = Some a"
    then have a: "connections srv cid = Some a" "contexts srv c \<noteq> Some cid"
      by (auto simp: peer_gone_def CleanUpConnection_def split: option.splits if_splits)
    from inv(4) [OF a(1)] obtain d where d: "contexts srv d = Some cid" "said_hello macos sec d a evs" by blast
    with a(2) have "d \<noteq> c" by auto
    with d ctx show "\<exists>d. contexts (peer_gone c srv) d = Some cid \<and> said_hello macos sec d a (PeerGone c # evs)"
      by (auto intro!: exI [of _ d] said_hello_later)
  qed (use inv in \<open>auto simp: ctx same split: if_splits\<close>)
qed

lemma helper_inv_run: "helper_run macos sec service s evs srv \<Longrightarrow> helper_inv macos sec evs srv"
proof (induction rule: helper_run.induct)
  case start
  show ?case by (rule helper_invI) (simp_all add: XpcServer_new_def)
next
  case (event evs srv ev)
  then show ?case by (cases ev) (auto intro: inv_connects inv_message inv_gone)
qed

section \<open>Properties\<close>

text \<open>What the history says, spelt out: the session of an accepted peer starts where it connected, and the signature checks come
  down to the statuses of the system's calls.\<close>

abbreviation signed :: "signature \<Rightarrow> bool" where
  "signed sig \<equiv> code_status sig = 0 \<and> requirement_status sig = 0 \<and> validity_status sig = 0"

lemma message_checked: "isMessageSignatureValid macos sig \<longleftrightarrow> (macos = 11 \<longrightarrow> signed sig)"
  by (auto simp: isMessageSignatureValid_def validate_xpc_message_or_connection_def)

lemma client_checked:
  "isClientSignatureValid macos peer_status sig \<longleftrightarrow> (macos \<le> 10 \<longrightarrow> signed sig) \<and> (macos \<ge> 12 \<longrightarrow> peer_status \<noteq> 0)"
  by (auto simp: isClientSignatureValid_def validate_xpc_message_or_connection_def)

lemma accepted_session:
  assumes "accepted_peer macos c evs"
  shows "\<exists>earlier peer_status csig. evs = session_of c evs @ PeerConnects c peer_status csig # earlier \<and>
    isClientSignatureValid macos peer_status csig"
proof -
  from assms obtain d peer_status csig earlier where
    e: "dropWhile (\<lambda>ev. \<not> about c ev) evs = PeerConnects d peer_status csig # earlier" "isClientSignatureValid macos peer_status csig"
    by (auto simp: accepted_peer_def split: list.splits HelperEvent.splits)
  from dropWhile_eq_Cons_conv [THEN iffD1, OF e(1)] have "d = c" by simp
  with e show ?thesis
    unfolding session_of_def using takeWhile_dropWhile_id [of "\<lambda>ev. \<not> about c ev" evs] by metis
qed

lemma hello_withE:
  assumes "said_hello macos sec c a evs"
  obtains hsig hello hm where "PeerMessage c hsig hello \<in> set (session_of c evs)" "isMessageSignatureValid macos hsig"
    "unwrap hello = Some hm" "msg_type hm = Hello" "AuthorizedService_new sec (data_bytes (payload hm)) = Inr a"
proof -
  from assms obtain ev where "ev \<in> set (session_of c evs)" "hello_with macos sec c a ev"
    by (auto simp: said_hello_def list_ex_iff)
  then show ?thesis using that by - (cases ev, auto split: option.splits)
qed

text \<open>The event that changes the settings, in terms of the history.\<close>

lemma change_earned:
  assumes "helper_run macos sec service s evs srv" and "possible ev srv"
    and "service_state (helper_event macos sec service ev srv) \<noteq> service_state srv"
    and "\<And>s. snd (get_http_proxy_state service s) = s" and "\<And>s. snd (get_current_version service s) = s"
  shows "\<exists>c sig msg m a. ev = PeerMessage c sig msg \<and> isMessageSignatureValid macos sig \<and> unwrap msg = Some m \<and>
    accepted_peer macos c evs \<and> said_hello macos sec c a evs \<and>
    (msg_type m = SetProxyState \<and> granted sec a kSetProxyStateRightName \<or>
     msg_type m = ClearProxySettings \<and> granted sec a kClearSettingsRightName)"
proof (cases ev)
  case (PeerMessage c sig msg)
  note inv = helper_invD [OF helper_inv_run [OF assms(1)]]
  from assms(3) PeerMessage have "service_state (snd (handleIncomingMessage macos sig sec service c msg srv)) \<noteq> service_state srv"
    by simp
  from only_authorized_changes [OF prod.collapse [symmetric] this assms(4,5)]
  obtain m cid a where m: "isMessageSignatureValid macos sig" "unwrap msg = Some m" "contexts srv c = Some cid"
      "connections srv cid = Some a" and may: "msg_type m = SetProxyState \<and> granted sec a kSetProxyStateRightName \<or>
        msg_type m = ClearProxySettings \<and> granted sec a kClearSettingsRightName" by blast
  from inv(4) [OF m(4)] inv(3) [OF m(3)] have "said_hello macos sec c a evs" by blast
  with m may inv(2) [OF m(3)] PeerMessage show ?thesis by blast
next
  case (PeerConnects c peer_status sig)
  with assms(3) show ?thesis by (simp add: handleIncomingConnection_def split: if_splits)
next
  case (PeerGone c)
  with assms(3) show ?thesis by (simp add: peer_gone_def CleanUpConnection_def split: option.splits)
qed

text \<open>C25: over the whole life of the helper, the event that changes the settings is a message that asks for it, from a
  peer that has said hello in this very session (between its connecting and this message) with an authorization that grants
  the right the message needs; no peer acts under the authorization of another, or of an earlier peer. How much is checked of the
  peer's code signature depends on the system: up to macOS 10 the connection's when it was made, on macOS 11 that of the
  hello and of this message, and from macOS 12 on none: the peers let in are those for which the signing
  requirement could not be set.\<close>

theorem changes_authorized:
  assumes "helper_run macos sec service s evs srv" and "possible ev srv"
    and "service_state (helper_event macos sec service ev srv) \<noteq> service_state srv"
    and "\<And>s. snd (get_http_proxy_state service s) = s" and "\<And>s. snd (get_current_version service s) = s"
  shows "\<exists>c sig msg m a hsig hello hm earlier peer_status csig.
    ev = PeerMessage c sig msg \<and> unwrap msg = Some m \<and>
    (msg_type m = SetProxyState \<and> granted sec a kSetProxyStateRightName \<or>
     msg_type m = ClearProxySettings \<and> granted sec a kClearSettingsRightName) \<and>
    evs = session_of c evs @ PeerConnects c peer_status csig # earlier \<and>
    PeerMessage c hsig hello \<in> set (session_of c evs) \<and> unwrap hello = Some hm \<and>
    msg_type hm = Hello \<and> AuthorizedService_new sec (data_bytes (payload hm)) = Inr a \<and>
    (macos \<le> 10 \<longrightarrow> signed csig) \<and> (macos = 11 \<longrightarrow> signed hsig \<and> signed sig) \<and> (macos \<ge> 12 \<longrightarrow> peer_status \<noteq> 0)"
proof -
  from change_earned [OF assms] obtain c sig msg m a where e: "ev = PeerMessage c sig msg" "isMessageSignatureValid macos sig"
      "unwrap msg = Some m" "accepted_peer macos c evs" "said_hello macos sec c a evs"
      "msg_type m = SetProxyState \<and> granted sec a kSetProxyStateRightName \<or>
       msg_type m = ClearProxySettings \<and> granted sec a kClearSettingsRightName" by blast
  from accepted_session [OF e(4)] obtain earlier peer_status csig where
    s: "evs = session_of c evs @ PeerConnects c peer_status csig # earlier" "isClientSignatureValid macos peer_status csig" by blast
  from e(5) obtain hsig hello hm where h: "PeerMessage c hsig hello \<in> set (session_of c evs)" "isMessageSignatureValid macos hsig"
      "unwrap hello = Some hm" "msg_type hm = Hello" "AuthorizedService_new sec (data_bytes (payload hm)) = Inr a"
    by (rule hello_withE)
  have "(macos \<le> 10 \<longrightarrow> signed csig) \<and> (macos = 11 \<longrightarrow> signed hsig \<and> signed sig) \<and> (macos \<ge> 12 \<longrightarrow> peer_status \<noteq> 0)"
    using e(2) s(2) h(2) by (simp add: message_checked client_checked)
  with e(1,3,6) s(1) h(1,3-5) show ?thesis by blast
qed

text \<open>No authorization outlives its peer, and a message of an established peer ends the helper only by a crash in
  the service.\<close>

lemma authorizations_end:
  "helper_run macos sec service s evs srv \<Longrightarrow> (\<And>c. contexts srv c = None) \<Longrightarrow> connections srv = Map.empty"
  using helper_invD(4) [OF helper_inv_run] by fastforce

text \<open>The authorization a peer presented is freed when the peer goes: it is in the table before and not after.\<close>

lemma authorization_freed:
  assumes "contexts srv c = Some cid" "connections srv cid = Some a"
  shows "frees_of_peer c srv freed = freed @ [a] \<and> connections (peer_gone c srv) = (connections srv)(cid := None) \<and>
    frees_of_peer c (peer_gone c srv) freed = freed"
  using assms by (simp add: frees_of_peer_def AuthorizedService_delete_def peer_gone_def CleanUpConnection_def)

lemma helper_stays_alive:
  "possible (PeerMessage c sig msg) srv \<Longrightarrow> fst (handleIncomingMessage macos sig sec service c msg srv) = Terminate e \<Longrightarrow> e = Crash"
  by (auto simp: handleIncomingMessage_def answer_message_def split: XpcObject.splits option.splits sum.splits prod.splits if_splits)

text \<open>A history that fits what XPC promises is a run of the process.\<close>

fun possible_all :: "nat \<Rightarrow> security \<Rightarrow> 's IService \<Rightarrow> HelperEvent list \<Rightarrow> 's XpcServer \<Rightarrow> bool" where
  "possible_all macos sec service [] srv = True"
| "possible_all macos sec service (ev # evs) srv =
     (possible ev srv \<and> possible_all macos sec service evs (helper_event macos sec service ev srv))"

lemma events_run:
  "helper_run macos sec service s old srv \<Longrightarrow> possible_all macos sec service evs srv \<Longrightarrow>
   helper_run macos sec service s (rev evs @ old) (fold (queue_event macos sec service) evs srv)"
proof (induction evs arbitrary: old srv)
  case (Cons ev evs)
  then have "helper_run macos sec service s (ev # old) (helper_event macos sec service ev srv)" by auto
  moreover from Cons.prems(2) have "queue_event macos sec service ev srv = helper_event macos sec service ev srv"
    by (cases ev) (simp_all add: queue_event_def)
  ultimately show ?case using Cons.IH [of "ev # old"] Cons.prems(2) by simp
qed simp

lemma helper_main_run:
  assumes "possible_all macos sec TrustyService evs (XpcServer_new sys)"
  shows "helper_run macos sec TrustyService sys (rev evs) (snd (snd (helper_main macos sec True evs l sys)))"
  using events_run [OF helper_run.start assms] by (simp add: helper_main_def serve_def)

section \<open>The helper at work\<close>

definition example_history :: "HelperEvent list" where
  "example_history = [PeerConnects 5 0 good_signature,
     PeerMessage 5 good_signature (client_request Hello (XpcData (replicate 32 (CHR ''x''))))]"

definition example_request :: HelperEvent where
  "example_request = PeerMessage 5 good_signature (client_request SetProxyState (to_xpc localhost_state))"

lemmas message_defs = handleIncomingMessage_def client_request_def wrap_message_def create_message_def unwrap_def xpc_get_def
  xpc_set_def type_of_code_def isMessageSignatureValid_def validate_xpc_message_or_connection_def answer_message_def

lemma example_run: "helper_run 11 open_security TrustyService example_sys (rev example_history) example_server"
proof -
  have "fold (queue_event 11 open_security TrustyService) example_history (XpcServer_new example_sys) = example_server"
    by (simp add: queue_event_def example_history_def XpcServer_new_def handleIncomingConnection_def isClientSignatureValid_def
        message_defs AuthorizedService_new_def data_bytes_def external_form_size_def example_server_def open_security_def good_signature_def)
  moreover have "possible_all 11 open_security TrustyService example_history (XpcServer_new example_sys)"
    by (simp add: example_history_def XpcServer_new_def handleIncomingConnection_def isClientSignatureValid_def)
  ultimately show ?thesis using events_run [OF helper_run.start] by fastforce
qed

lemma changes_authorized_witness:
  "\<exists>c sig msg m a hsig hello hm earlier peer_status csig.
    example_request = PeerMessage c sig msg \<and> unwrap msg = Some m \<and>
    (msg_type m = SetProxyState \<and> granted open_security a kSetProxyStateRightName \<or>
     msg_type m = ClearProxySettings \<and> granted open_security a kClearSettingsRightName) \<and>
    rev example_history = session_of c (rev example_history) @ PeerConnects c peer_status csig # earlier \<and>
    PeerMessage c hsig hello \<in> set (session_of c (rev example_history)) \<and> unwrap hello = Some hm \<and>
    msg_type hm = Hello \<and> AuthorizedService_new open_security (data_bytes (payload hm)) = Inr a \<and>
    (11 \<le> (10 :: nat) \<longrightarrow> signed csig) \<and> ((11 :: nat) = 11 \<longrightarrow> signed hsig \<and> signed sig) \<and> ((11 :: nat) \<ge> 12 \<longrightarrow> peer_status \<noteq> 0)"
proof (rule changes_authorized [OF example_run _ _ trusty_pure])
  show "possible example_request example_server" by (simp add: example_request_def example_server_def)
  have "to_int32 (9999 :: 64 word) = 9999" by (simp add: to_int32_def)
  then have "live (service_state (helper_event 11 open_security TrustyService example_request example_server)) \<noteq> []"
    by (simp add: example_request_def message_defs handleOne_def ProxyState_of_xpc_def to_xpc_def AuthorizedService_def
        assert_right_def call_defs TrustyService_def trusty_set_def set_services_def locker_defs null_defs
        commit_and_apply_def new_config_def example_defs)
  then show "service_state (helper_event 11 open_security TrustyService example_request example_server) \<noteq>
      service_state example_server"
    by (auto simp: example_server_def example_sys_def)
qed

section \<open>The connection of the client\<close>

text \<open>\<open>conn_\<close>, what was done to connections, and whether the event handler can reach the client:
  \<open>weak_from_this\<close> is empty inside the constructor, only \<open>activate\<close> sets a handler that can.\<close>

record ClientConnection =
  client_conn :: "nat option"
  cancelled :: "nat list"
  released_conns :: "nat list"
  handler_reaches :: bool

definition ClientConnection_new :: "nat \<Rightarrow> ClientConnection" where
  "ClientConnection_new c = \<lparr>client_conn = Some c, cancelled = [], released_conns = [], handler_reaches = False\<rparr>"

definition drop_connection :: "ClientConnection \<Rightarrow> ClientConnection" where
  "drop_connection cl = (case client_conn cl of
     None \<Rightarrow> cl
   | Some c \<Rightarrow> cl\<lparr>cancelled := cancelled cl @ [c], released_conns := released_conns cl @ [c], client_conn := None\<rparr>)"

definition on_unexpected_xpc_event :: "XpcObject \<Rightarrow> ClientConnection \<Rightarrow> ClientConnection" where
  "on_unexpected_xpc_event event cl = (case event of XpcError _ \<Rightarrow> drop_connection cl | _ \<Rightarrow> cl)"

definition activate :: "ClientConnection \<Rightarrow> ClientConnection" where
  "activate cl = cl\<lparr>handler_reaches := True\<rparr>"

definition XpcServiceClient_delete :: "ClientConnection \<Rightarrow> ClientConnection" where
  "XpcServiceClient_delete cl = drop_connection cl"

datatype ClientEvent = Activated | Event XpcObject

fun client_event :: "ClientEvent \<Rightarrow> ClientConnection \<Rightarrow> ClientConnection" where
  "client_event Activated cl = activate cl"
| "client_event (Event event) cl = (if handler_reaches cl then on_unexpected_xpc_event event cl else cl)"

text \<open>Whatever happens to the client, its connection is cancelled and released once by the time it is deleted.\<close>

lemma connection_released_once:
  "released_conns (XpcServiceClient_delete (fold client_event evs (ClientConnection_new c))) = [c] \<and>
   cancelled (XpcServiceClient_delete (fold client_event evs (ClientConnection_new c))) = [c]"
proof -
  let ?ok = "\<lambda>cl. client_conn cl = Some c \<and> cancelled cl = [] \<and> released_conns cl = [] \<or>
      client_conn cl = None \<and> cancelled cl = [c] \<and> released_conns cl = [c]"
  have "?ok cl \<Longrightarrow> ?ok (client_event ev cl)" for ev cl
    by (cases ev) (auto simp: activate_def on_unexpected_xpc_event_def drop_connection_def split: XpcObject.splits)
  then have "?ok cl \<Longrightarrow> ?ok (fold client_event evs cl)" for cl by (induction evs arbitrary: cl) simp_all
  then have "?ok (fold client_event evs (ClientConnection_new c))" by (simp add: ClientConnection_new_def)
  then show ?thesis by (auto simp: XpcServiceClient_delete_def drop_connection_def)
qed

text \<open>Nothing of the program calls \<open>activate\<close>: without it no error event reaches the client.\<close>

lemma errors_unnoticed:
  "list_all (\<lambda>ev. ev \<noteq> Activated) evs \<Longrightarrow> fold client_event evs (ClientConnection_new c) = ClientConnection_new c"
proof (induction evs)
  case (Cons ev evs)
  then show ?case by (cases ev) (simp_all add: ClientConnection_new_def)
qed simp

end
