(* ===== verification/References.thy ===== *)
theory References
  imports Xpc "HOL-Library.Multiset"
begin

text \<open>
  \<open>trusty-interface/include/trusty/CFRef.h\<close>: programs over several \<open>RefHolder\<close>s, and the balance of the references
  they own. A reference handed to a holder is one the program has to give back once.
\<close>

section \<open>The rest of RefHolder\<close>

definition ref_delete :: "RefHolder \<Rightarrow> RefHolder" where
  "ref_delete h = do_release h"

definition ref_reset :: "RefHolder \<Rightarrow> RefHolder" where
  "ref_reset h = do_release h"

text \<open>The move constructor and the move assignment: the new or assigned holder, and the one moved from.\<close>

definition move_construct :: "RefHolder \<Rightarrow> RefHolder \<times> RefHolder" where
  "move_construct other = (case detach other of (r, other) \<Rightarrow> (RefHolder_new r, other))"

definition move_assign :: "RefHolder \<Rightarrow> RefHolder \<Rightarrow> RefHolder \<times> RefHolder" where
  "move_assign h holder = (case detach holder of (r, holder) \<Rightarrow> (attach r h, holder))"

section \<open>Traits\<close>

text \<open>What a holder calls to give a reference back. Both traits skip null references, and both have the inverted \<open>is_empty\<close>.\<close>

datatype ReleaseCall = CFRelease nat | xpc_release nat

record Traits =
  traits_release :: "nat option \<Rightarrow> ReleaseCall list"
  traits_empty :: "nat option"
  traits_is_empty :: "nat option \<Rightarrow> bool"

definition CFRefTraits :: Traits where
  "CFRefTraits = \<lparr>traits_release = (\<lambda>ref. case ref of None \<Rightarrow> [] | Some x \<Rightarrow> [CFRelease x]),
     traits_empty = None, traits_is_empty = (\<lambda>ref. ref \<noteq> None)\<rparr>"

definition XpcTraits :: Traits where
  "XpcTraits = \<lparr>traits_release = (\<lambda>ref. case ref of None \<Rightarrow> [] | Some x \<Rightarrow> [xpc_release x]),
     traits_empty = None, traits_is_empty = (\<lambda>ref. ref \<noteq> None)\<rparr>"

text \<open>The types a \<open>CFRef\<close> can hold, which the compiler checks; \<open>trusty/TrustyService.cpp\<close> adds its five.\<close>

datatype RefType =
    CFTypeRef | CFDictionaryRef | CFMutableDictionaryRef | CFArrayRef | CFStringRef | CFMutableStringRef
  | CFDataRef | CFBooleanRef | CFDateRef | CFNumberRef
  | SCDynamicStoreRef | SCPreferencesRef | SCNetworkSetRef | SCNetworkServiceRef | SCNetworkProtocolRef
  | OtherType

definition cf_types :: "RefType list" where
  "cf_types = [CFTypeRef, CFDictionaryRef, CFMutableDictionaryRef, CFArrayRef, CFStringRef, CFMutableStringRef,
     CFDataRef, CFBooleanRef, CFDateRef, CFNumberRef]"

definition sc_types :: "RefType list" where
  "sc_types = [SCDynamicStoreRef, SCPreferencesRef, SCNetworkSetRef, SCNetworkServiceRef, SCNetworkProtocolRef]"

definition is_cfref :: "RefType \<Rightarrow> bool" where
  "is_cfref ty \<longleftrightarrow> ty \<in> set (cf_types @ sc_types)"

definition ref_get :: "RefHolder \<Rightarrow> nat option" where
  "ref_get h = ref h"

text \<open>What every traits class owes its holder: one call for a reference, none for null. The calls of a holder over its life are
  then those for the references it released.\<close>

locale ref_traits =
  fixes T :: Traits and call :: "nat \<Rightarrow> ReleaseCall"
  assumes releases: "traits_release T (Some x) = [call x]" and skips: "traits_release T (traits_empty T) = []"
    and empty: "traits_empty T = None"
begin

definition calls_of :: "RefHolder \<Rightarrow> ReleaseCall list" where
  "calls_of h = concat (map (\<lambda>x. traits_release T (Some x)) (released_refs h))"

lemma calls: "calls_of h = map call (released_refs h)"
  by (simp add: calls_of_def releases)

lemma calls_release: "calls_of (ref_release r h) = calls_of h @ traits_release T r"
  using skips by (cases r) (simp_all add: calls_of_def ref_release_def empty)

lemma calls_delete: "calls_of (ref_delete h) = calls_of h @ traits_release T (ref h)"
  using calls_release by (simp add: ref_delete_def do_release_def calls_of_def ref_release_def)

end

interpretation cf: ref_traits CFRefTraits CFRelease
  by unfold_locales (simp_all add: CFRefTraits_def)

interpretation xpc: ref_traits XpcTraits xpc_release
  by unfold_locales (simp_all add: XpcTraits_def)

section \<open>The payload of a message\<close>

text \<open>\<open>XpcMessage\<close> keeps its payload alive, unless it is one of the objects that are not counted; \<open>refs\<close> is the payload's
  reference count.\<close>

definition is_retainable :: "XpcObject \<Rightarrow> bool" where
  "is_retainable obj = (case obj of XpcNull \<Rightarrow> False | XpcError _ \<Rightarrow> False | _ \<Rightarrow> True)"

definition XpcMessage_new :: "MessageType \<Rightarrow> XpcObject \<Rightarrow> int \<Rightarrow> IMessage \<times> int" where
  "XpcMessage_new ty obj refs = (create_message ty obj, if is_retainable obj then refs + 1 else refs)"

definition XpcMessage_delete :: "IMessage \<Rightarrow> int \<Rightarrow> int" where
  "XpcMessage_delete m refs = (if is_retainable (payload m) then refs - 1 else refs)"

lemma message_refs: "XpcMessage_new ty obj refs = (m, refs') \<Longrightarrow> refs \<le> refs' \<and> XpcMessage_delete m refs' = refs"
  by (auto simp: XpcMessage_new_def XpcMessage_delete_def create_message_def)

section \<open>Programs\<close>

text \<open>The operations on holders that are named by their position. A null reference is \<open>None\<close>.\<close>

datatype RefOp =
    Construct "nat option"
  | MoveConstruct nat
  | Destroy nat
  | Reset nat
  | Detach nat
  | Attach nat "nat option"
  | Assign nat "nat option"
  | MoveAssign nat nat

text \<open>The holders, the references acquired so far, and those \<open>detach\<close> handed to the program.\<close>

record RefState =
  holders :: "RefHolder list"
  acquired :: "nat multiset"
  handed_out :: "nat multiset"

definition owns :: "nat option \<Rightarrow> nat multiset" where
  "owns r = (case r of None \<Rightarrow> {#} | Some x \<Rightarrow> {#x#})"

fun run_op :: "RefOp \<Rightarrow> RefState \<Rightarrow> RefState" where
  "run_op (Construct r) s = s\<lparr>holders := holders s @ [RefHolder_new r], acquired := acquired s + owns r\<rparr>"
| "run_op (MoveConstruct j) s = (case move_construct (holders s ! j) of (h, other) \<Rightarrow>
     s\<lparr>holders := (holders s)[j := other] @ [h]\<rparr>)"
| "run_op (Destroy i) s = s\<lparr>holders := (holders s)[i := ref_delete (holders s ! i)]\<rparr>"
| "run_op (Reset i) s = s\<lparr>holders := (holders s)[i := ref_reset (holders s ! i)]\<rparr>"
| "run_op (Detach i) s = (case detach (holders s ! i) of (r, h) \<Rightarrow>
     s\<lparr>holders := (holders s)[i := h], handed_out := handed_out s + owns r\<rparr>)"
| "run_op (Attach i r) s =
     s\<lparr>holders := (holders s)[i := attach r (holders s ! i)], acquired := acquired s + owns r\<rparr>"
| "run_op (Assign i r) s =
     s\<lparr>holders := (holders s)[i := assign_ref r (holders s ! i)], acquired := acquired s + owns r\<rparr>"
| "run_op (MoveAssign i j) s =
     (if i = j then
        (case detach (holders s ! j) of (r, h) \<Rightarrow> s\<lparr>holders := (holders s)[j := attach r h]\<rparr>)
      else
        (case move_assign (holders s ! i) (holders s ! j) of (h, other) \<Rightarrow>
           s\<lparr>holders := (holders s)[j := other, i := h]\<rparr>))"

text \<open>Operations on holders that exist, and references attached over themselves.\<close>

fun op_ok :: "RefOp \<Rightarrow> RefState \<Rightarrow> bool" where
  "op_ok (Construct r) s = True"
| "op_ok (MoveConstruct j) s = (j < length (holders s))"
| "op_ok (Destroy i) s = (i < length (holders s))"
| "op_ok (Reset i) s = (i < length (holders s))"
| "op_ok (Detach i) s = (i < length (holders s))"
| "op_ok (Attach i r) s = (i < length (holders s))"
| "op_ok (Assign i r) s = (i < length (holders s))"
| "op_ok (MoveAssign i j) s = (i < length (holders s) \<and> j < length (holders s))"

fun lost_by :: "RefOp \<Rightarrow> RefState \<Rightarrow> nat multiset" where
  "lost_by (Attach i r) s = (if r = ref (holders s ! i) then owns r else {#})"
| "lost_by (MoveAssign i j) s = (if i \<noteq> j \<and> ref (holders s ! i) = ref (holders s ! j) then owns (ref (holders s ! i)) else {#})"
| "lost_by _ s = {#}"

fun run_ops :: "RefOp list \<Rightarrow> RefState \<Rightarrow> RefState" where
  "run_ops [] s = s"
| "run_ops (x # xs) s = run_ops xs (run_op x s)"

fun ops_ok :: "RefOp list \<Rightarrow> RefState \<Rightarrow> bool" where
  "ops_ok [] s = True"
| "ops_ok (x # xs) s = (op_ok x s \<and> ops_ok xs (run_op x s))"

fun lost :: "RefOp list \<Rightarrow> RefState \<Rightarrow> nat multiset" where
  "lost [] s = {#}"
| "lost (x # xs) s = lost_by x s + lost xs (run_op x s)"

definition RefState_new :: RefState where
  "RefState_new = \<lparr>holders = [], acquired = {#}, handed_out = {#}\<rparr>"

section \<open>Balance\<close>

definition held :: "RefState \<Rightarrow> nat multiset" where
  "held s = sum_list (map (\<lambda>h. owns (ref h)) (holders s))"

definition released :: "RefState \<Rightarrow> nat multiset" where
  "released s = sum_list (map (\<lambda>h. mset (released_refs h)) (holders s))"

definition balance :: "RefState \<Rightarrow> nat multiset" where
  "balance s = held s + released s + handed_out s"

text \<open>What a single holder accounts for.\<close>

definition holder_total :: "RefHolder \<Rightarrow> nat multiset" where
  "holder_total h = owns (ref h) + mset (released_refs h)"

lemma owns_simps [simp]: "owns None = {#}" "owns (Some x) = {#x#}"
  by (simp_all add: owns_def)

lemma balance_holders: "balance s = sum_list (map holder_total (holders s)) + handed_out s"
proof -
  have "sum_list (map (\<lambda>h. owns (ref h)) hs) + sum_list (map (\<lambda>h. mset (released_refs h)) hs) = sum_list (map holder_total hs)"
    for hs by (induction hs) (auto simp: holder_total_def)
  then show ?thesis by (simp add: balance_def held_def released_def)
qed

lemma sum_update:
  "i < length xs \<Longrightarrow> sum_list (map f (xs[i := y])) + f (xs ! i) = sum_list (map f xs) + (f y :: 'b multiset)"
proof (induction xs arbitrary: i)
  case (Cons x xs)
  then show ?case by (cases i) (auto simp: ac_simps)
qed simp

lemma sum_same: "i < length xs \<Longrightarrow> f y = f (xs ! i) \<Longrightarrow> sum_list (map f (xs[i := y])) = (sum_list (map f xs) :: 'b multiset)"
  using sum_update [of i xs f y] by simp

text \<open>Releasing keeps the total of a holder; attaching adds the reference, unless it is attached over itself.\<close>

lemma holder_totals:
  "holder_total (do_release h) = holder_total h"
  "holder_total (RefHolder_new r) = owns r"
  "holder_total (assign_ref r h) = holder_total h + owns r"
  "holder_total (attach r h) + (if r = ref h then owns r else {#}) = holder_total h + owns r"
  by (cases "ref h"; auto simp: holder_total_def do_release_def ref_release_def RefHolder_new_def assign_ref_def attach_def
      split: option.splits)+

lemma holder_detach: "detach h = (r, h') \<Longrightarrow> holder_total h' + owns r = holder_total h \<and> r = ref h \<and> ref h' = None"
  by (auto simp: detach_def holder_total_def)

text \<open>A change of one holder, in terms of the multiplicity of each reference.\<close>

lemma count_update:
  assumes "i < length xs"
  shows "count (sum_list (map holder_total (xs[i := y]))) a + count (holder_total (xs ! i)) a =
    count (sum_list (map holder_total xs)) a + count (holder_total y) a"
  using arg_cong [OF sum_update [OF assms, of holder_total y], of "\<lambda>M. count M a"] by simp

lemma count_totals:
  "count (holder_total (attach r h)) a + count (if r = ref h then owns r else {#}) a = count (holder_total h) a + count (owns r) a"
  using arg_cong [OF holder_totals(4) [of r h], of "\<lambda>M. count M a"] by simp

lemma op_balance:
  assumes "op_ok x s"
  shows "balance (run_op x s) + lost_by x s + acquired s = balance s + acquired (run_op x s)"
proof (rule multiset_eqI)
  fix a
  show "count (balance (run_op x s) + lost_by x s + acquired s) a = count (balance s + acquired (run_op x s)) a"
  proof (cases x)
    case (Construct r)
    then show ?thesis by (simp add: balance_holders holder_totals)
  next
    case (MoveConstruct j)
    obtain r h where d: "detach (holders s ! j) = (r, h)" by fastforce
    from holder_detach [OF d] have "count (holder_total h) a + count (owns r) a = count (holder_total (holders s ! j)) a"
      by (metis count_union)
    then show ?thesis
      using MoveConstruct assms count_update [of j "holders s" h a] d
      by (simp add: balance_holders move_construct_def holder_totals)
  next
    case (Destroy i)
    then show ?thesis using assms by (simp add: balance_holders ref_delete_def sum_same holder_totals)
  next
    case (Reset i)
    then show ?thesis using assms by (simp add: balance_holders ref_reset_def sum_same holder_totals)
  next
    case (Detach i)
    obtain r h where d: "detach (holders s ! i) = (r, h)" by fastforce
    from holder_detach [OF d] have "count (holder_total h) a + count (owns r) a = count (holder_total (holders s ! i)) a"
      by (metis count_union)
    then show ?thesis
      using Detach assms count_update [of i "holders s" h a] d by (simp add: balance_holders)
  next
    case (Attach i r)
    then show ?thesis
      using assms count_update [of i "holders s" "attach r (holders s ! i)" a] count_totals [of r "holders s ! i" a]
      by (simp add: balance_holders split: if_splits)
  next
    case (Assign i r)
    then show ?thesis
      using assms count_update [of i "holders s" "assign_ref r (holders s ! i)" a]
      by (simp add: balance_holders holder_totals)
  next
    case (MoveAssign i j)
    obtain r h where d: "detach (holders s ! j) = (r, h)" by fastforce
    from holder_detach [OF d] have h: "count (holder_total h) a + count (owns r) a = count (holder_total (holders s ! j)) a"
      "r = ref (holders s ! j)" "ref h = None" by (auto dest: arg_cong [of _ _ "\<lambda>M. count M a"])
    show ?thesis
    proof (cases "i = j")
      case True
      have "(if r = None then owns r else {#}) = {#}" by simp
      with h(3) have "count (holder_total (attach r h)) a = count (holder_total h) a + count (owns r) a"
        using count_totals [of r h a] by simp
      then show ?thesis
        using MoveAssign assms True d h(1) count_update [of j "holders s" "attach r h" a] by (simp add: balance_holders)
    next
      case False
      let ?hs = "(holders s)[j := h]"
      have "?hs ! i = holders s ! i" using False by simp
      then have "count (sum_list (map holder_total (?hs[i := attach r (holders s ! i)]))) a + count (holder_total (holders s ! i)) a =
          count (sum_list (map holder_total ?hs)) a + count (holder_total (attach r (holders s ! i))) a"
        using MoveAssign assms count_update [of i ?hs "attach r (holders s ! i)" a] by simp
      moreover have "count (sum_list (map holder_total ?hs)) a + count (holder_total (holders s ! j)) a =
          count (sum_list (map holder_total (holders s))) a + count (holder_total h) a"
        using MoveAssign assms count_update [of j "holders s" h a] by simp
      ultimately show ?thesis
        using MoveAssign False d h count_totals [of r "holders s ! i" a]
        by (auto simp: balance_holders move_assign_def split: if_splits)
    qed
  qed
qed

lemma run_balance:
  "ops_ok xs s \<Longrightarrow> balance (run_ops xs s) + lost xs s + acquired s = balance s + acquired (run_ops xs s)"
proof (induction xs arbitrary: s)
  case (Cons x xs)
  then have "op_ok x s" and "balance (run_ops xs (run_op x s)) + lost xs (run_op x s) + acquired (run_op x s) =
      balance (run_op x s) + acquired (run_ops xs (run_op x s))" by simp_all
  note step = op_balance [OF this(1)] and rest = this(2)
  show ?case
  proof (rule multiset_eqI)
    fix a
    show "count (balance (run_ops (x # xs) s) + lost (x # xs) s + acquired s) a =
        count (balance s + acquired (run_ops (x # xs) s)) a"
      using arg_cong [OF step, of "\<lambda>M. count M a"] arg_cong [OF rest, of "\<lambda>M. count M a"] by simp
  qed
qed simp

section \<open>Properties\<close>

text \<open>C40: the references a program hands to its holders are accounted for, whatever it does with them: each is given back
  once, still held by one holder, or handed out by \<open>detach\<close>, except that a reference attached to the holder that
  has it already is lost.\<close>

theorem references_balance:
  assumes "ops_ok xs RefState_new"
  shows "acquired (run_ops xs RefState_new) = held (run_ops xs RefState_new) + released (run_ops xs RefState_new) +
    handed_out (run_ops xs RefState_new) + lost xs RefState_new"
  using run_balance [OF assms] by (simp add: balance_def held_def released_def RefState_new_def)

lemma references_balance_witness:
  "acquired (run_ops [Construct (Some 7), Construct None, MoveAssign 1 0, Attach 1 (Some 7), Destroy 1] RefState_new) = {#7, 7#} \<and>
   released (run_ops [Construct (Some 7), Construct None, MoveAssign 1 0, Attach 1 (Some 7), Destroy 1] RefState_new) = {#7#}"
proof -
  let ?xs = "[Construct (Some 7), Construct None, MoveAssign 1 0, Attach 1 (Some 7), Destroy 1]"
  have "ops_ok ?xs RefState_new" by (simp add: RefState_new_def RefHolder_new_def move_assign_def detach_def)
  from references_balance [OF this] show ?thesis
    by (simp add: RefState_new_def RefHolder_new_def move_assign_def detach_def attach_def ref_release_def ref_delete_def
        do_release_def held_def released_def)
qed

end
