(* ===== verification/UnitTests.thy ===== *)
theory UnitTests
  imports RoundTrip TrustyService
begin

text \<open>
  The repository's own unit tests (\<open>core/src/HttpMessageParserTests.cpp\<close>, \<open>HeadersTests.cpp\<close>, \<open>RequestTest.cpp\<close>,
  \<open>trusty/TrustyServiceTests.cpp\<close>, \<open>trusty-interface/src/ProxyStateTest.cpp\<close>) as predicates over the model: a test is
  the conjunction of its checks. That they hold says that the model agrees with the code where its authors
  looked. They run on the concrete \<open>ascii_qt\<close>.
\<close>

abbreviation CRLF :: bytes where "CRLF \<equiv> [CR, LF]"

text \<open>A parser after a reset, an empty message and, for the overload that has one, a phase.\<close>

definition start_parse :: "(HttpMessageParser \<Rightarrow> HttpMessageParser) \<Rightarrow> ParsePhase option \<Rightarrow> cfg" where
  "start_parse reset ph = \<lparr>parser = reset HttpMessageParser_new, message = HttpMessage_new, phase = ph\<rparr>"

definition parses_to :: "(HttpMessageParser \<Rightarrow> HttpMessageParser) \<Rightarrow> bytes \<Rightarrow> (State \<Rightarrow> HttpMessage \<Rightarrow> bool) \<Rightarrow> bool" where
  "parses_to reset content checks =
     (case parse ascii_qt (start_parse reset None) content of
        Inl _ \<Rightarrow> False
      | Inr (state, k, _) \<Rightarrow> checks state (message k))"

text \<open>\<open>QString::fromLocal8Bit\<close> is an argument; the tests have ASCII bodies.\<close>

definition body_as_string :: "(bytes \<Rightarrow> qstring) \<Rightarrow> HttpMessage \<Rightarrow> qstring" where
  "body_as_string fromLocal8Bit m = fromLocal8Bit (msg_body m)"

abbreviation body_text :: "HttpMessage \<Rightarrow> qstring" where
  "body_text \<equiv> body_as_string latin1"

abbreviation header_of :: "HttpMessage \<Rightarrow> bytes \<Rightarrow> qstring list" where
  "header_of m n \<equiv> find_by_name ascii_qt (msg_headers m) (latin1 n)"

section \<open>Character classes on bits\<close>

text \<open>The classes of a literal character, read off its bits, so that the runs below evaluate quickly.\<close>

fun ctl_char :: "char \<Rightarrow> bool" where
  "ctl_char (Char b0 b1 b2 b3 b4 b5 b6 b7) \<longleftrightarrow>
     \<not> b7 \<and> (\<not> b6 \<and> \<not> b5 \<or> b0 \<and> b1 \<and> b2 \<and> b3 \<and> b4 \<and> b5 \<and> b6)"

fun char_char :: "char \<Rightarrow> bool" where
  "char_char (Char b0 b1 b2 b3 b4 b5 b6 b7) \<longleftrightarrow> \<not> b7"

fun digit_char' :: "char \<Rightarrow> bool" where
  "digit_char' (Char b0 b1 b2 b3 b4 b5 b6 b7) \<longleftrightarrow> \<not> b7 \<and> \<not> b6 \<and> b5 \<and> b4 \<and> (\<not> b3 \<or> \<not> b2 \<and> \<not> b1)"

lemma is_ctl_bits [code_unfold]: "is_ctl (char_int c) = ctl_char c"
  by (cases c) (auto simp: is_ctl_def char_int_def of_char_def split: if_splits)

lemma is_char_bits [code_unfold]: "is_char (char_int c) = char_char c"
  by (cases c) (auto simp: is_char_def char_int_def of_char_def split: if_splits)

lemma is_digit_bits [code_unfold]: "is_digit (char_int c) = digit_char' c"
  by (cases c) (auto simp: is_digit_def char_int_def of_char_def split: if_splits)

lemma char_int_inject: "char_int c = char_int d \<longleftrightarrow> c = d"
proof
  assume "char_int c = char_int d"
  then have "(of_char c :: nat) = of_char d"
    using of_char_lt [of c] of_char_lt [of d] unfolding char_int_def by (simp split: if_splits; linarith)
  then show "c = d" by simp
qed simp

lemma is_tspecial_bits [code_unfold]: "is_tspecial (char_int c) \<longleftrightarrow> c \<in> set
     [CHR ''('', CHR '')'', CHR ''<'', CHR ''@'', CHR '','', CHR '';'', CHR '':'', CHR 0x5C, CHR 0x22,
      CHR ''/'', CHR ''['', CHR '']'', CHR ''?'', CHR ''='', CHR ''{'', CHR ''}'', SP, HT]"
  by (simp add: is_tspecial_def char_int_inject)

lemma ascii_letter_bits [code]:
  "ascii_upper_letter (Char b0 b1 b2 b3 b4 b5 b6 b7) \<longleftrightarrow>
     \<not> b7 \<and> b6 \<and> \<not> b5 \<and> (b0 \<or> b1 \<or> b2 \<or> b3 \<or> b4) \<and> (\<not> b4 \<or> \<not> b3 \<or> \<not> b2 \<and> (\<not> b1 \<or> \<not> b0))"
  "ascii_lower_letter (Char b0 b1 b2 b3 b4 b5 b6 b7) \<longleftrightarrow>
     \<not> b7 \<and> b6 \<and> b5 \<and> (b0 \<or> b1 \<or> b2 \<or> b3 \<or> b4) \<and> (\<not> b4 \<or> \<not> b3 \<or> \<not> b2 \<and> (\<not> b1 \<or> \<not> b0))"
  by (auto simp: ascii_upper_letter_def ascii_lower_letter_def of_char_def split: if_splits)

section \<open>Runs of whole messages\<close>

text \<open>The runs below over the messages of the tests, from the lemmas on runs of the parser.\<close>

lemma parses_to_eq:
  "parse ascii_qt (erase \<lparr>parser = reset HttpMessageParser_new, message = HttpMessage_new, phase = None\<rparr>) content =
     Inr (st, k, rest) \<Longrightarrow> parses_to reset content checks = checks st (message k)"
  by (simp add: parses_to_def start_parse_def erase_def)

lemma find_in_fields:
  "list_all field_ok hs \<Longrightarrow> list_all ascii n \<Longrightarrow> find_by_name ascii_qt (insert_all ascii_qt hs Headers_new) (latin1 n) =
     rev (map latin1 (field_values (canon_name n) hs))"
  using find_insert_all [OF ascii_qt_laws, of hs n] by (simp add: field_values_def comp_def)

lemma framing_names: "list_all ascii ''Transfer-Encoding''" "list_all ascii ''Content-Length''"
  "canon_name ''Transfer-Encoding'' = ''Transfer-Encoding''" "canon_name ''Content-Length'' = ''Content-Length''"
  by code_simp+

text \<open>The header lines of a message and what they say about its entity.\<close>

definition chunked_fields :: "(bytes \<times> bytes) list \<Rightarrow> bool" where
  "chunked_fields hs = list_ex (is_chunked ascii_qt \<circ> latin1) (field_values ''Transfer-Encoding'' hs)"

definition sized_fields :: "(bytes \<times> bytes) list \<Rightarrow> nat \<Rightarrow> bool" where
  "sized_fields hs n \<longleftrightarrow> \<not> chunked_fields hs \<and> (if field_values ''Content-Length'' hs = [] then n = 0
     else last (field_values ''Content-Length'' hs) = dec_nat n)"

lemma chunked_found:
  "list_all field_ok hs \<Longrightarrow> list_ex (is_chunked ascii_qt) (find_by_name ascii_qt (insert_all ascii_qt hs Headers_new)
     (latin1 ''Transfer-Encoding'')) = chunked_fields hs"
  by (simp only: find_in_fields framing_names chunked_fields_def) (simp add: list_ex_iff)

lemma run_sized:
  assumes "list_all field_ok hs" "sized_fields hs (length body)" "length body \<le> 1073741824"
    and "msg_headers m = insert_all ascii_qt hs Headers_new" "msg_body m = []"
  shows "\<exists>k' rest'. feed ascii_qt (conf header_line_start r b v m) (CR # LF # body @ rest) = Inr (Valid, k', rest') \<and>
    message k' = m\<lparr>msg_body := body\<rparr>"
proof (cases "field_values ''Content-Length'' hs = []")
  case True
  with assms(2) have "body = []" by (simp add: sized_fields_def)
  have "find_by_name ascii_qt (msg_headers m) (latin1 ''Content-Length'') = []"
    using find_in_fields [OF assms(1) framing_names(2)] True by (simp only: framing_names assms(4)) simp
  then have "consume_blank_line ascii_qt (conf newline_3 r b v m) LF = Inr (Valid, conf newline_3 r b v m)"
    using assms(2) chunked_found [OF assms(1)] by (simp add: consume_blank_line_def sized_fields_def assms(4))
  with \<open>body = []\<close> assms(5) show ?thesis by (cases m) (simp add: feed_blank_line)
next
  case False
  then obtain vs where vs: "field_values ''Content-Length'' hs = vs @ [dec_nat (length body)]"
    using assms(2) by (cases "field_values ''Content-Length'' hs" rule: rev_cases) (simp_all add: sized_fields_def)
  have "find_by_name ascii_qt (msg_headers m) (latin1 ''Content-Length'') =
      latin1 (dec_nat (length body)) # rev (map latin1 vs)"
    using find_in_fields [OF assms(1) framing_names(2)] by (simp only: framing_names assms(4) vs) simp
  moreover have "\<not> list_ex (is_chunked ascii_qt) (find_by_name ascii_qt (msg_headers m) (latin1 ''Transfer-Encoding''))"
    using assms(2) chunked_found [OF assms(1)] by (simp add: sized_fields_def assms(4))
  moreover have "length body < 2 ^ 64" "canReserve ascii_qt (length body)" using assms(3) by simp_all
  ultimately show ?thesis using feed_sized_body [OF _ _ ascii_qt_laws _ assms(5)] by blast
qed

lemma run_chunked:
  assumes "list_all field_ok hs" "chunked_fields hs" "list_all chunk_ok cs" "ds \<noteq> []" "list_all is_hex_char ds"
    "hex_nat 0 ds mod 2 ^ 64 = 0" "msg_headers m = insert_all ascii_qt hs Headers_new"
  shows "\<exists>k' rest'. feed ascii_qt (conf header_line_start r b v m)
      (CR # LF # concat (map encode_chunk cs) @ ds @ [CR, LF, CR, LF]) = Inr (Valid, k', rest') \<and>
    message k' = m\<lparr>msg_body := concat (map snd cs)\<rparr>"
  using feed_chunked_body [OF _ assms(3-6), of ascii_qt m r b v "[]"] chunked_found [OF assms(1)] assms(2)
  by (simp add: assms(7)) blast

section \<open>HttpMessageParserTests\<close>

definition simpleGet :: bool where
  "simpleGet = parses_to resetForRequest
     (''GET /foo/bar HTTP/1.1'' @ CRLF @
      ''Accept: application/html'' @ CRLF @
      CRLF)
     (\<lambda>state request. state = Valid \<and>
        msg_method request = latin1 ''GET'' \<and> msg_uri request = latin1 ''/foo/bar'' \<and>
        msg_major_version request = 1 \<and> msg_minor_version request = 1 \<and>
        (case header_of request ''accept'' of [] \<Rightarrow> False | value # _ \<Rightarrow> value = latin1 ''application/html''))"

definition fixedLengthSimplePost :: bool where
  "fixedLengthSimplePost = parses_to resetForRequest
     (''POST /foo/bar HTTP/1.1'' @ CRLF @
      ''Accept: application/html'' @ CRLF @
      ''Content-Type: text/plain'' @ CRLF @
      ''Content-Length: 12'' @ CRLF @
      ''Transfer-Encoding: identity'' @ CRLF @
      CRLF @
      ''abcdefghijkl'' @ CRLF)
     (\<lambda>state request. state = Valid \<and> body_text request = latin1 ''abcdefghijkl'')"

definition chunked_post :: bytes where
  "chunked_post = ''POST /foo/bar HTTP/1.1'' @ CRLF @
      ''Accept: application/html'' @ CRLF @
      ''Content-Type: text/plain'' @ CRLF @
      ''Transfer-Encoding: gzip, chunked'' @ CRLF @
      CRLF @
      ''5'' @ CRLF @ ''abcde'' @ CRLF @
      ''9'' @ CRLF @ ''fghijklmn'' @ CRLF @
      ''A'' @ CRLF @ ''opqrstuvwx'' @ CRLF @
      ''c'' @ CRLF @ ''yz0123456789'' @ CRLF @
      ''0'' @ CRLF @
      CRLF"

definition chunkedSimplePost :: bool where
  "chunkedSimplePost = parses_to resetForRequest chunked_post
     (\<lambda>state request. state = Valid \<and>
        body_text request = latin1 ''abcdefghijklmnopqrstuvwxyz0123456789'' \<and>
        msg_method request = latin1 ''POST'' \<and> msg_uri request = latin1 ''/foo/bar'' \<and>
        hd (header_of request ''Accept'') = latin1 ''application/html'' \<and>
        hd (header_of request ''Content-Type'') = latin1 ''text/plain'' \<and>
        hd (header_of request ''Transfer-Encoding'') = latin1 ''gzip, chunked'')"


definition simpleOkResponse :: bool where
  "simpleOkResponse = parses_to resetForResponse
     (''HTTP/1.1 200 OK'' @ CRLF @
      ''Content-Type: text/plain'' @ CRLF @
      ''Content-Length: 5'' @ CRLF @
      CRLF @
      ''zzzzz'' @ CRLF)
     (\<lambda>state m. state = Valid \<and>
        msg_status_code m = 200 \<and> msg_status_message m = latin1 ''OK'' \<and> body_text m = latin1 ''zzzzz'')"

definition simpleForbiddenResponse :: bool where
  "simpleForbiddenResponse = parses_to resetForResponse
     (''HTTP/1.1 403 Forbidden'' @ CRLF @
      ''Server: nginx'' @ CRLF @
      ''Date: Fri, 14 Apr 2017 22:23:44 GMT'' @ CRLF @
      ''Content-Type: text/html'' @ CRLF @
      ''Transfer-Encoding: chunked'' @ CRLF @
      ''Connection: keep-alive'' @ CRLF @
      ''Vary: Accept-Encoding'' @ CRLF @
      CRLF @
      ''8'' @ CRLF @ ''<html>'' @ CRLF @ CRLF @
      ''2B'' @ CRLF @ ''<head><title>403 Forbidden</title></head>'' @ CRLF @ CRLF @
      ''18'' @ CRLF @ ''<body bgcolor='' @ [CHR 0x22] @ ''white'' @ [CHR 0x22] @ ''>'' @ CRLF @ CRLF @
      ''29'' @ CRLF @ ''<center><h1>403 Forbidden</h1></center>'' @ CRLF @ CRLF @
      ''1C'' @ CRLF @ ''<hr><center>nginx</center>'' @ CRLF @ CRLF @
      ''9'' @ CRLF @ ''</body>'' @ CRLF @ CRLF @
      ''9'' @ CRLF @ ''</html>'' @ CRLF @ CRLF @
      ''0'' @ CRLF @
      CRLF)
     (\<lambda>state m. state = Valid \<and>
        msg_status_code m = 403 \<and> msg_status_message m = latin1 ''Forbidden'' \<and>
        body_text m = latin1 (
          ''<html>'' @ CRLF @
          ''<head><title>403 Forbidden</title></head>'' @ CRLF @
          ''<body bgcolor='' @ [CHR 0x22] @ ''white'' @ [CHR 0x22] @ ''>'' @ CRLF @
          ''<center><h1>403 Forbidden</h1></center>'' @ CRLF @
          ''<hr><center>nginx</center>'' @ CRLF @
          ''</body>'' @ CRLF @
          ''</html>'' @ CRLF))"

definition connectFromEdge :: bool where
  "connectFromEdge = parses_to resetForRequest
     (''CONNECT news.ycombinator.com:443 HTTP/1.0'' @ CRLF @
      ''User-Agent: Mozilla/5.0 (Windows NT 10.0) AppleWebKit/537.36 (KHTML, like Gecko) Chrome/42.0.2311.135 Safari/537.36 Edge/12.10136'' @ CRLF @
      ''Content-Length: 0'' @ CRLF @
      ''Proxy-Connection: keep-alive'' @ CRLF @
      ''Pragma: wtf'' @ CRLF @
      CRLF)
     (\<lambda>state request. state = Valid \<and> msg_method request = latin1 ''CONNECT'')"

definition pauses_on_phase_transitions :: bool where
  "pauses_on_phase_transitions =
     (case parse ascii_qt (start_parse resetForRequest (Some Start)) chunked_post of
        Inl _ \<Rightarrow> False
      | Inr (state1, k1, begin1) \<Rightarrow>
          state1 = Incomplete \<and> phase k1 = Some ReceivedMessageLine \<and>
          msg_method (message k1) = latin1 ''POST'' \<and> msg_uri (message k1) = latin1 ''/foo/bar'' \<and>
          Headers_size (msg_headers (message k1)) = 0 \<and> body_text (message k1) = [] \<and>
          (case parse ascii_qt k1 begin1 of
             Inl _ \<Rightarrow> False
           | Inr (state2, k2, begin2) \<Rightarrow>
               state2 = Incomplete \<and> phase k2 = Some ReceivedHeaders \<and>
               Headers_size (msg_headers (message k2)) = 3 \<and> body_text (message k2) = [] \<and>
               (case parse ascii_qt k2 begin2 of
                  Inl _ \<Rightarrow> False
                | Inr (state3, k3, _) \<Rightarrow>
                    state3 = Valid \<and> phase k3 = Some ReceivedFullMessage \<and>
                    body_text (message k3) = latin1 ''abcdefghijklmnopqrstuvwxyz0123456789'')))"

definition zero_prefixed_chunk_lengths :: bool where
  "zero_prefixed_chunk_lengths = parses_to resetForResponse
     (''HTTP/1.1 200 OK'' @ CRLF @
      ''Transfer-Encoding: chunked'' @ CRLF @
      CRLF @
      ''005'' @ CRLF @
      ''aaaaa'' @ CRLF @
      ''00000000'' @ CRLF @
      CRLF)
     (\<lambda>state m. state = Valid)"

section \<open>HeadersTests\<close>

definition inserted :: "(bytes \<times> bytes) list \<Rightarrow> Headers" where
  "inserted kvs = fold (\<lambda>(n, v). insert ascii_qt (latin1 n) (latin1 v)) kvs Headers_new"

definition namesAreCanonicalized :: bool where
  "namesAreCanonicalized =
     ([latin1 ''Foo'', latin1 ''Baz-Qux''] = names (inserted [(''foo'', ''bar''), (''baz-qUX'', ''quuz'')]))"

definition multipleInsertionsOfOneName :: bool where
  "multipleInsertionsOfOneName =
     (let headers = inserted [(''foo'', ''bar''), (''Foo'', ''baz''), (''FOO'', ''quux'')];
          actualValues = find_by_name ascii_qt headers (latin1 ''foo'')
      in [latin1 ''Foo''] = names headers \<and>
         list_all (\<lambda>value. value \<in> set actualValues) [latin1 ''bar'', latin1 ''baz'', latin1 ''quux''])"

section \<open>RequestTest\<close>

definition request_with :: "bytes \<Rightarrow> bytes \<Rightarrow> (bytes \<times> bytes) list \<Rightarrow> bytes \<Rightarrow> Request" where
  "request_with meth uri kvs body =
     (let r = set_uri (latin1 uri) (set_method (latin1 meth) (set_minor_version 1 (set_major_version 1 HttpMessage_new)))
      in set_body body (r\<lparr>msg_headers := inserted kvs\<rparr>))"

definition format_simple_get :: bool where
  "format_simple_get =
     (Request_format ascii_qt (request_with ''GET'' ''http://www.google.com/?q=foo''
        [(''Host'', ''www.google.com''), (''User-Agent'', ''Qt Unit Test'')] []) =
      ''GET http://www.google.com/?q=foo HTTP/1.1'' @ CRLF @
      ''Host: www.google.com'' @ CRLF @
      ''User-Agent: Qt Unit Test'' @ CRLF @
      CRLF)"

definition json_body :: bytes where
  "json_body = ''{'' @ [CHR 0x22] @ ''foo'' @ [CHR 0x22] @ '': '' @ [CHR 0x22] @ ''bar'' @ [CHR 0x22] @ ''}''"

definition format_simple_post :: bool where
  "format_simple_post =
     (Request_format ascii_qt (request_with ''POST'' ''http://www.google.com/upload_to_me_plz''
        [(''Host'', ''www.google.com''), (''User-Agent'', ''Qt Unit Test''), (''Content-Type'', ''application/json''),
         (''Content-Length'', ''14'')] json_body) =
      ''POST http://www.google.com/upload_to_me_plz HTTP/1.1'' @ CRLF @
      ''Host: www.google.com'' @ CRLF @
      ''User-Agent: Qt Unit Test'' @ CRLF @
      ''Content-Type: application/json'' @ CRLF @
      ''Content-Length: 14'' @ CRLF @
      CRLF @
      json_body)"

section \<open>TrustyServiceTests and ProxyStateTest\<close>

definition validateHostnames :: bool where
  "validateHostnames =
     (is_valid_hostname_or_empty [] = True \<and>
      is_valid_hostname_or_empty ''localhost'' = True \<and>
      is_valid_hostname_or_empty ''127.0.0.1'' = True \<and>
      is_valid_hostname_or_empty ''12345'' = True)"

definition validateNameTooLong :: bool where
  "validateNameTooLong =
     (let hostname = concat (replicate 25 ''1234567890'') @ ''1234''
      in length hostname = 254 \<and> is_valid_hostname_or_empty hostname = False \<and>
         is_valid_hostname_or_empty (take 253 hostname) = True)"

definition validateNameStartingWithHyphen :: bool where
  "validateNameStartingWithHyphen = (is_valid_hostname_or_empty ''-foo.com'' = False)"

definition state_to_xpc :: bool where
  "state_to_xpc =
     (let actual = to_xpc \<lparr>is_enabled = True, get_host = ''google.com'', get_port = 65535\<rparr>
      in xpc_get actual ''enabled'' = Some (XpcBool True) \<and> xpc_get actual ''host'' = Some (XpcString ''google.com'') \<and>
         xpc_get actual ''port'' = Some (XpcInt64 65535))"

definition state_from_xpc :: bool where
  "state_from_xpc =
     (let serialized = xpc_set ''host'' (XpcString []) (xpc_set ''port'' (XpcInt64 0)
            (xpc_set ''enabled'' (XpcBool False) (XpcDictionary [])))
      in ProxyState_of_xpc serialized = Inr \<lparr>is_enabled = False, get_host = [], get_port = 0\<rparr>)"

section \<open>The runs\<close>

definition head_ok :: "bytes \<Rightarrow> bytes \<Rightarrow> nat \<Rightarrow> nat \<Rightarrow> (bytes \<times> bytes) list \<Rightarrow> bool" where
  "head_ok meth ur maj mnr hs \<longleftrightarrow> meth \<noteq> [] \<and> list_all token_char meth \<and> list_all (\<lambda>c. text_char c \<and> c \<noteq> SP) ur \<and>
     maj \<le> 1 \<and> mnr \<le> 1 \<and> list_all field_ok hs \<and> map (\<lambda>(n, v). (canon_name n, v)) hs = hs"

lemma request_head:
  assumes "head_ok meth ur maj mnr hs"
  obtains b v where "\<And>tail. feed ascii_qt (conf method_start 0 [] [] HttpMessage_new) (request_text meth ur maj mnr hs tail) =
      feed ascii_qt (conf header_line_start 0 b v (request_of ascii_qt meth ur maj mnr hs [])) (CR # LF # tail)"
  using feed_request_head [OF ascii_qt_laws, of meth ur maj mnr hs 0 "[]" "[]"] assms by (auto simp: head_ok_def)

lemma request_test:
  assumes "head_ok meth ur maj mnr hs" "content = request_text meth ur maj mnr hs (body @ rest)"
    and "sized_fields hs (length body)" "length body \<le> 1073741824" "checks Valid (request_of ascii_qt meth ur maj mnr hs body)"
  shows "parses_to resetForRequest content checks"
proof -
  from request_head [OF assms(1)] obtain b v where run: "feed ascii_qt (conf method_start 0 [] [] HttpMessage_new) content =
      feed ascii_qt (conf header_line_start 0 b v (request_of ascii_qt meth ur maj mnr hs [])) (CR # LF # body @ rest)"
    unfolding assms(2) by blast
  have "list_all field_ok hs" using assms(1) by (simp add: head_ok_def)
  from run_sized [OF this assms(3,4), of "request_of ascii_qt meth ur maj mnr hs []" 0 b v rest] obtain k rest' where
    "feed ascii_qt (conf method_start 0 [] [] HttpMessage_new) content = Inr (Valid, k, rest')"
    "message k = request_of ascii_qt meth ur maj mnr hs body" by (auto simp: run)
  with assms(5) show ?thesis by (subst parses_to_eq) (auto simp: start_request)
qed

lemma chunked_request_test:
  assumes "head_ok meth ur maj mnr hs" "content = request_text meth ur maj mnr hs (concat (map encode_chunk cs) @ ds @ [CR, LF, CR, LF])"
    and "chunked_fields hs" "list_all chunk_ok cs" "ds \<noteq> []" "list_all is_hex_char ds" "hex_nat 0 ds mod 2 ^ 64 = 0"
    and "checks Valid (request_of ascii_qt meth ur maj mnr hs (concat (map snd cs)))"
  shows "parses_to resetForRequest content checks"
proof -
  from request_head [OF assms(1)] obtain b v where run: "feed ascii_qt (conf method_start 0 [] [] HttpMessage_new) content =
      feed ascii_qt (conf header_line_start 0 b v (request_of ascii_qt meth ur maj mnr hs []))
        (CR # LF # concat (map encode_chunk cs) @ ds @ [CR, LF, CR, LF])"
    unfolding assms(2) by blast
  have "list_all field_ok hs" using assms(1) by (simp add: head_ok_def)
  from run_chunked [OF this assms(3-7), of "request_of ascii_qt meth ur maj mnr hs []" 0 b v] obtain k rest' where
    "feed ascii_qt (conf method_start 0 [] [] HttpMessage_new) content = Inr (Valid, k, rest')"
    "message k = request_of ascii_qt meth ur maj mnr hs (concat (map snd cs))" by (auto simp: run)
  with assms(8) show ?thesis by (subst parses_to_eq) (auto simp: start_request)
qed

lemma response_head:
  assumes "wf_response maj mnr code reason hs"
  obtains b v where "feed ascii_qt (conf response_start 0 [] [] HttpMessage_new) (response_text maj mnr code reason hs tail) =
      feed ascii_qt (conf header_line_start 0 b v (response_of ascii_qt maj mnr code reason hs [])) (CR # LF # tail)"
  using feed_response_text [OF ascii_qt_laws assms, of 0 "[]" "[]" tail] by blast

lemma response_test:
  assumes "wf_response maj mnr code reason hs" "content = response_text maj mnr code reason hs (body @ rest)"
    and "sized_fields hs (length body)" "length body \<le> 1073741824" "checks Valid (response_of ascii_qt maj mnr code reason hs body)"
  shows "parses_to resetForResponse content checks"
proof -
  from response_head [OF assms(1)] obtain b v where run: "feed ascii_qt (conf response_start 0 [] [] HttpMessage_new) content =
      feed ascii_qt (conf header_line_start 0 b v (response_of ascii_qt maj mnr code reason hs [])) (CR # LF # body @ rest)"
    unfolding assms(2) by blast
  have "list_all field_ok hs" using assms(1) by (simp add: wf_response_def)
  from run_sized [OF this assms(3,4), of "response_of ascii_qt maj mnr code reason hs []" 0 b v rest] obtain k rest' where
    "feed ascii_qt (conf response_start 0 [] [] HttpMessage_new) content = Inr (Valid, k, rest')"
    "message k = response_of ascii_qt maj mnr code reason hs body" by (auto simp: run)
  with assms(5) show ?thesis by (subst parses_to_eq) (auto simp: start_response)
qed

lemma chunked_response_test:
  assumes "wf_response maj mnr code reason hs" "content = response_text maj mnr code reason hs (concat (map encode_chunk cs) @ ds @ [CR, LF, CR, LF])"
    and "chunked_fields hs" "list_all chunk_ok cs" "ds \<noteq> []" "list_all is_hex_char ds" "hex_nat 0 ds mod 2 ^ 64 = 0"
    and "checks Valid (response_of ascii_qt maj mnr code reason hs (concat (map snd cs)))"
  shows "parses_to resetForResponse content checks"
proof -
  from response_head [OF assms(1)] obtain b v where run: "feed ascii_qt (conf response_start 0 [] [] HttpMessage_new) content =
      feed ascii_qt (conf header_line_start 0 b v (response_of ascii_qt maj mnr code reason hs []))
        (CR # LF # concat (map encode_chunk cs) @ ds @ [CR, LF, CR, LF])"
    unfolding assms(2) by blast
  have "list_all field_ok hs" using assms(1) by (simp add: wf_response_def)
  from run_chunked [OF this assms(3-7), of "response_of ascii_qt maj mnr code reason hs []" 0 b v] obtain k rest' where
    "feed ascii_qt (conf response_start 0 [] [] HttpMessage_new) content = Inr (Valid, k, rest')"
    "message k = response_of ascii_qt maj mnr code reason hs (concat (map snd cs))" by (auto simp: run)
  with assms(8) show ?thesis by (subst parses_to_eq) (auto simp: start_response)
qed

text \<open>Writing out a text, a header lookup and the sizes of chunks.\<close>

lemma dec_literals: "dec_nat 0 = ''0''" "dec_nat 1 = ''1''" "dec_nat (Suc 0) = ''1''" "dec_nat 5 = ''5''" "dec_nat 12 = ''12''"
  "dec_nat 200 = ''200''" "dec_nat 403 = ''403''"
  by (simp_all add: dec_nat.simps char_of_eq_iff)

lemmas text_simps = request_text_def response_text_def header_line_def encode_chunk_def dec_literals

lemmas chunk_simps = chunk_ok_def hex_digit_def hex_value_def is_hex_def is_digit_def char_int_def

lemma fields_found:
  "list_all field_ok hs \<Longrightarrow> list_all ascii n \<Longrightarrow> field_values (canon_name n) hs = [v] \<Longrightarrow>
   find_by_name ascii_qt (insert_all ascii_qt hs Headers_new) (latin1 n) = [latin1 v]"
  by (simp add: find_in_fields del: latin1_simps)

lemma sized_literal: "length body = n \<Longrightarrow> \<not> chunked_fields hs \<Longrightarrow> field_values ''Content-Length'' hs = [dec_nat n] \<Longrightarrow>
    sized_fields hs (length body)"
  by (simp add: sized_fields_def)

lemma simpleGet_passes: simpleGet
proof -
  let ?hs = "[(''Accept'', ''application/html'')]"
  have ok: "head_ok ''GET'' ''/foo/bar'' 1 1 ?hs" "sized_fields ?hs (length [])" by code_simp+
  have found: "list_all field_ok ?hs" "list_all ascii ''accept''"
    "field_values (canon_name ''accept'') ?hs = [''application/html'']" by code_simp+
  show ?thesis
    unfolding simpleGet_def
  proof (rule request_test [OF ok(1) _ ok(2), where rest = "[]"])
    show "''GET /foo/bar HTTP/1.1'' @ CRLF @ ''Accept: application/html'' @ CRLF @ CRLF =
        request_text ''GET'' ''/foo/bar'' 1 1 ?hs ([] @ [])" by (simp add: text_simps)
  qed (simp, simp add: fields_found [OF found] request_of_def del: latin1_simps)
qed

lemma fixedLengthSimplePost_passes: fixedLengthSimplePost
proof -
  let ?hs = "[(''Accept'', ''application/html''), (''Content-Type'', ''text/plain''), (''Content-Length'', ''12''),
    (''Transfer-Encoding'', ''identity'')]"
  have ok: "head_ok ''POST'' ''/foo/bar'' 1 1 ?hs" "\<not> chunked_fields ?hs" "field_values ''Content-Length'' ?hs = [''12'']"
    by code_simp+
  show ?thesis
    unfolding fixedLengthSimplePost_def
  proof (rule request_test [OF ok(1), where body = "''abcdefghijkl''" and rest = CRLF])
    show "sized_fields ?hs (length ''abcdefghijkl'')"
      by (rule sized_literal [where n = 12, OF _ ok(2)]) (simp, simp only: ok(3) dec_literals)
  qed (simp add: text_simps, simp, simp add: body_as_string_def)
qed

lemma chunkedSimplePost_passes: chunkedSimplePost
proof -
  let ?hs = "[(''Accept'', ''application/html''), (''Content-Type'', ''text/plain''), (''Transfer-Encoding'', ''gzip, chunked'')]"
  let ?cs = "[(''5'', ''abcde''), (''9'', ''fghijklmn''), (''A'', ''opqrstuvwx''), (''c'', ''yz0123456789'')]"
  have ok: "head_ok ''POST'' ''/foo/bar'' 1 1 ?hs" "list_all field_ok ?hs" "chunked_fields ?hs" "list_all is_hex_char ''0''" by code_simp+
  have vals: "list_all ascii ''Accept''" "list_all ascii ''Content-Type''" "list_all ascii ''Transfer-Encoding''"
    "field_values (canon_name ''Accept'') ?hs = [''application/html'']"
    "field_values (canon_name ''Content-Type'') ?hs = [''text/plain'']"
    "field_values (canon_name ''Transfer-Encoding'') ?hs = [''gzip, chunked'']" by code_simp+
  note found = fields_found [OF ok(2) vals(1,4)] fields_found [OF ok(2) vals(2,5)] fields_found [OF ok(2) vals(3,6)]
  show ?thesis
    unfolding chunkedSimplePost_def
  proof (rule chunked_request_test [OF ok(1) _ ok(3) _ _ ok(4), where cs = ?cs])
    show "chunked_post = request_text ''POST'' ''/foo/bar'' 1 1 ?hs (concat (map encode_chunk ?cs) @ ''0'' @ [CR, LF, CR, LF])"
      by (simp add: chunked_post_def text_simps)
    show "list_all chunk_ok ?cs" "hex_nat 0 ''0'' mod 2 ^ 64 = 0" by (simp_all add: chunk_simps)
  qed (simp, simp add: body_as_string_def found request_of_def del: latin1_simps)
qed

lemma simpleOkResponse_passes: simpleOkResponse
proof -
  let ?hs = "[(''Content-Type'', ''text/plain''), (''Content-Length'', ''5'')]"
  have ok: "list_all (\<lambda>c. ascii c \<and> c \<noteq> CR) ''OK''" "list_all field_ok ?hs" "\<not> chunked_fields ?hs"
    "field_values ''Content-Length'' ?hs = [''5'']" by code_simp+
  show ?thesis
    unfolding simpleOkResponse_def
  proof (rule response_test [where hs = ?hs and body = "''zzzzz''" and rest = CRLF and reason = "''OK''"])
    show "wf_response 1 1 200 ''OK'' ?hs" using ok(1,2) by (simp add: wf_response_def)
    show "sized_fields ?hs (length ''zzzzz'')"
      by (rule sized_literal [where n = 5, OF _ ok(3)]) (simp, simp only: ok(4) dec_literals)
  qed (simp add: text_simps, simp, simp add: body_as_string_def response_of_def)
qed

lemma zero_prefixed_chunk_lengths_passes: zero_prefixed_chunk_lengths
proof -
  let ?hs = "[(''Transfer-Encoding'', ''chunked'')]"
  have ok: "list_all (\<lambda>c. ascii c \<and> c \<noteq> CR) ''OK''" "list_all field_ok ?hs" "chunked_fields ?hs"
    "list_all is_hex_char ''00000000''" by code_simp+
  show ?thesis
    unfolding zero_prefixed_chunk_lengths_def
  proof (rule chunked_response_test [OF _ _ ok(3) _ _ ok(4), where cs = "[(''005'', ''aaaaa'')]" and reason = "''OK''"])
    show "wf_response 1 1 200 ''OK'' ?hs" using ok(1,2) by (simp add: wf_response_def)
    show "list_all chunk_ok [(''005'', ''aaaaa'')]" "hex_nat 0 ''00000000'' mod 2 ^ 64 = 0" by (simp_all add: chunk_simps)
  qed (simp_all add: text_simps)
qed

lemma connectFromEdge_passes: connectFromEdge
proof -
  let ?hs = "[(''User-Agent'', ''Mozilla/5.0 (Windows NT 10.0) AppleWebKit/537.36 (KHTML, like Gecko) Chrome/42.0.2311.135 Safari/537.36 Edge/12.10136''),
    (''Content-Length'', ''0''), (''Proxy-Connection'', ''keep-alive''), (''Pragma'', ''wtf'')]"
  have ok: "head_ok ''CONNECT'' ''news.ycombinator.com:443'' 1 0 ?hs" "\<not> chunked_fields ?hs"
    "field_values ''Content-Length'' ?hs = [''0'']" by code_simp+
  show ?thesis
    unfolding connectFromEdge_def
  proof (rule request_test [OF ok(1), where body = "[]" and rest = "[]"])
    show "sized_fields ?hs (length [])"
      by (rule sized_literal [where n = 0, OF _ ok(2)]) (simp, simp only: ok(3) dec_literals)
  qed (simp add: text_simps, simp, simp add: request_of_def)
qed

lemma simpleForbiddenResponse_passes: simpleForbiddenResponse
proof -
  let ?hs = "[(''Server'', ''nginx''), (''Date'', ''Fri, 14 Apr 2017 22:23:44 GMT''), (''Content-Type'', ''text/html''),
    (''Transfer-Encoding'', ''chunked''), (''Connection'', ''keep-alive''), (''Vary'', ''Accept-Encoding'')]"
  let ?cs = "[(''8'', ''<html>'' @ CRLF), (''2B'', ''<head><title>403 Forbidden</title></head>'' @ CRLF),
    (''18'', ''<body bgcolor='' @ [CHR 0x22] @ ''white'' @ [CHR 0x22] @ ''>'' @ CRLF),
    (''29'', ''<center><h1>403 Forbidden</h1></center>'' @ CRLF), (''1C'', ''<hr><center>nginx</center>'' @ CRLF),
    (''9'', ''</body>'' @ CRLF), (''9'', ''</html>'' @ CRLF)]"
  have ok: "list_all (\<lambda>c. ascii c \<and> c \<noteq> CR) ''Forbidden''" "list_all field_ok ?hs" "chunked_fields ?hs"
    "list_all is_hex_char ''0''" by code_simp+
  show ?thesis
    unfolding simpleForbiddenResponse_def
  proof (rule chunked_response_test [OF _ _ ok(3) _ _ ok(4), where cs = ?cs and reason = "''Forbidden''"])
    show "wf_response 1 1 403 ''Forbidden'' ?hs" using ok(1,2) by (simp add: wf_response_def)
    show "list_all chunk_ok ?cs" "hex_nat 0 ''0'' mod 2 ^ 64 = 0" by (simp_all add: chunk_simps)
  qed (simp add: text_simps, simp, simp add: body_as_string_def response_of_def)
qed

lemma pauses_on_phase_transitions_passes: pauses_on_phase_transitions by code_simp

lemma headers_tests_pass: namesAreCanonicalized multipleInsertionsOfOneName by code_simp+

lemma request_with_eq: "request_with meth uri kvs body = request_of ascii_qt meth uri 1 1 kvs body"
  by (simp add: request_with_def request_of_def setter_defs inserted_def insert_all_def fold_map comp_def
      case_prod_beta' Let_def HttpMessage_new_def)

lemma format_test:
  assumes "list_all field_ok kvs" "distinct (map (canon_name \<circ> fst) kvs)" "map (\<lambda>(n, v). (canon_name n, v)) kvs = kvs"
    "list_all ascii body"
  shows "Request_format ascii_qt (request_with meth uri kvs body) = request_text meth uri 1 1 kvs body"
  using Request_format_text [OF ascii_qt_laws assms(1,2,4), of meth uri 1 1] by (simp only: request_with_eq assms(3))

lemma format_simple_get_passes: format_simple_get
proof -
  let ?hs = "[(''Host'', ''www.google.com''), (''User-Agent'', ''Qt Unit Test'')]"
  have ok: "list_all field_ok ?hs" "distinct (map (canon_name \<circ> fst) ?hs)" "map (\<lambda>(n, v). (canon_name n, v)) ?hs = ?hs"
    "list_all ascii []" by code_simp+
  show ?thesis unfolding format_simple_get_def format_test [OF ok] by (simp add: text_simps)
qed

lemma format_simple_post_passes: format_simple_post
proof -
  let ?hs = "[(''Host'', ''www.google.com''), (''User-Agent'', ''Qt Unit Test''), (''Content-Type'', ''application/json''),
    (''Content-Length'', ''14'')]"
  have ok: "list_all field_ok ?hs" "distinct (map (canon_name \<circ> fst) ?hs)" "map (\<lambda>(n, v). (canon_name n, v)) ?hs = ?hs"
    "list_all ascii json_body" by code_simp+
  show ?thesis unfolding format_simple_post_def format_test [OF ok] by (simp add: text_simps json_body_def)
qed

lemma hostname_tests_pass: validateHostnames validateNameTooLong validateNameStartingWithHyphen by code_simp+

lemma proxy_state_tests_pass: state_to_xpc state_from_xpc
  by (simp_all add: state_to_xpc_def state_from_xpc_def to_xpc_def ProxyState_of_xpc_def to_int32_def Let_def)

section \<open>Properties\<close>

text \<open>The model passes the tests of the code's authors: the eight of \<open>HttpMessageParserTests\<close>, with and without
  phases, and those of header names, of formatting, of host names and of the proxy state's dictionary.\<close>

theorem unit_tests_pass:
  "simpleGet \<and> fixedLengthSimplePost \<and> chunkedSimplePost \<and> simpleOkResponse \<and> simpleForbiddenResponse \<and>
   connectFromEdge \<and> pauses_on_phase_transitions \<and> zero_prefixed_chunk_lengths \<and>
   namesAreCanonicalized \<and> multipleInsertionsOfOneName \<and> format_simple_get \<and> format_simple_post \<and>
   validateHostnames \<and> validateNameTooLong \<and> validateNameStartingWithHyphen \<and> state_to_xpc \<and> state_from_xpc"
  using simpleGet_passes fixedLengthSimplePost_passes chunkedSimplePost_passes simpleOkResponse_passes
    simpleForbiddenResponse_passes connectFromEdge_passes pauses_on_phase_transitions_passes
    zero_prefixed_chunk_lengths_passes headers_tests_pass format_simple_get_passes format_simple_post_passes
    hostname_tests_pass proxy_state_tests_pass
  by blast

end
