(* ===== verification/Spec2Isabelle.thy ===== *)
theory Spec2Isabelle
  imports Accessors ParserProps MessageProps Grammar TransactionProps Exchange Relay TunnelRaces Progress Footprint
    ObjectPool System Session Platforms HelperSessions References Log UnitTests
begin

text \<open>
  Amanuensis is an intercepting HTTP proxy with a table of the traffic it saw and, on macOS, a privileged
  helper that points the system's proxy settings at it. This library models its core as HOL functions on
  explicit states, and proves what makes it correct (and, where the code does not do what it means to,
  what it does instead).

  \<^bold>\<open>The program and its parts.\<close> A \<open>Server\<close> accepts connections and hands them to the \<open>Proxy\<close>, which
  gives each a \<open>Transaction\<close>. The transaction reads the client's request with the \<open>HttpMessageParser\<close>,
  opens the host that \<open>Headers\<close> names through the \<open>ConnectionPool\<close>, writes the request it formats anew,
  reads the whole response, relays it, and closes both connections; a CONNECT request becomes a tunnel.
  Signals on the way feed the \<open>TransactionModel\<close> of the main window, which saves it to a
  \<open>TransactionFile\<close>. All parts write to the log. On Windows the proxy sets WinINet's options itself; on macOS \<open>MacProxy\<close> calls the helper
  through \<open>XpcServiceClient\<close>; the helper's \<open>XpcServer\<close> authorizes the caller and passes the call to the
  \<open>TrustyService\<close>, which edits the network settings.

  \<^bold>\<open>Theories.\<close>

  \<^item> \<open>Prelude\<close>: bytes, characters of Qt strings, arithmetic of decimal and hexadecimal numerals, result
    types, and the record \<open>qt\<close> of the functions of Qt the code calls, with the laws it relies on: the string functions
    (\<open>qt_laws\<close>), whether the memory for a body can be reserved, and what a table view reads after a signal of its model
    (\<open>view_laws\<close>).
  \<^item> \<open>Headers\<close> (\<open>core/src/Headers.cpp\<close>) and \<open>HttpMessage\<close> (\<open>core/src/HttpMessage.cpp\<close>, \<open>Request.cpp\<close>,
    \<open>Response.cpp\<close>): the multi-map of header fields and the two kinds of message, with their accessors and the
    overloads of \<open>parse\<close> in \<open>Accessors\<close>.
  \<^item> \<open>HttpMessageParser\<close> (\<open>core/src/HttpMessageParser.cpp\<close>): the incremental parser, one function per group
    of states; \<open>ParserLemmas\<close>, \<open>ParserRuns\<close> and \<open>ParserBodies\<close> say what it does on a whole line, a header
    section and a body; \<open>ReadLoop\<close> is the loop of the transaction around it, and \<open>RoundTrip\<close> the texts it
    is run on. \<open>Scanners\<close> and \<open>Grammar\<close> cut the accepted inputs into segments, with locales for the states
    that collect characters and the states that count digits, and give the grammar of requests and
    responses. The properties are in \<open>ParserProps\<close>, \<open>MessageProps\<close> and \<open>Grammar\<close>; \<open>Footprint\<close> bounds what the parser keeps.
  \<^item> \<open>Errors\<close> (\<open>core/src/Errors.cpp\<close>) and \<open>Connections\<close> (\<open>core/src/ConnectionPool.cpp\<close>, \<open>AsioConnection.h\<close>),
    the latter with the locale \<open>opener\<close>: what a transaction relies on when it asks for a connection.
  \<^item> \<open>Transaction\<close> (\<open>core/src/Transaction.cpp\<close>): the state of a transaction with its mutex, its signals, the
    bytes written to either side and the operations that are pending; one definition per member function
    and per callback. \<open>TransactionLemmas\<close> has the functional lemmas, \<open>TransactionInv\<close> the step relation, the
    reachable states and the invariant by stages, \<open>TransactionProps\<close> the safety properties and \<open>Exchange\<close>
    the liveness ones. \<open>TransactionFrames\<close> says, through the locale \<open>frame\<close>, which connections an operation can touch
    and when it can change messages; \<open>Relay\<close> is a transaction as its peers see it, a specification of ten states that the transaction
    refines; \<open>Progress\<close> how many callbacks the bytes received can pay for. \<open>TunnelRaces\<close> cuts the callbacks
    of a tunnel into the sections between which the mutex is free, and lets any number of threads interleave them.
  \<^item> \<open>ObjectPool\<close> (\<open>core/include/core/ObjectPool.h\<close>), \<open>Server\<close> (\<open>core/src/Server.cpp\<close>, \<open>Proxy.cpp\<close>) and
    \<open>TransactionModel\<close> (\<open>app/TransactionModel.cpp\<close>); \<open>TransactionFile\<close> (\<open>app/TransactionFile.cpp\<close>), the database
    of saved transactions; \<open>MainWindow\<close> (\<open>app/MainWindow.cpp\<close>), which saves the table of a running proxy; and
    \<open>Application\<close> (the rest of \<open>MainWindow.cpp\<close>, \<open>app/main.cpp\<close>), the window over the proxy of the platform, from start to end.
  \<^item> \<open>System\<close>: server, proxy, all transactions, the table, its view and what is posted to the window's thread (signals and
    repaints) as one state, whose steps are the events
    of the network and the turns of the window's thread, in any order; and \<open>Session\<close>, the table of that program saved to a file while
    the worker threads go on, each access to a transaction reading the state it is in by then.
  \<^item> \<open>Xpc\<close> (\<open>trusty-interface/\<close>): exceptions by type, and crashes, which no handler catches; XPC values, \<open>ProxyState\<close>, messages, \<open>IService\<close> and the owner of references;
    \<open>TrustyService\<close> (\<open>trusty/TrustyService.cpp\<close>) with the locale \<open>proxy_service\<close>, the contract of
    \<open>IService\<close>, and the lock it takes on the preferences; \<open>XpcServer\<close> (\<open>trusty/AuthorizedService.cpp\<close>, \<open>trusty/XpcServer.cpp\<close>,
    \<open>app/mac/XpcServiceClient.cpp\<close>) with \<open>proxy_factory\<close>, the contract of what makes a client; \<open>MacProxy\<close>
    (\<open>app/mac/MacProxy.cpp\<close>), proved from these two contracts.
    \<open>References\<close> (\<open>trusty-interface/include/trusty/CFRef.h\<close>) runs programs on owners of references, and \<open>HelperSessions\<close>
    (\<open>trusty/main.cpp\<close> and the listener of \<open>XpcServer\<close>) the helper over its life: the histories of events XPC can
    deliver, and the connection of the client at the other end.
  \<^item> \<open>WindowsProxy\<close> (\<open>app/win/WindowsProxy.cpp\<close>), over the two calls of WinINet; and \<open>Platforms\<close>
    (\<open>app/ProxyFactory.cpp\<close>), the window over whichever proxy the system has.
  \<^item> \<open>Log\<close> (\<open>log/\<close>, \<open>app/QtLogWriter.cpp\<close>, \<open>trusty-interface/src/CFLog.cpp\<close> and the log values of the other parts),
    with the locale \<open>log_writer\<close>: what a writer promises, interpreted for the four of them.
  \<^item> \<open>UnitTests\<close>: the tests of the repository as predicates over the model, all of which hold: a check of the model.

  \<^bold>\<open>What the properties show.\<close>

  \<^item> Of the parser: it does not depend on how the network splits its input, the pausing loop reads what one
    uninterrupted parse reads and ends, what \<open>Request::format\<close> writes is read as the request with repeated fields joined and the body
    recoded (the same request where neither applies); it accepts exactly the texts of a
    grammar, which is unambiguous, and reads each as the message it denotes; and the places where it ends the process are exactly those listed.
  \<^item> Of a transaction, for every history: it computes a machine of ten states that knows only what the peers have sent; only the parsed request reaches the remote host, only the received
    response the client, tunnels relay both directions, connections are closed once and together, errors
    end it with the right signals, and no lock is taken twice once it has begun. It is never stuck, an
    exchange whose peers answer completely is completed, and after \<open>n\<close> bytes there have been at most \<open>2 * n + 5\<close> callbacks. A tunnel
    keeps its promises under every interleaving of the sections of its callbacks, and comes to rest once it is closed.
  \<^item> Of the running program: its transactions do not interfere, so that whatever holds of one transaction holds of each of
    them under every interleaving; the table ends up with the outcome of each; and a saved file has every client's transaction in a
    state it can reach on its own, for a complete exchange the messages that the bytes of client and host spell.
  \<^item> Of the files: a save is atomic whatever call fails, a file stays well-formed, the whole table is saved in
    order, and what was saved can be read back.
  \<^item> Of the log: the filter and the order of the lines, and when a line can be read back.
  \<^item> Of the helper: a call through the wire is the call of the service, in every history of the helper settings change only for a
    peer that earned it in its own session, a change is confined to one service, the lock on the
    preferences is given back on every path that does not crash, and what was set is read back; owned references are balanced. A session of either
    platform's proxy is followed from the first setting to the last.
  \<^item> Of the shortcomings: messages that are read or written wrongly (\<open>MessageProps\<close>), signals that never come
    or come twice, rights and signatures that are checked the wrong way round.

  \<^bold>\<open>Parameters and bounds.\<close> Qt's string functions are the fields of \<open>qt\<close>, and properties that need them
  to behave as documented assume \<open>qt_laws\<close>; an instance for ASCII shows that the laws can hold. Answers of
  the network, of macOS and of its security services are inputs of the steps. There is no fuel: every loop
  is a structural recursion or has a termination proof. Counters of the parser keep the width of 64 bits
  and of 32 bits of the code; reads have at most 8192 bytes, as the transaction's buffer. A callback
  is one step of a transaction: outside tunnels only one can be under way, since one operation is pending and a callback
  starts the next one last. In a tunnel callbacks overlap: \<open>TunnelRaces\<close> has the steps between which the mutex is free, and the whole
  callbacks of the other theories are among its interleavings. Memory is sequentially consistent, and one access
  to a message is undisturbed; where threads write without a lock, the findings say so. Memory is exhausted in two places only: where the
  parser reserves the length a peer announces, and where the pool allocates an object; not where a byte is appended.

  \<^bold>\<open>Not modelled.\<close> The log calls inside the other parts (they return nothing and change no state of their
  caller; a \<open>noexcept\<close> failure of the formatter is in \<open>Log\<close>), the layout of the window, the printing of
  debug values, the Windows writer's thread beyond its queue, and QtSql, SQLite, WinINet and the event
  loops of asio, Qt and XPC themselves, whose documented behaviour is a hypothesis or an input of the steps.
\<close>

end
